(* ===== verification/Prelude.thy ===== *)
theory Prelude
  imports Complex_Main "HOL-Library.Multiset" "HOL-Library.Word" "HOL-Library.Sublist" "HOL-Library.AList"
begin

text \<open>
  Shared base of the development: the types that stand for the Rust types used
  by every component, the string and sub_slice helpers of the Rust standard library
  the sources call, association-list maps, and the generic
  machine-with-invariant interface that the stateful components interpret.

  A Rust \<open>String\<close>/\<open>&str\<close> is its UTF-8 byte sequence, a
  \<^typ>\<open>string\<close>; binary protocols use \<^typ>\<open>8 word list\<close>.
\<close>

unbundle bit_operations_syntax

named_theorems model_defs \<open>unfolding equations of the small operations of the model\<close>
named_theorems inv_intros \<open>one preservation fact per operation\<close>

type_synonym str = string
type_synonym byte = "8 word"
type_synonym bytes = "8 word list"

text \<open>
  An \<open>Instant\<close> is a number of nanoseconds; \<open>Instant::duration_since\<close>
  saturates at zero.
\<close>

type_synonym instant = int

definition duration_since :: "instant \<Rightarrow> instant \<Rightarrow> int" where
  "duration_since now earlier = max 0 (now - earlier)"

subsection \<open>Strings\<close>

definition ascii_upperp :: "char \<Rightarrow> bool" where
  "ascii_upperp c = (65 \<le> (of_char c :: nat) \<and> (of_char c :: nat) \<le> 90)"

definition ascii_digitp :: "char \<Rightarrow> bool" where
  "ascii_digitp c = (48 \<le> (of_char c :: nat) \<and> (of_char c :: nat) \<le> 57)"

definition char_lower :: "char \<Rightarrow> char" where
  "char_lower c = (if ascii_upperp c then char_of ((of_char c :: nat) + 32) else c)"

definition to_lowercase :: "str \<Rightarrow> str" where
  "to_lowercase s = map char_lower s"

definition starts_with :: "'a list \<Rightarrow> 'a list \<Rightarrow> bool" where
  "starts_with s p = (take (length p) s = p)"

definition ends_with :: "'a list \<Rightarrow> 'a list \<Rightarrow> bool" where
  "ends_with s p = (length p \<le> length s \<and> drop (length s - length p) s = p)"

fun contains :: "'a list \<Rightarrow> 'a list \<Rightarrow> bool" where
  "contains [] p = (p = [])"
| "contains (x # xs) p = (starts_with (x # xs) p \<or> contains xs p)"

lemma of_char_lt_256 [simp]: "(of_char c :: nat) < 256"
  by simp

lemma char_lower_idem [simp]: "char_lower (char_lower c) = char_lower c"
proof (cases "ascii_upperp c")
  case True
  then have "\<not> ascii_upperp (char_of ((of_char c :: nat) + 32))"
    by (simp add: ascii_upperp_def)
  with True show ?thesis by (simp add: char_lower_def)
qed (simp add: char_lower_def)

lemma to_lowercase_idem [simp]: "to_lowercase (to_lowercase s) = to_lowercase s"
  by (simp add: to_lowercase_def)

lemma length_to_lowercase [simp]: "length (to_lowercase s) = length s"
  by (simp add: to_lowercase_def)

lemma starts_with_prefix: "starts_with s p = prefix p s"
  by (auto simp: starts_with_def prefix_def intro: take_eq_Nil [THEN iffD2])
     (metis append_take_drop_id)

lemma starts_with_Nil [simp]: "starts_with s []"
  by (simp add: starts_with_def)

lemma starts_with_append [simp]: "starts_with (p @ s) p"
  by (simp add: starts_with_def)

lemma contains_iff: "contains s p = (\<exists>u v. s = u @ p @ v)"
proof (induction s)
  case (Cons x xs)
  have "contains (x # xs) p = ((\<exists>v. x # xs = p @ v) \<or> (\<exists>u v. xs = u @ p @ v))"
    using Cons by (simp add: starts_with_prefix prefix_def)
  also have "\<dots> = (\<exists>u v. x # xs = u @ p @ v)"
    by (metis append_Cons append_Nil list.exhaust list.inject)
  finally show ?case .
qed simp

subsection \<open>Slices and vectors\<close>

text \<open>\<open>iter().position(p)\<close>.\<close>

fun position :: "('a \<Rightarrow> bool) \<Rightarrow> 'a list \<Rightarrow> nat option" where
  "position P [] = None"
| "position P (x # xs) = (if P x then Some 0 else map_option Suc (position P xs))"

lemma position_None_iff: "position P xs = None \<longleftrightarrow> (\<forall>x\<in>set xs. \<not> P x)"
  by (induction xs) auto

lemma position_SomeD:
  "position P xs = Some i \<Longrightarrow> i < length xs \<and> P (xs ! i) \<and> (\<forall>j<i. \<not> P (xs ! j))"
proof (induction xs arbitrary: i)
  case (Cons x xs)
  show ?case
  proof (cases "P x")
    case True
    with Cons.prems show ?thesis by simp
  next
    case False
    with Cons.prems obtain k where k: "position P xs = Some k" "i = Suc k"
      by auto
    with Cons.IH [OF k(1)] False show ?thesis
      by (auto simp: nth_Cons split: nat.splits)
  qed
qed simp

lemma position_split:
  assumes "position P xs = Some i"
  shows "xs = take i xs @ xs ! i # drop (Suc i) xs \<and> (\<forall>x\<in>set (take i xs). \<not> P x)"
  using position_SomeD [OF assms]
  by (auto simp: id_take_nth_drop [symmetric] in_set_conv_nth)

text \<open>The sub_slice \<open>&s[lo..hi]\<close> with \<open>lo \<le> hi \<le> len\<close> checked by the caller.\<close>

definition sub_slice :: "nat \<Rightarrow> nat \<Rightarrow> 'a list \<Rightarrow> 'a list" where
  "sub_slice lo hi xs = take (hi - lo) (drop lo xs)"

lemma length_sub_slice [simp]: "length (sub_slice lo hi xs) = min (hi - lo) (length xs - lo)"
  by (simp add: sub_slice_def)

lemma sub_slice_glue:
  assumes "lo \<le> mid" and "mid \<le> hi"
  shows "sub_slice lo mid xs @ sub_slice mid hi xs = sub_slice lo hi xs"
proof -
  have "take (hi - lo) (drop lo xs) = take (mid - lo + (hi - mid)) (drop lo xs)"
    using assms by simp
  then show ?thesis
    using assms unfolding sub_slice_def by (simp only: take_add drop_drop) (simp add: add.commute)
qed

lemma sub_slice_all [simp]: "sub_slice 0 (length xs) xs = xs"
  by (simp add: sub_slice_def)

lemma sub_slice_empty [simp]: "sub_slice lo lo xs = []"
  by (simp add: sub_slice_def)

subsection \<open>Splitting, searching and numbers\<close>

text \<open>\<open>split(p)\<close>: the pieces between separators, empty ones included.\<close>

fun split_by :: "('a \<Rightarrow> bool) \<Rightarrow> 'a list \<Rightarrow> 'a list list" where
  "split_by p [] = [[]]"
| "split_by p (c # cs) =
     (if p c then [] # split_by p cs
      else case split_by p cs of [] \<Rightarrow> [[c]] | w # ws \<Rightarrow> (c # w) # ws)"

abbreviation split_on :: "'a \<Rightarrow> 'a list \<Rightarrow> 'a list list" where
  "split_on d \<equiv> split_by (\<lambda>c. c = d)"

lemma split_by_not_Nil [simp]: "split_by p xs \<noteq> []"
  by (induction xs) (auto split: list.splits)

lemma split_on_no_sep: "d \<notin> set xs \<Longrightarrow> split_on d xs = [xs]"
  by (induction xs) auto

lemma split_on_append_sep: "d \<notin> set xs \<Longrightarrow> split_on d (xs @ d # ys) = xs # split_on d ys"
  by (induction xs) (auto split: list.splits)

text \<open>\<open>find(needle)\<close>: the first offset.\<close>

fun find_sub :: "'a list \<Rightarrow> 'a list \<Rightarrow> nat option" where
  "find_sub [] p = (if p = [] then Some 0 else None)"
| "find_sub (x # xs) p = (if starts_with (x # xs) p then Some 0 else map_option Suc (find_sub xs p))"

lemma find_sub_Some: "find_sub s p = Some i \<Longrightarrow> i + length p \<le> length s \<and> take (length p) (drop i s) = p"
proof (induction s arbitrary: i)
  case (Cons x xs)
  show ?case
  proof (cases "starts_with (x # xs) p")
    case True
    then have "length p \<le> length (x # xs)" unfolding starts_with_def by (metis length_take min.cobounded1 min.commute)
    with True Cons.prems show ?thesis by (simp add: starts_with_def)
  next
    case False
    with Cons show ?thesis by auto
  qed
qed (simp split: if_splits)

lemma find_sub_None_iff: "find_sub s p = None \<longleftrightarrow> \<not> contains s p"
  by (induction s) auto

text \<open>\<open>s.split_once(c)\<close> for a character.\<close>

definition split_once :: "'a \<Rightarrow> 'a list \<Rightarrow> ('a list \<times> 'a list) option" where
  "split_once d xs = (if d \<in> set xs then Some (takeWhile (\<lambda>c. c \<noteq> d) xs, tl (dropWhile (\<lambda>c. c \<noteq> d) xs)) else None)"

lemma split_once_append: "d \<notin> set xs \<Longrightarrow> split_once d (xs @ d # ys) = Some (xs, ys)"
proof -
  assume d: "d \<notin> set xs"
  then have "\<forall>x\<in>set xs. x \<noteq> d" by auto
  then show ?thesis by (simp add: split_once_def takeWhile_append2 dropWhile_append2)
qed

text \<open>\<open>join\<close> on a vector of pieces, and the hexadecimal digits of bytes.\<close>

fun join_with :: "'a list \<Rightarrow> 'a list list \<Rightarrow> 'a list" where
  "join_with sep [] = []"
| "join_with sep [w] = w"
| "join_with sep (w # v # ws) = w @ sep @ join_with sep (v # ws)"

definition hex_digit :: "nat \<Rightarrow> char" where
  "hex_digit n = ''0123456789abcdef'' ! n"

definition hex_of :: "bytes \<Rightarrow> str" where
  "hex_of bs = concat (map (\<lambda>b. [hex_digit (unat b div 16), hex_digit (unat b mod 16)]) bs)"

lemma length_hex_of [simp]: "length (hex_of bs) = 2 * length bs"
  by (induction bs) (simp_all add: hex_of_def)

lemma byte_lt: "unat b < 256" for b :: byte
  using unsigned_less [of b] by simp

lemma length_hex_digits: "length ''0123456789abcdef'' = 16"
  by simp

lemma hex_digit_inj: "m < 16 \<Longrightarrow> n < 16 \<Longrightarrow> hex_digit m = hex_digit n \<Longrightarrow> m = n"
  unfolding hex_digit_def by (subst (asm) nth_eq_iff_index_eq) simp_all

lemma hex_of_inj: "hex_of bs = hex_of cs \<Longrightarrow> bs = cs"
proof (induction bs arbitrary: cs)
  case Nil
  then show ?case by (cases cs) (simp_all add: hex_of_def)
next
  case (Cons b bs)
  then obtain c ds where c: "cs = c # ds" by (cases cs) (simp_all add: hex_of_def)
  have lt: "unat x div 16 < 16" for x :: byte using byte_lt [of x] by simp
  have "hex_digit (unat b div 16) = hex_digit (unat c div 16)" "hex_digit (unat b mod 16) = hex_digit (unat c mod 16)" "hex_of bs = hex_of ds"
    using Cons.prems by (simp_all add: c hex_of_def)
  then have "unat b div 16 = unat c div 16" "unat b mod 16 = unat c mod 16" "bs = ds"
    using hex_digit_inj lt Cons.IH by auto
  then show ?case using c by (metis div_mult_mod_eq unsigned_word_eqI)
qed

text \<open>\<open>str::as_bytes\<close>.\<close>

definition as_bytes :: "str \<Rightarrow> bytes" where
  "as_bytes s = map (\<lambda>c. word_of_nat (of_char c)) s"

text \<open>Decimal numerals: \<open>to_string()\<close> and the digit loop of \<open>parse()\<close>.\<close>

fun parse_digits :: "str \<Rightarrow> nat \<Rightarrow> nat option" where
  "parse_digits [] n = Some n"
| "parse_digits (c # cs) n = (if ascii_digitp c then parse_digits cs (10 * n + (of_char c - 48)) else None)"

fun dec_digits :: "nat \<Rightarrow> str" where
  "dec_digits n = (if n < 10 then [char_of (48 + n)] else dec_digits (n div 10) @ [char_of (48 + n mod 10)])"

declare dec_digits.simps [simp del]

lemma ascii_digitp_dec [simp]: "(d :: nat) < 10 \<Longrightarrow> ascii_digitp (char_of (48 + d))"
  by (simp add: ascii_digitp_def)

lemma dec_digits_digits: "c \<in> set (dec_digits n) \<Longrightarrow> ascii_digitp c"
  by (induction n rule: dec_digits.induct) (subst (asm) (2) dec_digits.simps, auto split: if_splits)

lemma dec_digits_not_Nil [simp]: "dec_digits n \<noteq> []"
  by (subst dec_digits.simps) simp

lemma parse_digits_append:
  "parse_digits (xs @ ys) n = Option.bind (parse_digits xs n) (parse_digits ys)"
  by (induction xs arbitrary: n) auto

lemma parse_dec_digits [simp]: "parse_digits (dec_digits n) 0 = Some n"
proof (induction n rule: dec_digits.induct)
  case (1 n)
  then show ?case
    by (subst dec_digits.simps) (auto simp: parse_digits_append)
qed

text \<open>\<open>str::parse\<close> for the unsigned type of width \<open>w\<close>: an optional plus sign, then digits, in range.\<close>

definition parse_uint :: "nat \<Rightarrow> str \<Rightarrow> nat option" where
  "parse_uint w s =
     (let ds = (case s of c # cs \<Rightarrow> if c = CHR ''+'' then cs else s | [] \<Rightarrow> [])
      in if ds = [] then None
         else case parse_digits ds 0 of Some n \<Rightarrow> if n < 2 ^ w then Some n else None | None \<Rightarrow> None)"

lemma parse_uint_dec [simp]: "n < 2 ^ w \<Longrightarrow> parse_uint w (dec_digits n) = Some n"
proof -
  assume n: "n < 2 ^ w"
  obtain c cs where e: "dec_digits n = c # cs" by (cases "dec_digits n") auto
  have "ascii_digitp c" using dec_digits_digits [of c n] e by simp
  then have "c \<noteq> CHR ''+''" by (auto simp: ascii_digitp_def)
  with e n parse_dec_digits [of n] show ?thesis by (simp add: parse_uint_def)
qed

subsection \<open>Stable sorting by a key\<close>

lemma sort_key_filter_mono:
  "filter (\<lambda>x. P (f x)) (sort_key f xs) = sort_key f (filter (\<lambda>x. P (f x)) xs)"
  by (rule filter_sort)

lemma sort_key_sorted_id: "sorted (map f xs) \<Longrightarrow> sort_key f xs = xs"
  by (rule properties_for_sort_key) simp_all

lemma distinct_map_sort_key [simp]: "distinct (map g (sort_key f xs)) = distinct (map g xs)"
  by (metis mset_eq_imp_distinct_iff mset_map mset_sort)

subsection \<open>Machines with an invariant\<close>

text \<open>
  A component that keeps state is a step function over an operation type. Its
  invariant holds initially and is kept by every operation; the consequence
  for arbitrary operation sequences is proved once.
\<close>

locale invariant_machine =
  fixes init :: 's
    and step :: "'s \<Rightarrow> 'op \<Rightarrow> 's"
    and inv :: "'s \<Rightarrow> bool"
  assumes init_inv: "inv init"
    and step_inv: "inv s \<Longrightarrow> inv (step s a)"
begin

lemma run_inv_from: "inv s \<Longrightarrow> inv (foldl step s ops)"
  by (induction ops arbitrary: s) (auto intro: step_inv)

lemma run_inv: "inv (foldl step init ops)"
  by (rule run_inv_from [OF init_inv])

end

end
