(* ===== verification/F64.thy ===== *)
theory F64
  imports Prelude
begin

text \<open>
  The \<open>f64\<close> type of the sources. A value is a finite real or one of the
  three non-finite values; comparisons follow IEEE 754 (every ordered comparison
  with a NaN is false) and arithmetic rounds the exact result to binary64, to
  nearest with ties to even, and overflows to an infinity. The sign of a zero is
  not represented: no source line divides by a value that can be a zero.
\<close>

subsection \<open>Rounding to binary64\<close>

definition rne :: "real \<Rightarrow> int" where
  "rne x = (let f = \<lfloor>x\<rfloor>; d = x - of_int f
            in if d < 1 / 2 then f else if d > 1 / 2 then f + 1
               else if even f then f else f + 1)"

definition bexp :: "real \<Rightarrow> int" where
  "bexp x = max (\<lfloor>log 2 \<bar>x\<bar>\<rfloor> - 52) (- 1074)"

definition rnd64 :: "real \<Rightarrow> real" where
  "rnd64 x = (if x = 0 then 0 else of_int (rne (x / 2 powi bexp x)) * 2 powi bexp x)"

lemma rne_of_int [simp]: "rne (of_int n) = n"
  by (simp add: rne_def Let_def)

lemma rne_error: "\<bar>of_int (rne x) - x\<bar> \<le> 1 / 2"
  unfolding rne_def Let_def by (auto simp: abs_le_iff; linarith)

lemma rne_mono:
  assumes "x \<le> y"
  shows "rne x \<le> rne y"
proof (cases "\<lfloor>x\<rfloor> = \<lfloor>y\<rfloor>")
  case True
  with assms show ?thesis by (auto simp: rne_def Let_def)
next
  case False
  with assms have "\<lfloor>x\<rfloor> + 1 \<le> \<lfloor>y\<rfloor>"
    using floor_mono [OF assms] by linarith
  then show ?thesis by (auto simp: rne_def Let_def)
qed

lemma rne_le_of_int: "x \<le> of_int n \<Longrightarrow> rne x \<le> n"
  using rne_mono [of x "of_int n"] by simp

lemma rne_ge_of_int: "of_int n \<le> x \<Longrightarrow> n \<le> rne x"
  using rne_mono [of "of_int n" x] by simp

lemma floor_log2_le: "0 < x \<Longrightarrow> 2 powi \<lfloor>log 2 x\<rfloor> \<le> x"
  using powr_le_cancel_iff [of 2 "of_int \<lfloor>log 2 x\<rfloor>" "log 2 x"] by (simp add: powr_real_of_int')

lemma less_floor_log2: "0 < x \<Longrightarrow> x < 2 powi (\<lfloor>log 2 x\<rfloor> + 1)"
proof -
  assume x: "0 < x"
  have "log 2 x < of_int (\<lfloor>log 2 x\<rfloor> + 1)" by linarith
  then have "2 powr log 2 x < 2 powr of_int (\<lfloor>log 2 x\<rfloor> + 1)" by (simp only: powr_less_cancel_iff)
  with x show ?thesis by (simp add: powr_real_of_int' del: of_int_add)
qed

lemma bexp_mono: "0 < x \<Longrightarrow> x \<le> y \<Longrightarrow> bexp x \<le> bexp y"
  unfolding bexp_def by (intro max.mono diff_right_mono floor_mono) simp_all

lemma two_powi_le: "m \<le> n \<Longrightarrow> (2::real) powi m \<le> 2 powi n"
  by (simp add: power_int_increasing)

lemma two_powi_int: "0 \<le> n \<Longrightarrow> (2::real) powi n = of_int (2 ^ nat n)"
  by (simp add: power_int_def)

text \<open>A multiple of the grid is a bound that rounding respects.\<close>

lemma rnd64_grid_le:
  assumes "0 < x" and "x \<le> 2 powi k" and "bexp x \<le> k"
  shows "rnd64 x \<le> 2 powi k"
proof -
  have "x / 2 powi bexp x \<le> 2 powi k / 2 powi bexp x"
    using assms(2) by (simp add: divide_right_mono)
  also have "\<dots> = of_int (2 ^ nat (k - bexp x))"
    using assms(3) by (simp add: power_int_diff [symmetric] two_powi_int)
  finally have "rne (x / 2 powi bexp x) \<le> 2 ^ nat (k - bexp x)" by (rule rne_le_of_int)
  then have "of_int (rne (x / 2 powi bexp x)) \<le> (2::real) powi (k - bexp x)"
    using assms(3) by (metis diff_ge_0_iff_ge of_int_le_iff two_powi_int)
  then have "of_int (rne (x / 2 powi bexp x)) * 2 powi bexp x \<le> (2::real) powi (k - bexp x) * 2 powi bexp x"
    by (simp add: mult_right_mono)
  with assms(1) show ?thesis by (simp add: rnd64_def power_int_add [symmetric])
qed

lemma rnd64_grid_ge:
  assumes "0 < x" and "2 powi k \<le> x" and "bexp x \<le> k"
  shows "2 powi k \<le> rnd64 x"
proof -
  have "of_int (2 ^ nat (k - bexp x)) = (2::real) powi k / 2 powi bexp x"
    using assms(3) by (simp add: power_int_diff [symmetric] two_powi_int)
  also have "\<dots> \<le> x / 2 powi bexp x"
    using assms(2) by (simp add: divide_right_mono)
  finally have "2 ^ nat (k - bexp x) \<le> rne (x / 2 powi bexp x)" by (rule rne_ge_of_int)
  then have "(2::real) powi (k - bexp x) \<le> of_int (rne (x / 2 powi bexp x))"
    using assms(3) by (metis diff_ge_0_iff_ge of_int_le_iff two_powi_int)
  then have "(2::real) powi (k - bexp x) * 2 powi bexp x \<le> of_int (rne (x / 2 powi bexp x)) * 2 powi bexp x"
    by (simp add: mult_right_mono)
  with assms(1) show ?thesis by (simp add: rnd64_def power_int_add [symmetric])
qed

lemma rnd64_pos: "0 < x \<Longrightarrow> 0 \<le> rnd64 x"
  using rne_ge_of_int [of 0 "x / 2 powi bexp x"] by (simp add: rnd64_def)

lemma rnd64_mono_pos:
  assumes "0 < x" and "x \<le> y"
  shows "rnd64 x \<le> rnd64 y"
proof (cases "bexp x = bexp y")
  case True
  with assms show ?thesis
    by (auto simp: rnd64_def divide_right_mono intro!: mult_right_mono rne_mono)
next
  case False
  define k where "k = \<lfloor>log 2 y\<rfloor>"
  have y: "0 < y" using assms by simp
  have less: "bexp x < bexp y" using False bexp_mono [OF assms] by simp
  then have ky: "bexp y = k - 52" using y by (simp add: bexp_def k_def max_def split: if_splits)
  have "\<lfloor>log 2 x\<rfloor> + 1 \<le> k" using less ky assms(1) by (simp add: bexp_def)
  then have "x \<le> 2 powi k"
    using less_floor_log2 [OF assms(1)] two_powi_le [of "\<lfloor>log 2 x\<rfloor> + 1" k] by linarith
  then have "rnd64 x \<le> 2 powi k" using less ky by (intro rnd64_grid_le assms) auto
  moreover have "2 powi k \<le> rnd64 y"
    using ky by (intro rnd64_grid_ge y) (auto simp: k_def floor_log2_le y)
  ultimately show ?thesis by simp
qed

lemma rne_minus: "rne (- x) = - rne x"
proof (cases "x = of_int \<lfloor>x\<rfloor>")
  case True
  then show ?thesis by (metis of_int_minus rne_of_int)
next
  case False
  then have "of_int \<lfloor>x\<rfloor> < x" by linarith
  then have "\<lfloor>- x\<rfloor> = - \<lfloor>x\<rfloor> - 1" by (intro floor_unique) (simp; linarith)+
  then show ?thesis by (auto simp: rne_def Let_def)
qed

lemma rnd64_minus [simp]: "rnd64 (- x) = - rnd64 x"
  by (simp add: rnd64_def bexp_def rne_minus)

lemma rnd64_0 [simp]: "rnd64 0 = 0"
  by (simp add: rnd64_def)

lemma rnd64_nonneg: "0 \<le> x \<Longrightarrow> 0 \<le> rnd64 x"
  by (cases "x = 0") (auto intro: rnd64_pos)

theorem rnd64_mono:
  assumes "x \<le> y"
  shows "rnd64 x \<le> rnd64 y"
proof -
  consider "0 < x" | "x \<le> 0" "0 \<le> y" | "y < 0" by linarith
  then show ?thesis
  proof cases
    case 1
    then show ?thesis using assms by (rule rnd64_mono_pos)
  next
    case 2
    then show ?thesis using rnd64_nonneg [of "- x"] rnd64_nonneg [of y] by simp
  next
    case 3
    then show ?thesis using assms rnd64_mono_pos [of "- y" "- x"] by simp
  qed
qed

lemma bexp_small:
  assumes "0 < \<bar>x\<bar>" and "\<bar>x\<bar> < 2 ^ 53"
  shows "bexp x \<le> 0"
proof -
  have "log 2 \<bar>x\<bar> < 53" using assms by (simp add: log_less_iff powr_numeral)
  then have "\<lfloor>log 2 \<bar>x\<bar>\<rfloor> < 53" by (simp add: floor_less_iff)
  then show ?thesis by (simp add: bexp_def)
qed

theorem rnd64_of_int:
  assumes "\<bar>n\<bar> < 2 ^ 53"
  shows "rnd64 (of_int n) = of_int n"
proof (cases "n = 0")
  case False
  have "real_of_int \<bar>n\<bar> < of_int (2 ^ 53)" using assms by (simp only: of_int_less_iff)
  then have "\<bar>real_of_int n\<bar> < 2 ^ 53" by simp
  then have e: "bexp (of_int n) \<le> 0" using False by (intro bexp_small) auto
  define g where "g = (2::real) powi bexp (of_int n)"
  have "1 / g = 2 powi (- bexp (of_int n))"
    by (simp add: g_def power_int_minus divide_inverse)
  with e have g: "g \<noteq> 0" "1 / g = of_int (2 ^ nat (- bexp (of_int n)))"
    by (simp_all only: g_def two_powi_int neg_0_le_iff_le power_int_not_zero) simp
  then have "real_of_int n / g = of_int (n * 2 ^ nat (- bexp (of_int n)))"
    by (metis mult.right_neutral of_int_mult times_divide_eq_right)
  then have "of_int (rne (real_of_int n / g)) = real_of_int n / g" by (metis rne_of_int)
  with g(1) False show ?thesis unfolding rnd64_def g_def [symmetric] by simp
qed simp

lemma rnd64_numeral [simp]: "numeral k < (2::int) ^ 53 \<Longrightarrow> rnd64 (numeral k) = numeral k"
  using rnd64_of_int [of "numeral k"] by simp

lemma rnd64_1 [simp]: "rnd64 1 = 1"
  using rnd64_of_int [of 1] by simp

theorem rnd64_error: "\<bar>rnd64 x - x\<bar> \<le> \<bar>x\<bar> / 2 ^ 53 + 1 / 2 ^ 1000"
proof (cases "x = 0")
  case False
  define e where "e = (2::real) powi bexp x"
  have "rnd64 x - x = (of_int (rne (x / e)) - x / e) * e"
    using False by (simp add: rnd64_def e_def field_simps)
  then have "\<bar>rnd64 x - x\<bar> = \<bar>of_int (rne (x / e)) - x / e\<bar> * e"
    by (simp add: abs_mult e_def)
  also have "\<dots> \<le> 1 / 2 * e" by (intro mult_right_mono rne_error) (simp add: e_def)
  finally have 1: "\<bar>rnd64 x - x\<bar> \<le> e / 2" by simp
  have "e \<le> 2 powi (\<lfloor>log 2 \<bar>x\<bar>\<rfloor> - 52) + 2 powi (- 1074)"
    unfolding e_def bexp_def max_def by (simp add: add_increasing add_increasing2)
  moreover have "(2::real) powi (\<lfloor>log 2 \<bar>x\<bar>\<rfloor> - 52) \<le> \<bar>x\<bar> / 2 ^ 52"
    using floor_log2_le [of "\<bar>x\<bar>"] False by (simp add: power_int_diff divide_right_mono)
  moreover have "(2::real) powi (- 1074) \<le> 1 / 2 ^ 1000"
    using two_powi_le [of "- 1074" "- 1000"] by (simp add: power_int_def field_simps)
  ultimately show ?thesis using 1 by (simp add: field_simps)
qed simp

lemma rnd64_close:
  assumes "\<bar>x\<bar> \<le> 1000"
  shows "\<bar>rnd64 x - x\<bar> \<le> 1 / 1000000000"
proof -
  have "(2::real) ^ 1000 \<ge> 2 ^ 53" by (intro power_increasing) auto
  then have "1 / (2::real) ^ 1000 \<le> 1 / 2 ^ 53" by (intro divide_left_mono) auto
  moreover have "\<bar>x\<bar> / 2 ^ 53 \<le> 1000 / 2 ^ 53" using assms by (intro divide_right_mono) auto
  ultimately have "\<bar>rnd64 x - x\<bar> \<le> 1000 / 2 ^ 53 + 1 / 2 ^ 53" using rnd64_error [of x] by linarith
  then show ?thesis by simp
qed

subsection \<open>Values, comparisons and arithmetic\<close>

datatype f64 = Fin real | PInf | NInf | NaN

definition f64_max :: real where
  "f64_max = (2 ^ 53 - 1) * 2 ^ 971"

definition of_exact :: "real \<Rightarrow> f64" where
  "of_exact x = (let r = rnd64 x in if r > f64_max then PInf else if r < - f64_max then NInf else Fin r)"

fun fle :: "f64 \<Rightarrow> f64 \<Rightarrow> bool" where
  "fle NaN y = False"
| "fle x NaN = False"
| "fle NInf y = True"
| "fle x PInf = True"
| "fle (Fin x) (Fin y) = (x \<le> y)"
| "fle x y = False"

definition feq :: "f64 \<Rightarrow> f64 \<Rightarrow> bool" where
  "feq x y = (x = y \<and> x \<noteq> NaN)"

definition flt :: "f64 \<Rightarrow> f64 \<Rightarrow> bool" where
  "flt x y = (fle x y \<and> \<not> feq x y)"

abbreviation fge :: "f64 \<Rightarrow> f64 \<Rightarrow> bool" where
  "fge x y \<equiv> fle y x"

abbreviation fgt :: "f64 \<Rightarrow> f64 \<Rightarrow> bool" where
  "fgt x y \<equiv> flt y x"

fun fneg :: "f64 \<Rightarrow> f64" where
  "fneg (Fin x) = Fin (- x)"
| "fneg PInf = NInf"
| "fneg NInf = PInf"
| "fneg NaN = NaN"

fun fadd :: "f64 \<Rightarrow> f64 \<Rightarrow> f64" where
  "fadd (Fin x) (Fin y) = of_exact (x + y)"
| "fadd (Fin x) y = y"
| "fadd x (Fin y) = x"
| "fadd x y = (if x = y then x else NaN)"

definition fsub :: "f64 \<Rightarrow> f64 \<Rightarrow> f64" where
  "fsub x y = fadd x (fneg y)"

fun fsgn :: "f64 \<Rightarrow> real" where
  "fsgn (Fin x) = sgn x"
| "fsgn PInf = 1"
| "fsgn NInf = - 1"
| "fsgn NaN = 0"

definition inf_of_sign :: "real \<Rightarrow> f64" where
  "inf_of_sign s = (if s > 0 then PInf else if s < 0 then NInf else NaN)"

fun fmul :: "f64 \<Rightarrow> f64 \<Rightarrow> f64" where
  "fmul (Fin x) (Fin y) = of_exact (x * y)"
| "fmul x y = (if x = NaN \<or> y = NaN then NaN else inf_of_sign (fsgn x * fsgn y))"

text \<open>Division by a zero is an infinity of the dividend's sign, zero by zero a NaN.\<close>

fun fdiv :: "f64 \<Rightarrow> f64 \<Rightarrow> f64" where
  "fdiv (Fin x) (Fin y) = (if y = 0 then inf_of_sign (sgn x) else of_exact (x / y))"
| "fdiv NaN y = NaN"
| "fdiv x NaN = NaN"
| "fdiv (Fin x) y = Fin 0"
| "fdiv x (Fin y) = inf_of_sign (fsgn x * (if y = 0 then 1 else sgn y))"
| "fdiv x y = NaN"

text \<open>\<open>f64::min\<close> and \<open>f64::max\<close> return the other operand when one is a NaN.\<close>

definition fmin :: "f64 \<Rightarrow> f64 \<Rightarrow> f64" where
  "fmin x y = (if x = NaN then y else if y = NaN then x else if fle x y then x else y)"

definition fmax :: "f64 \<Rightarrow> f64 \<Rightarrow> f64" where
  "fmax x y = (if x = NaN then y else if y = NaN then x else if fle x y then y else x)"

lemma fle_Fin_iff [simp]: "fle (Fin x) (Fin y) = (x \<le> y)"
  by simp

lemma flt_Fin_iff [simp]: "flt (Fin x) (Fin y) = (x < y)"
  by (auto simp: flt_def feq_def)

lemma flt_NaN [simp]: "\<not> flt NaN y" "\<not> flt x NaN" "\<not> fle x NaN"
  by (cases x; simp add: flt_def)+

lemma fle_refl [simp]: "fle x x = (x \<noteq> NaN)"
  by (cases x) auto

lemma fle_trans: "fle x y \<Longrightarrow> fle y z \<Longrightarrow> fle x z"
  by (cases x; cases y; cases z) auto

lemma fle_flt_trans: "fle x y \<Longrightarrow> flt y z \<Longrightarrow> flt x z"
  by (cases x; cases y; cases z) (auto simp: flt_def feq_def)

lemma not_fle_iff: "x \<noteq> NaN \<Longrightarrow> y \<noteq> NaN \<Longrightarrow> (\<not> fle x y) = flt y x"
  by (cases x; cases y) (auto simp: flt_def feq_def)

lemma flt_not_fle: "flt x y \<Longrightarrow> \<not> fle y x"
  by (cases x; cases y) (auto simp: flt_def feq_def)

lemma fmin_Fin [simp]: "fmin (Fin x) (Fin y) = Fin (min x y)"
  by (simp add: fmin_def min_def)

lemma fmax_Fin [simp]: "fmax (Fin x) (Fin y) = Fin (max x y)"
  by (simp add: fmax_def max_def)

text \<open>Below 2 to the 53 an operation cannot overflow, and its result stays in the bounds.\<close>

lemma big_f64_max: "(2::real) ^ 53 \<le> f64_max"
proof -
  have "(1::real) \<le> 2 ^ 53 - 1" by simp
  then have "1 * (2::real) ^ 971 \<le> f64_max" unfolding f64_max_def by (intro mult_right_mono) auto
  moreover have "(2::real) ^ 53 \<le> 2 ^ 971" by (intro power_increasing) auto
  ultimately show ?thesis by linarith
qed

lemma of_exact_Fin:
  assumes "\<bar>x\<bar> \<le> of_int n" and "n < 2 ^ 53"
  shows "of_exact x = Fin (rnd64 x)" and "\<bar>rnd64 x\<bar> \<le> of_int n"
proof -
  have n: "\<bar>n\<bar> < 2 ^ 53" using assms by linarith
  have "rnd64 x \<le> of_int n" using rnd64_mono [of x "of_int n"] assms(1) rnd64_of_int [OF n] by simp
  moreover have "rnd64 (- of_int n) \<le> rnd64 x" using assms(1) by (intro rnd64_mono) simp
  ultimately show b: "\<bar>rnd64 x\<bar> \<le> of_int n" using rnd64_of_int [OF n] by simp
  have "real_of_int n < of_int (2 ^ 53)" using assms(2) by (simp only: of_int_less_iff)
  then have "\<bar>rnd64 x\<bar> < f64_max" using b big_f64_max by simp
  then show "of_exact x = Fin (rnd64 x)" by (auto simp: of_exact_def Let_def)
qed

lemma of_exact_int [simp]:
  "\<bar>n\<bar> < 2 ^ 53 \<Longrightarrow> of_exact (of_int n) = Fin (of_int n)"
  using of_exact_Fin(1) [of "of_int n" "\<bar>n\<bar>"] by (simp add: rnd64_of_int)

lemma of_exact_numeral [simp]: "numeral k < (2::int) ^ 53 \<Longrightarrow> of_exact (numeral k) = Fin (numeral k)"
  using of_exact_int [of "numeral k"] by simp

lemma of_exact_01 [simp]: "of_exact 0 = Fin 0" "of_exact 1 = Fin 1"
  using of_exact_int [of 0] of_exact_int [of 1] by simp_all

end
