(* ===== verification/Json.thy ===== *)
theory Json
  imports F64
begin

text \<open>
  The part of \<open>serde_json::Value\<close> the sources use: the value type and its
  accessors. The parser and the printer are library code and stay parameters of
  the operations that call them. An object is its list of members; the library
  keeps keys unique, and \<open>get\<close> reads the first.
\<close>

datatype json =
    JNull
  | JBool bool
  | JInt int
  | JFloat real
  | JStr str
  | JArr "json list"
  | JObj "(str \<times> json) list"

fun jget :: "json \<Rightarrow> str \<Rightarrow> json option" where
  "jget (JObj ms) k = map_of ms k"
| "jget _ k = None"

fun as_array :: "json \<Rightarrow> json list option" where
  "as_array (JArr xs) = Some xs"
| "as_array _ = None"

fun as_str :: "json \<Rightarrow> str option" where
  "as_str (JStr s) = Some s"
| "as_str _ = None"

fun as_bool :: "json \<Rightarrow> bool option" where
  "as_bool (JBool b) = Some b"
| "as_bool _ = None"

fun as_f64 :: "json \<Rightarrow> f64 option" where
  "as_f64 (JInt i) = Some (of_exact (of_int i))"
| "as_f64 (JFloat x) = Some (Fin x)"
| "as_f64 _ = None"

fun as_u64 :: "json \<Rightarrow> nat option" where
  "as_u64 (JInt i) = (if 0 \<le> i \<and> i < 2 ^ 64 then Some (nat i) else None)"
| "as_u64 _ = None"

fun as_i64 :: "json \<Rightarrow> int option" where
  "as_i64 (JInt i) = (if - (2 ^ 63) \<le> i \<and> i < 2 ^ 63 then Some i else None)"
| "as_i64 _ = None"

fun as_i32 :: "json \<Rightarrow> int option" where
  "as_i32 (JInt i) = (if - (2 ^ 31) \<le> i \<and> i < 2 ^ 31 then Some i else None)"
| "as_i32 _ = None"

definition jget_str :: "json \<Rightarrow> str \<Rightarrow> str option" where
  "jget_str v k = Option.bind (jget v k) as_str"

end
