(* ===== verification/Utf8.thy ===== *)
theory Utf8
  imports Prelude
begin

text \<open>
  UTF-8 as the standard library reads it: the validity test behind
  \<open>String::from_utf8\<close>, the character iterators \<open>chars\<close> and
  \<open>char_indices\<close>, and \<open>String::from_utf8_lossy\<close>, which replaces each maximal
  ill-formed prefix by U+FFFD. Characters are code points, natural numbers.
\<close>

definition codes :: "str \<Rightarrow> nat list" where
  "codes s = map of_char s"

definition of_codes :: "nat list \<Rightarrow> str" where
  "of_codes bs = map char_of bs"

definition contb :: "nat \<Rightarrow> bool" where
  "contb b = (128 \<le> b \<and> b \<le> 191)"

text \<open>The second byte allowed after a given first byte.\<close>

definition second_ok :: "nat \<Rightarrow> nat \<Rightarrow> bool" where
  "second_ok b0 b1 =
     (if b0 = 224 then 160 \<le> b1 \<and> b1 \<le> 191
      else if b0 = 237 then 128 \<le> b1 \<and> b1 \<le> 159
      else if b0 = 240 then 144 \<le> b1 \<and> b1 \<le> 191
      else if b0 = 244 then 128 \<le> b1 \<and> b1 \<le> 143
      else contb b1)"

definition seq_len :: "nat \<Rightarrow> nat" where
  "seq_len b0 = (if b0 < 128 then 1 else if 194 \<le> b0 \<and> b0 \<le> 223 then 2
                 else if 224 \<le> b0 \<and> b0 \<le> 239 then 3 else if 240 \<le> b0 \<and> b0 \<le> 244 then 4 else 0)"

text \<open>Code point and length of the first character, or the length of the ill-formed prefix.\<close>

fun utf8_next :: "nat list \<Rightarrow> nat option \<times> nat" where
  "utf8_next [] = (None, 0)"
| "utf8_next (b0 # bs) =
     (if seq_len b0 = 0 then (None, 1)
      else if seq_len b0 = 1 then (Some b0, 1)
      else case bs of [] \<Rightarrow> (None, 1)
        | b1 # bs1 \<Rightarrow>
          if \<not> second_ok b0 b1 then (None, 1)
          else if seq_len b0 = 2 then (Some ((b0 - 192) * 64 + (b1 - 128)), 2)
          else case bs1 of [] \<Rightarrow> (None, 2)
            | b2 # bs2 \<Rightarrow>
              if \<not> contb b2 then (None, 2)
              else if seq_len b0 = 3 then (Some ((b0 - 224) * 4096 + (b1 - 128) * 64 + (b2 - 128)), 3)
              else case bs2 of [] \<Rightarrow> (None, 3)
                | b3 # bs3 \<Rightarrow>
                  if \<not> contb b3 then (None, 3)
                  else (Some ((b0 - 240) * 262144 + (b1 - 128) * 4096 + (b2 - 128) * 64 + (b3 - 128)), 4))"

lemma utf8_next_len: "bs \<noteq> [] \<Longrightarrow> 1 \<le> snd (utf8_next bs) \<and> snd (utf8_next bs) \<le> length bs"
  by (cases bs) (auto split: list.splits)

text \<open>All characters with their byte offsets; ill-formed prefixes are kept as \<open>None\<close>.\<close>

function utf8_scan :: "nat \<Rightarrow> nat list \<Rightarrow> (nat \<times> nat option) list" where
  "utf8_scan i [] = []"
| "utf8_scan i (b # bs) =
     (let (c, n) = utf8_next (b # bs) in (i, c) # utf8_scan (i + n) (drop n (b # bs)))"
  by pat_completeness auto
termination
proof (relation "measure (\<lambda>(i, bs). length bs)")
  show "((i + n, drop n (b # bs)), i, b # bs) \<in> measure (\<lambda>(i, bs). length bs)"
    if "p = utf8_next (b # bs)" "(c, n) = p" for i b bs p c n
    using utf8_next_len [of "b # bs"] that by (auto simp: prod_eq_iff)
qed simp

function utf8_valid :: "nat list \<Rightarrow> bool" where
  "utf8_valid [] = True"
| "utf8_valid (b # bs) =
     (let (c, n) = utf8_next (b # bs) in c \<noteq> None \<and> utf8_valid (drop n (b # bs)))"
  by pat_completeness auto
termination
proof (relation "measure length")
  show "(drop n (b # bs), b # bs) \<in> measure length"
    if "p = utf8_next (b # bs)" "(c, n) = p" for b bs p c n
    using utf8_next_len [of "b # bs"] that by (auto simp: prod_eq_iff)
qed simp

definition char_indices :: "str \<Rightarrow> (nat \<times> nat) list" where
  "char_indices s = List.map_filter (\<lambda>(i, c). map_option (Pair i) c) (utf8_scan 0 (codes s))"

definition chars :: "str \<Rightarrow> nat list" where
  "chars s = map snd (char_indices s)"

text \<open>Encoding of one code point.\<close>

definition utf8_enc :: "nat \<Rightarrow> nat list" where
  "utf8_enc c =
     (if c < 128 then [c]
      else if c < 2048 then [192 + c div 64, 128 + c mod 64]
      else if c < 65536 then [224 + c div 4096, 128 + c div 64 mod 64, 128 + c mod 64]
      else [240 + c div 262144, 128 + c div 4096 mod 64, 128 + c div 64 mod 64, 128 + c mod 64])"

definition of_chars :: "nat list \<Rightarrow> str" where
  "of_chars cs = of_codes (concat (map utf8_enc cs))"

definition from_utf8 :: "str \<Rightarrow> str option" where
  "from_utf8 s = (if utf8_valid (codes s) then Some s else None)"

definition from_utf8_lossy :: "str \<Rightarrow> str" where
  "from_utf8_lossy s =
     of_chars (map (\<lambda>(i, c). case c of Some c \<Rightarrow> c | None \<Rightarrow> 65533) (utf8_scan 0 (codes s)))"

text \<open>\<open>str::is_char_boundary\<close>.\<close>

definition is_char_boundary :: "str \<Rightarrow> nat \<Rightarrow> bool" where
  "is_char_boundary s i = (i = length s \<or> i < length s \<and> \<not> contb (of_char (s ! i)))"

subsection \<open>Case and character classes\<close>

text \<open>
  On ASCII text \<open>to_lowercase\<close> and the character classes are written out; the
  Unicode tables of the standard library beyond ASCII are a parameter.
\<close>

record unicode =
  uc_lower :: "str \<Rightarrow> str"
  uc_alnum :: "nat \<Rightarrow> bool"

text \<open>A Unicode table that leaves every character outside ASCII alone.\<close>

definition plain_unicode :: unicode where
  "plain_unicode = \<lparr>uc_lower = id, uc_alnum = (\<lambda>_. False)\<rparr>"

definition is_ascii :: "str \<Rightarrow> bool" where
  "is_ascii s = list_all (\<lambda>c. (of_char c :: nat) < 128) s"

definition lowercase :: "unicode \<Rightarrow> str \<Rightarrow> str" where
  "lowercase u s = (if is_ascii s then to_lowercase s else uc_lower u s)"

definition ascii_alnum :: "nat \<Rightarrow> bool" where
  "ascii_alnum c = (48 \<le> c \<and> c \<le> 57 \<or> 65 \<le> c \<and> c \<le> 90 \<or> 97 \<le> c \<and> c \<le> 122)"

definition ascii_hexdigit :: "nat \<Rightarrow> bool" where
  "ascii_hexdigit c = (48 \<le> c \<and> c \<le> 57 \<or> 65 \<le> c \<and> c \<le> 70 \<or> 97 \<le> c \<and> c \<le> 102)"

definition is_alphanumeric :: "unicode \<Rightarrow> nat \<Rightarrow> bool" where
  "is_alphanumeric u c = (if c < 128 then ascii_alnum c else uc_alnum u c)"

text \<open>The Unicode property White_Space.\<close>

definition is_whitespace :: "nat \<Rightarrow> bool" where
  "is_whitespace c = (9 \<le> c \<and> c \<le> 13 \<or> c = 32 \<or> c = 133 \<or> c = 160 \<or> c = 5760
     \<or> 8192 \<le> c \<and> c \<le> 8202 \<or> c = 8232 \<or> c = 8233 \<or> c = 8239 \<or> c = 8287 \<or> c = 12288)"

subsection \<open>Splitting and searching\<close>

text \<open>\<open>split_whitespace\<close>: the non-empty pieces.\<close>

definition split_whitespace :: "('a \<Rightarrow> bool) \<Rightarrow> 'a list \<Rightarrow> 'a list list" where
  "split_whitespace p cs = filter (\<lambda>w. w \<noteq> []) (split_by p cs)"

definition trim_matches :: "('a \<Rightarrow> bool) \<Rightarrow> 'a list \<Rightarrow> 'a list" where
  "trim_matches p cs = rev (dropWhile p (rev (dropWhile p cs)))"

definition trim_end_matches :: "('a \<Rightarrow> bool) \<Rightarrow> 'a list \<Rightarrow> 'a list" where
  "trim_end_matches p cs = rev (dropWhile p (rev cs))"

text \<open>\<open>str::trim\<close> and \<open>str::trim_start\<close>.\<close>

definition trim :: "str \<Rightarrow> str" where
  "trim s = of_chars (trim_matches is_whitespace (chars s))"

definition trim_start :: "str \<Rightarrow> str" where
  "trim_start s = of_chars (dropWhile is_whitespace (chars s))"

text \<open>\<open>matches(needle).count()\<close>: occurrences that do not overlap, for a non-empty needle.\<close>

function count_matches :: "'a list \<Rightarrow> 'a list \<Rightarrow> nat" where
  "count_matches p [] = 0"
| "count_matches p (x # xs) =
     (if p \<noteq> [] \<and> starts_with (x # xs) p then Suc (count_matches p (drop (length p) (x # xs)))
      else count_matches p xs)"
  by pat_completeness auto
termination
  by (relation "measure (\<lambda>(p, xs). length xs)") (auto simp: neq_Nil_conv)

subsection \<open>Validity of concatenations and of cuts at boundaries\<close>

lemma utf8_next_append:
  "fst (utf8_next bs) \<noteq> None \<Longrightarrow> utf8_next (bs @ cs) = utf8_next bs"
  by (cases bs) (auto split: list.splits if_splits)

lemma utf8_next_appendE:
  "utf8_next (bs @ cs) = (c, n) \<Longrightarrow> n \<le> length bs \<Longrightarrow> bs \<noteq> [] \<Longrightarrow> c \<noteq> None \<Longrightarrow> utf8_next bs = (c, n)"
  by (cases bs) (auto split: list.splits if_splits simp: append_eq_Cons_conv)

lemma utf8_valid_Cons:
  "utf8_valid (b # bs) \<longleftrightarrow>
     (\<exists>c n. utf8_next (b # bs) = (Some c, n) \<and> utf8_valid (drop n (b # bs)))"
  by (auto split: prod.splits)

lemma utf8_valid_append: "utf8_valid xs \<Longrightarrow> utf8_valid ys \<Longrightarrow> utf8_valid (xs @ ys)"
proof (induction xs rule: utf8_valid.induct)
  case (2 b bs)
  then obtain c n where n: "utf8_next (b # bs) = (Some c, n)" "utf8_valid (drop n (b # bs))"
    by (auto simp only: utf8_valid_Cons)
  have "n \<le> length (b # bs)" using utf8_next_len [of "b # bs"] n(1) by simp
  moreover have "utf8_next ((b # bs) @ ys) = (Some c, n)" using utf8_next_append [of "b # bs" ys] n(1) by simp
  moreover have "utf8_valid (drop n (b # bs) @ ys)" by (rule "2.IH" [OF n(1) [symmetric] refl n(2) "2.prems"(2)])
  moreover from \<open>n \<le> length (b # bs)\<close> have "drop n ((b # bs) @ ys) = drop n (b # bs) @ ys"
    by (simp only: drop_append) simp
  ultimately show ?case unfolding append_Cons utf8_valid_Cons by auto
qed simp

lemma utf8_next_Some_bytes:
  assumes "utf8_next bs = (Some c, n)"
  shows "\<not> contb (bs ! 0)" and "\<And>i. 0 < i \<Longrightarrow> i < n \<Longrightarrow> contb (bs ! i)"
  using assms
  by (cases bs; auto simp: second_ok_def contb_def seq_len_def nth_Cons split: list.splits if_splits nat.splits)+

lemma utf8_valid_prefix:
  assumes "utf8_next bs = (Some c, n)"
  shows "utf8_valid (take n bs)"
proof -
  have len: "1 \<le> n" "n \<le> length bs" using utf8_next_len [of bs] assms by (cases bs; simp)+
  have "utf8_next (take n bs @ drop n bs) = (Some c, n)" using assms by simp
  moreover have "take n bs \<noteq> []" "n \<le> length (take n bs)" using len by auto
  ultimately have nx: "utf8_next (take n bs) = (Some c, n)" by (blast intro: utf8_next_appendE)
  obtain b' bs' where "take n bs = b' # bs'" using len by (cases "take n bs") auto
  moreover have "drop n (take n bs) = []" by simp
  ultimately show ?thesis using nx by (metis utf8_valid.simps(1) utf8_valid_Cons)
qed

definition cut_ok :: "nat list \<Rightarrow> nat \<Rightarrow> bool" where
  "cut_ok bs i = (i = length bs \<or> i < length bs \<and> \<not> contb (bs ! i))"

lemma utf8_valid_cut:
  "utf8_valid bs \<Longrightarrow> cut_ok bs i \<Longrightarrow> utf8_valid (take i bs) \<and> utf8_valid (drop i bs)"
proof (induction bs arbitrary: i rule: utf8_valid.induct)
  case (2 b bs)
  then obtain c n where n: "utf8_next (b # bs) = (Some c, n)" "utf8_valid (drop n (b # bs))"
    by (auto simp only: utf8_valid_Cons)
  have len: "1 \<le> n" "n \<le> length (b # bs)" using utf8_next_len [of "b # bs"] n(1) by simp_all
  show ?case
  proof (cases "i < n")
    case True
    then have "i = 0"
      using utf8_next_Some_bytes(2) [OF n(1), of i] "2.prems"(2) len by (cases i) (auto simp: cut_ok_def)
    with "2.prems" show ?thesis by simp
  next
    case False
    then have "cut_ok (drop n (b # bs)) (i - n)"
      using "2.prems"(2) len by (auto simp: cut_ok_def)
    then have IH: "utf8_valid (take (i - n) (drop n (b # bs)))" "utf8_valid (drop (i - n) (drop n (b # bs)))"
      using "2.IH" [OF n(1) [symmetric] refl n(2)] by simp_all
    have head: "utf8_valid (take n (b # bs))" using utf8_valid_prefix [OF n(1)] .
    have "take i (b # bs) = take n (b # bs) @ take (i - n) (drop n (b # bs))"
      using False by (metis le_add_diff_inverse not_less take_add)
    moreover have "drop i (b # bs) = drop (i - n) (drop n (b # bs))"
      using False by simp
    ultimately show ?thesis using IH head utf8_valid_append by simp
  qed
qed (simp add: cut_ok_def)

lemma codes_simps [simp]:
  "codes [] = []" "codes (c # s) = of_char c # codes s" "codes (s @ t) = codes s @ codes t"
  "length (codes s) = length s" "codes (take i s) = take i (codes s)" "codes (drop i s) = drop i (codes s)"
  by (simp_all add: codes_def take_map drop_map)

lemma boundary_cut_ok: "is_char_boundary s i = cut_ok (codes s) i"
  by (auto simp: is_char_boundary_def cut_ok_def codes_def)

lemma utf8_valid_ascii: "\<forall>b\<in>set bs. b < 128 \<Longrightarrow> utf8_valid bs"
  by (induction bs) (auto simp: seq_len_def)

lemma utf8_valid_ascii_Cons: "b < 128 \<Longrightarrow> utf8_valid (b # bs) = utf8_valid bs"
  by (simp add: seq_len_def)

subsection \<open>Encoding what was decoded\<close>

lemma div64: "z < 64 \<Longrightarrow> (y * 64 + z) div 64 = (y :: nat)" "z < 64 \<Longrightarrow> (y * 64 + z) mod 64 = z"
  by simp_all

lemma enc_two: "2 \<le> x \<Longrightarrow> x < 32 \<Longrightarrow> y < 64 \<Longrightarrow> utf8_enc (x * 64 + y) = [192 + x, 128 + y]"
  using div64 [of y x] by (simp add: utf8_enc_def)

lemma enc_three:
  assumes "x < 16" "y < 64" "z < 64" "0 < x \<or> 32 \<le> y"
  shows "utf8_enc (x * 4096 + y * 64 + z) = [224 + x, 128 + y, 128 + z]"
proof -
  define c where "c = x * 4096 + y * 64 + z"
  have c: "c = (x * 64 + y) * 64 + z" by (simp add: c_def)
  have "c div 64 = x * 64 + y" "c mod 64 = z" unfolding c using div64 [OF assms(3)] by blast+
  moreover have "c div 4096 = c div 64 div 64" by (simp flip: div_mult2_eq)
  moreover have "2048 \<le> c" "c < 65536" using assms unfolding c_def by auto
  ultimately show ?thesis using div64 [OF assms(2), of x] unfolding c_def [symmetric] by (simp add: utf8_enc_def)
qed

lemma enc_four:
  assumes "x < 5" "y < 64" "z < 64" "w < 64" "0 < x \<or> 16 \<le> y"
  shows "utf8_enc (x * 262144 + y * 4096 + z * 64 + w) = [240 + x, 128 + y, 128 + z, 128 + w]"
proof -
  define c where "c = x * 262144 + y * 4096 + z * 64 + w"
  have c: "c = ((x * 64 + y) * 64 + z) * 64 + w" by (simp add: c_def)
  have d: "c div 64 = (x * 64 + y) * 64 + z" "c mod 64 = w" unfolding c using div64 [OF assms(4)] by blast+
  moreover have "c div 4096 = c div 64 div 64" "c div 262144 = c div 64 div 64 div 64" by (simp_all flip: div_mult2_eq)
  moreover have "c div 64 div 64 = x * 64 + y" "c div 64 mod 64 = z" unfolding d using div64 [OF assms(3)] by blast+
  moreover have "65536 \<le> c" using assms unfolding c_def by auto
  ultimately show ?thesis using div64 [OF assms(2), of x] unfolding c_def [symmetric] by (simp add: utf8_enc_def)
qed

lemma second_ok_bounds:
  "second_ok b0 b1 \<Longrightarrow> 128 \<le> b1 \<and> b1 \<le> 191 \<and> (b0 = 224 \<longrightarrow> 160 \<le> b1) \<and> (b0 = 240 \<longrightarrow> 144 \<le> b1)"
  by (auto simp: second_ok_def contb_def split: if_splits)

lemma utf8_enc_next:
  assumes "utf8_next bs = (Some c, n)"
  shows "utf8_enc c = take n bs"
proof -
  obtain b0 bs0 where bs: "bs = b0 # bs0" using assms by (cases bs) auto
  consider "b0 < 128" | "194 \<le> b0" "b0 \<le> 223" "seq_len b0 = 2" | "224 \<le> b0" "b0 \<le> 239" "seq_len b0 = 3"
    | "240 \<le> b0" "b0 \<le> 244" "seq_len b0 = 4"
    using assms bs by (auto simp: seq_len_def split: if_splits)
  then show ?thesis
  proof cases
    case 1
    then show ?thesis using assms bs by (auto simp: seq_len_def utf8_enc_def)
  next
    case 2
    then obtain b1 r where r: "bs0 = b1 # r" "c = (b0 - 192) * 64 + (b1 - 128)" "n = 2" "second_ok b0 b1"
      using assms bs by (auto split: list.splits if_splits)
    have "2 \<le> b0 - 192" "b0 - 192 < 32" "b1 - 128 < 64" using 2 second_ok_bounds [OF r(4)] by auto
    from enc_two [OF this] show ?thesis using 2 bs second_ok_bounds [OF r(4)] r by simp
  next
    case 3
    then obtain b1 b2 r where r: "bs0 = b1 # b2 # r" "c = (b0 - 224) * 4096 + (b1 - 128) * 64 + (b2 - 128)" "n = 3"
      "second_ok b0 b1" "contb b2"
      using assms bs by (auto split: list.splits if_splits)
    have "0 < b0 - 224 \<or> 32 \<le> b1 - 128" "b1 - 128 < 64" "b2 - 128 < 64" "b0 - 224 < 16"
      using 3 second_ok_bounds [OF r(4)] r(5) by (auto simp: contb_def)
    from enc_three [OF this(4,2,3,1)] show ?thesis
      using 3 bs second_ok_bounds [OF r(4)] r by (simp add: contb_def numeral_3_eq_3)
  next
    case 4
    then obtain b1 b2 b3 r where r: "bs0 = b1 # b2 # b3 # r"
      "c = (b0 - 240) * 262144 + (b1 - 128) * 4096 + (b2 - 128) * 64 + (b3 - 128)" "n = 4"
      "second_ok b0 b1" "contb b2" "contb b3"
      using assms bs by (auto split: list.splits if_splits)
    have "0 < b0 - 240 \<or> 16 \<le> b1 - 128" "b1 - 128 < 64" "b2 - 128 < 64" "b3 - 128 < 64" "b0 - 240 < 5"
      using 4 second_ok_bounds [OF r(4)] r(5,6) by (auto simp: contb_def)
    from enc_four [OF this(5,2,3,4,1)] show ?thesis
      using 4 bs second_ok_bounds [OF r(4)] r by (simp add: contb_def take_Cons')
  qed
qed

lemma utf8_scan_enc: "utf8_valid bs \<Longrightarrow> concat (map (\<lambda>(i, c). utf8_enc (case c of Some c \<Rightarrow> c | None \<Rightarrow> 65533)) (utf8_scan i bs)) = bs"
proof (induction bs arbitrary: i rule: utf8_valid.induct)
  case (2 b bs)
  then obtain c n where n: "utf8_next (b # bs) = (Some c, n)" "utf8_valid (drop n (b # bs))" by (auto simp only: utf8_valid_Cons)
  have "concat (map (\<lambda>(i, c). utf8_enc (case c of Some c \<Rightarrow> c | None \<Rightarrow> 65533)) (utf8_scan (i + n) (drop n (b # bs)))) = drop n (b # bs)"
    by (rule "2.IH" [OF n(1) [symmetric] refl n(2)])
  then show ?case using utf8_enc_next [OF n(1)] by (simp only: utf8_scan.simps n(1) Let_def prod.case) (simp del: take_Cons_numeral drop_Cons_numeral)
qed simp

lemma from_utf8_lossy_valid: "utf8_valid (codes s) \<Longrightarrow> from_utf8_lossy s = s"
  using utf8_scan_enc [of "codes s" 0]
  by (simp add: from_utf8_lossy_def of_chars_def comp_def case_prod_beta' of_codes_def) (simp add: codes_def comp_def)

subsection \<open>ASCII text\<close>

lemma utf8_scan_ascii: "\<forall>b\<in>set bs. b < 128 \<Longrightarrow> map snd (utf8_scan i bs) = map Some bs"
  by (induction bs arbitrary: i) (auto simp: seq_len_def)

lemma map_snd_map_filter: "map snd (List.map_filter (\<lambda>(i, c). map_option (Pair i) c) xs) = List.map_filter id (map snd xs)"
  by (induction xs) (auto simp: List.map_filter_def)

lemma chars_ascii: "is_ascii s \<Longrightarrow> chars s = codes s"
proof -
  assume "is_ascii s"
  then have "map snd (utf8_scan 0 (codes s)) = map Some (codes s)"
    by (intro utf8_scan_ascii) (auto simp: codes_def is_ascii_def list_all_iff)
  then show ?thesis
    by (simp add: chars_def char_indices_def map_snd_map_filter) (simp add: List.map_filter_def comp_def)
qed

lemma of_chars_ascii: "\<forall>c\<in>set cs. c < 128 \<Longrightarrow> of_chars cs = map char_of cs"
  by (induction cs) (auto simp: of_chars_def of_codes_def utf8_enc_def)

lemma from_utf8_ascii: "is_ascii s \<Longrightarrow> from_utf8 s = Some s"
  unfolding from_utf8_def using utf8_valid_ascii [of "codes s"] by (auto simp: codes_def is_ascii_def list_all_iff)

lemma is_ascii_append [simp]: "is_ascii (s @ t) = (is_ascii s \<and> is_ascii t)"
  by (simp add: is_ascii_def)

lemma is_ascii_Cons [simp]: "is_ascii (c # s) = ((of_char c :: nat) < 128 \<and> is_ascii s)"
  by (simp add: is_ascii_def)

lemma is_ascii_Nil [simp]: "is_ascii []"
  by (simp add: is_ascii_def)

lemma dropWhile_id: "xs = [] \<or> \<not> P (hd xs) \<Longrightarrow> dropWhile P xs = xs"
  by (cases xs) auto

lemma trim_id:
  assumes "is_ascii s" and "s = [] \<or> \<not> is_whitespace (of_char (hd s)) \<and> \<not> is_whitespace (of_char (last s))"
  shows "trim s = s"
proof -
  have "dropWhile is_whitespace (codes s) = codes s" "dropWhile is_whitespace (rev (codes s)) = rev (codes s)"
    using assms(2) by (auto intro!: dropWhile_id simp: codes_def hd_map last_map hd_rev)
  moreover have "of_chars (codes s) = s"
    using assms(1) by (subst of_chars_ascii) (auto simp: codes_def is_ascii_def list_all_iff comp_def)
  ultimately show ?thesis
    by (simp add: trim_def chars_ascii [OF assms(1)] trim_matches_def)
qed

lemma digit_not_whitespace: "ascii_digitp c \<Longrightarrow> \<not> is_whitespace (of_char c)"
  by (auto simp: ascii_digitp_def is_whitespace_def)

lemma is_ascii_dec [simp]: "is_ascii (dec_digits n)"
  using dec_digits_digits [of _ n] by (fastforce simp: is_ascii_def list_all_iff ascii_digitp_def)

lemma trim_dec [simp]: "trim (dec_digits n) = dec_digits n"
  by (rule trim_id) (auto intro!: digit_not_whitespace dec_digits_digits [of _ n])

end
