(* ===== verification/Policy.thy ===== *)
theory Policy
  imports Json Utf8
begin

text \<open>
  The policy engine: \<open>policy/rule.rs\<close> (actions, conditions, rules),
  \<open>policy/engine.rs\<close> (the rule list and its operations, hot reload) and
  \<open>policy/builtin.rs\<close> (the built-in rule set). The \<open>RwLock\<close> makes every
  operation atomic, so an engine is its rule list and an operation a function
  on it.
\<close>

subsection \<open>Rules (\<open>policy/rule.rs\<close>)\<close>

datatype action =
    Allow
  | Block str
  | Redact
  | RouteLocal
  | Quarantine str
  | RequireDetector
  | AuditAndContinue "str list"

datatype condition =
    AnyOf "str list"
  | AllOf "str list"
  | RiskScoreGte f64
  | RiskScoreLt f64
  | SeverityIs str
  | ModelPrefix str
  | OrgId str
  | Metadata str str
  | And "condition list"
  | Or "condition list"
  | Not condition
  | Always

record eval_context =
  pii_types :: "str list"
  risk_score :: f64
  severity :: str
  model :: str
  org_id :: str
  metadata :: "(str \<times> str) list"

fun evaluate_cond :: "unicode \<Rightarrow> condition \<Rightarrow> eval_context \<Rightarrow> bool" where
  "evaluate_cond u (AnyOf ts) ctx = list_ex (\<lambda>t. t \<in> set (pii_types ctx)) ts"
| "evaluate_cond u (AllOf ts) ctx = list_all (\<lambda>t. t \<in> set (pii_types ctx)) ts"
| "evaluate_cond u (RiskScoreGte th) ctx = fge (risk_score ctx) th"
| "evaluate_cond u (RiskScoreLt th) ctx = flt (risk_score ctx) th"
| "evaluate_cond u (SeverityIs s) ctx = (severity ctx = s)"
| "evaluate_cond u (ModelPrefix p) ctx = starts_with (lowercase u (model ctx)) (lowercase u p)"
| "evaluate_cond u (OrgId i) ctx = (org_id ctx = i)"
| "evaluate_cond u (Metadata k v) ctx =
     (case map_of (metadata ctx) k of Some w \<Rightarrow> w = v | None \<Rightarrow> False)"
| "evaluate_cond u (And cs) ctx = list_all (\<lambda>c. evaluate_cond u c ctx) cs"
| "evaluate_cond u (Or cs) ctx = list_ex (\<lambda>c. evaluate_cond u c ctx) cs"
| "evaluate_cond u (Not c) ctx = (\<not> evaluate_cond u c ctx)"
| "evaluate_cond u Always ctx = True"

record policy_rule =
  rule_name :: str
  priority :: int
  enabled :: bool
  rule_condition :: condition
  rule_action :: action

definition new_rule :: "str \<Rightarrow> int \<Rightarrow> condition \<Rightarrow> action \<Rightarrow> policy_rule" where
  "new_rule n p c a =
     \<lparr>rule_name = n, priority = p, enabled = True, rule_condition = c, rule_action = a\<rparr>"

definition with_enabled :: "policy_rule \<Rightarrow> bool \<Rightarrow> policy_rule" where
  "with_enabled r e = r\<lparr>enabled := e\<rparr>"

record policy_result =
  result_action :: action
  result_rule :: str

lemmas rule_simps [simp] = new_rule_def with_enabled_def

subsection \<open>The engine (\<open>policy/engine.rs\<close>)\<close>

record policy_engine =
  rules :: "policy_rule list"

definition new_engine :: policy_engine where
  "new_engine = \<lparr>rules = []\<rparr>"

fun evaluate_rules :: "unicode \<Rightarrow> policy_rule list \<Rightarrow> eval_context \<Rightarrow> policy_result" where
  "evaluate_rules u [] ctx = \<lparr>result_action = Allow, result_rule = ''<default-allow>''\<rparr>"
| "evaluate_rules u (r # rs) ctx =
     (if \<not> enabled r then evaluate_rules u rs ctx
      else if evaluate_cond u (rule_condition r) ctx
      then \<lparr>result_action = rule_action r, result_rule = rule_name r\<rparr>
      else evaluate_rules u rs ctx)"

definition evaluate :: "unicode \<Rightarrow> policy_engine \<Rightarrow> eval_context \<Rightarrow> policy_result" where
  "evaluate u eng ctx = evaluate_rules u (rules eng) ctx"

definition upsert_rule :: "policy_engine \<Rightarrow> policy_rule \<Rightarrow> policy_engine" where
  "upsert_rule eng r =
     (let rs = (case position (\<lambda>q. rule_name q = rule_name r) (rules eng) of
                  Some pos \<Rightarrow> (rules eng)[pos := r]
                | None \<Rightarrow> rules eng @ [r])
      in eng\<lparr>rules := sort_key priority rs\<rparr>)"

definition remove_rule :: "policy_engine \<Rightarrow> str \<Rightarrow> policy_engine \<times> bool" where
  "remove_rule eng n =
     (let rs = filter (\<lambda>r. rule_name r \<noteq> n) (rules eng)
      in (eng\<lparr>rules := rs\<rparr>, length rs < length (rules eng)))"

definition set_enabled :: "policy_engine \<Rightarrow> str \<Rightarrow> bool \<Rightarrow> policy_engine \<times> bool" where
  "set_enabled eng n e =
     (case position (\<lambda>r. rule_name r = n) (rules eng) of
        Some i \<Rightarrow> (eng\<lparr>rules := (rules eng)[i := (rules eng ! i)\<lparr>enabled := e\<rparr>]\<rparr>, True)
      | None \<Rightarrow> (eng, False))"

definition list_rules :: "policy_engine \<Rightarrow> (str \<times> int \<times> bool) list" where
  "list_rules eng = map (\<lambda>r. (rule_name r, priority r, enabled r)) (rules eng)"

subsection \<open>The built-in rules (\<open>policy/builtin.rs\<close>)\<close>

definition builtin_rules :: "policy_rule list" where
  "builtin_rules = [
     new_rule ''builtin-block-jailbreak'' 10
       (AnyOf [''JAILBREAK'']) (Block ''Jailbreak attempt detected''),
     new_rule ''builtin-block-secrets'' 20
       (And [AnyOf [''OPENAI_KEY'', ''ANTHROPIC_KEY'', ''AWS_KEY'', ''GITHUB_TOKEN'',
                    ''STRIPE_KEY'', ''PRIVATE_KEY'', ''SENDGRID_KEY'', ''HUGGINGFACE_KEY'',
                    ''GITLAB_TOKEN''],
             SeverityIs ''critical''])
       (Block ''Critical secret detected in request''),
     new_rule ''builtin-block-high-pii'' 30
       (And [AnyOf [''SSN'', ''CREDIT_CARD''], RiskScoreGte (Fin 80)])
       (Block ''High-risk PII (SSN/credit card) detected''),
     new_rule ''builtin-redact-medium-pii'' 40
       (And [AnyOf [''EMAIL'', ''PHONE'', ''SSN'', ''CREDIT_CARD''],
             RiskScoreGte (Fin 35), RiskScoreLt (Fin 80)])
       Redact,
     new_rule ''builtin-quarantine-ner-review'' 45
       (AnyOf [''NER_REVIEW'']) (Quarantine ''Named-entity content held for manual review''),
     new_rule ''builtin-route-local-pii'' 50
       (And [Or [AnyOf [''EMAIL'', ''PHONE'', ''SSN'', ''CREDIT_CARD''], RiskScoreGte (Fin 25)],
             RiskScoreLt (Fin 35)])
       RouteLocal,
     new_rule ''builtin-block-high-risk'' 90
       (RiskScoreGte (Fin 80)) (Block ''High-risk content blocked (fail-secure)''),
     new_rule ''builtin-redact-high-risk'' 95 (RiskScoreGte (Fin 60)) Redact,
     new_rule ''builtin-default-allow'' 100 Always Allow]"

definition load_builtin_rules :: "policy_engine \<Rightarrow> policy_engine" where
  "load_builtin_rules eng = foldl upsert_rule eng builtin_rules"

subsection \<open>Hot reload from JSON\<close>

record wire_rule =
  w_name :: str
  w_action :: str
  w_priority :: int
  w_enabled :: bool
  w_condition :: json

text \<open>
  The derived \<open>Deserialize\<close> of the local struct \<open>WireRule\<close>: an object with
  the five fields, \<open>enabled\<close> defaulting to true when absent, or an array of
  the five values in declaration order. Anything else is an error.
\<close>

definition wire_fields ::
  "json option \<Rightarrow> json option \<Rightarrow> json option \<Rightarrow> json option \<Rightarrow> json option \<Rightarrow> wire_rule option" where
  "wire_fields n a p e c =
     Option.bind (Option.bind n as_str) (\<lambda>n.
     Option.bind (Option.bind a as_str) (\<lambda>a.
     Option.bind (Option.bind p as_i32) (\<lambda>p.
     Option.bind (case e of None \<Rightarrow> Some True | Some v \<Rightarrow> as_bool v) (\<lambda>e.
     Option.bind c (\<lambda>c.
       Some \<lparr>w_name = n, w_action = a, w_priority = p, w_enabled = e, w_condition = c\<rparr>)))))"

fun wire_of_value :: "json \<Rightarrow> wire_rule option" where
  "wire_of_value (JObj ms) =
     wire_fields (map_of ms ''name'') (map_of ms ''action'') (map_of ms ''priority'')
       (map_of ms ''enabled'') (map_of ms ''condition'')"
| "wire_of_value (JArr [n, a, p, e, c]) =
     wire_fields (Some n) (Some a) (Some p) (Some e) (Some c)"
| "wire_of_value _ = None"

definition wire_action :: "wire_rule \<Rightarrow> action" where
  "wire_action w =
     (if w_action w = ''block'' then Block (w_name w)
      else if w_action w = ''redact'' then Redact
      else if w_action w = ''route_local'' then RouteLocal
      else if w_action w = ''quarantine'' then Quarantine (w_name w)
      else Allow)"

definition parse_condition_from_json :: "json \<Rightarrow> condition" where
  "parse_condition_from_json v =
     (if Option.bind (jget v ''always'') as_bool = Some True then Always
      else case Option.bind (jget v ''risk_score_gte'') as_f64 of
        Some th \<Rightarrow> RiskScoreGte th
      | None \<Rightarrow>
          (case Option.bind (jget v ''pii_types'') as_array of
             Some types_arr \<Rightarrow>
               (let pii = List.map_filter as_str types_arr
                in if pii \<noteq> [] then AnyOf pii else Always)
           | None \<Rightarrow> Always))"

definition rule_of_wire :: "wire_rule \<Rightarrow> policy_rule" where
  "rule_of_wire w =
     with_enabled (new_rule (w_name w) (w_priority w)
       (parse_condition_from_json (w_condition w)) (wire_action w)) (w_enabled w)"

definition reload_from_json :: "(str \<Rightarrow> json option) \<Rightarrow> policy_engine \<Rightarrow> str \<Rightarrow> policy_engine" where
  "reload_from_json from_str eng txt =
     (case from_str txt of
        None \<Rightarrow> eng
      | Some v \<Rightarrow>
          (case as_array (case jget v ''rules'' of Some r \<Rightarrow> r | None \<Rightarrow> v) of
             None \<Rightarrow> eng
           | Some arr \<Rightarrow>
               eng\<lparr>rules := sort_key priority (map rule_of_wire (List.map_filter wire_of_value arr))\<rparr>))"

subsection \<open>First match in priority order\<close>

text \<open>The abstract engine: among the enabled rules that match, one of least priority value.\<close>

definition fires :: "unicode \<Rightarrow> eval_context \<Rightarrow> policy_rule \<Rightarrow> bool" where
  "fires u ctx r = (enabled r \<and> evaluate_cond u (rule_condition r) ctx)"

definition result_of :: "policy_rule \<Rightarrow> policy_result" where
  "result_of r = \<lparr>result_action = rule_action r, result_rule = rule_name r\<rparr>"

definition best_match :: "unicode \<Rightarrow> policy_rule list \<Rightarrow> eval_context \<Rightarrow> policy_result" where
  "best_match u rs ctx =
     (case filter (fires u ctx) rs of
        [] \<Rightarrow> \<lparr>result_action = Allow, result_rule = ''<default-allow>''\<rparr>
      | q # qs \<Rightarrow> result_of (arg_min_list priority (q # qs)))"

lemma evaluate_rules_filter:
  "evaluate_rules u rs ctx =
     (case filter (fires u ctx) rs of
        [] \<Rightarrow> \<lparr>result_action = Allow, result_rule = ''<default-allow>''\<rparr>
      | q # qs \<Rightarrow> result_of q)"
  by (induction rs) (auto simp: fires_def result_of_def)

lemma arg_min_list_sorted: "sorted (map f (x # xs)) \<Longrightarrow> arg_min_list f (x # xs) = x"
proof (induction xs arbitrary: x)
  case (Cons y ys)
  then have "arg_min_list f (y # ys) = y" by simp
  with Cons.prems show ?case by (simp add: Let_def)
qed simp

lemma evaluate_rules_best_match:
  assumes "sorted (map priority rs)"
  shows "evaluate_rules u rs ctx = best_match u rs ctx"
proof (cases "filter (fires u ctx) rs")
  case (Cons q qs)
  have "sorted (map priority (q # qs))"
    using sorted_filter [OF assms, of "fires u ctx"] Cons by simp
  then show ?thesis
    by (simp only: evaluate_rules_filter best_match_def Cons list.case arg_min_list_sorted)
qed (simp add: evaluate_rules_filter best_match_def)

subsection \<open>Operation sequences\<close>

datatype policy_op =
    Upsert policy_rule
  | Remove str
  | SetEnabled str bool
  | LoadBuiltin
  | Reload str

fun policy_step :: "(str \<Rightarrow> json option) \<Rightarrow> policy_engine \<Rightarrow> policy_op \<Rightarrow> policy_engine" where
  "policy_step from_str eng (Upsert r) = upsert_rule eng r"
| "policy_step from_str eng (Remove n) = fst (remove_rule eng n)"
| "policy_step from_str eng (SetEnabled n e) = fst (set_enabled eng n e)"
| "policy_step from_str eng LoadBuiltin = load_builtin_rules eng"
| "policy_step from_str eng (Reload txt) = reload_from_json from_str eng txt"

definition engine_sorted :: "policy_engine \<Rightarrow> bool" where
  "engine_sorted eng = sorted (map priority (rules eng))"

definition names_distinct :: "policy_engine \<Rightarrow> bool" where
  "names_distinct eng = distinct (map rule_name (rules eng))"

lemma upsert_rule_sorted [inv_intros]: "engine_sorted (upsert_rule eng r)"
  by (simp add: engine_sorted_def upsert_rule_def Let_def)

lemma remove_rule_sorted [inv_intros]: "engine_sorted eng \<Longrightarrow> engine_sorted (fst (remove_rule eng n))"
  by (simp add: engine_sorted_def remove_rule_def Let_def sorted_filter)

lemma map_update_same: "i < length xs \<Longrightarrow> f y = f (xs ! i) \<Longrightarrow> map f (xs[i := y]) = map f xs"
  by (metis length_map list_update_id map_update nth_map)

lemma set_enabled_keeps:
  assumes "\<And>r. f (r\<lparr>enabled := e\<rparr>) = f r"
  shows "map f (rules (fst (set_enabled eng n e))) = map f (rules eng)"
proof (cases "position (\<lambda>r. rule_name r = n) (rules eng)")
  case (Some i)
  with position_SomeD [OF Some] assms show ?thesis
    by (simp add: set_enabled_def map_update_same)
qed (simp add: set_enabled_def)

lemma set_enabled_sorted [inv_intros]:
  "engine_sorted eng \<Longrightarrow> engine_sorted (fst (set_enabled eng n e))"
  by (simp add: engine_sorted_def set_enabled_keeps)

lemma load_builtin_sorted [inv_intros]: "engine_sorted eng \<Longrightarrow> engine_sorted (load_builtin_rules eng)"
proof -
  have "engine_sorted eng \<Longrightarrow> engine_sorted (foldl upsert_rule eng rs)" for rs
    by (induction rs arbitrary: eng) (auto intro: upsert_rule_sorted)
  then show "engine_sorted eng \<Longrightarrow> engine_sorted (load_builtin_rules eng)"
    by (simp add: load_builtin_rules_def)
qed

lemma reload_sorted [inv_intros]: "engine_sorted eng \<Longrightarrow> engine_sorted (reload_from_json from_str eng txt)"
  by (simp add: reload_from_json_def engine_sorted_def split: option.splits)

interpretation policy: invariant_machine new_engine "policy_step from_str" engine_sorted
  for from_str
proof
  show "engine_sorted new_engine" by (simp add: engine_sorted_def new_engine_def)
  show "engine_sorted (policy_step from_str s a)" if "engine_sorted s" for s a
    using that by (cases a) (auto intro: inv_intros)
qed

text \<open>
  C2: for every sequence of rule operations, hot reloads with any text
  included, a request is answered with the action of an enabled matching rule of
  least priority value, and with the default allow exactly when none matches.
\<close>

theorem evaluate_best_match:
  "evaluate u (foldl (policy_step from_str) new_engine ops) ctx =
   best_match u (rules (foldl (policy_step from_str) new_engine ops)) ctx"
  unfolding evaluate_def
  by (rule evaluate_rules_best_match) (rule policy.run_inv [unfolded engine_sorted_def])

subsection \<open>Administration without hot reload keeps names unique\<close>

datatype admin_op = AUpsert policy_rule | ARemove str | ASetEnabled str bool | ALoadBuiltin

fun policy_op_of :: "admin_op \<Rightarrow> policy_op" where
  "policy_op_of (AUpsert r) = Upsert r"
| "policy_op_of (ARemove n) = Remove n"
| "policy_op_of (ASetEnabled n e) = SetEnabled n e"
| "policy_op_of ALoadBuiltin = LoadBuiltin"

definition upsert_list :: "policy_rule list \<Rightarrow> policy_rule \<Rightarrow> policy_rule list" where
  "upsert_list rs r = (case position (\<lambda>q. rule_name q = rule_name r) rs of
                         Some pos \<Rightarrow> rs[pos := r] | None \<Rightarrow> rs @ [r])"

lemma upsert_rule_list: "rules (upsert_rule eng r) = sort_key priority (upsert_list (rules eng) r)"
  by (simp add: upsert_rule_def upsert_list_def Let_def)

lemma upsert_list_split:
  obtains (replace) us q vs where "rs = us @ q # vs" "rule_name q = rule_name r"
      "upsert_list rs r = us @ r # vs"
  | (append) "rule_name r \<notin> rule_name ` set rs" "upsert_list rs r = rs @ [r]"
proof (cases "position (\<lambda>q. rule_name q = rule_name r) rs")
  case None
  then have "upsert_list rs r = rs @ [r]" by (simp add: upsert_list_def)
  with None show ?thesis by (intro append) (auto simp: position_None_iff)
next
  case (Some i)
  note i = position_SomeD [OF Some]
  show ?thesis
  proof (rule replace [of "take i rs" "rs ! i" "drop (Suc i) rs"])
    show "rs = take i rs @ rs ! i # drop (Suc i) rs" using i by (simp add: id_take_nth_drop [symmetric])
    show "upsert_list rs r = take i rs @ r # drop (Suc i) rs"
      using i Some by (simp add: upsert_list_def upd_conv_take_nth_drop)
  qed (use i in simp)
qed

lemma upsert_list_distinct:
  "distinct (map rule_name rs) \<Longrightarrow> distinct (map rule_name (upsert_list rs r))"
  by (cases rs r rule: upsert_list_split) auto

lemma upsert_list_set:
  assumes "distinct (map rule_name rs)"
  shows "set (upsert_list rs r) = insert r {q \<in> set rs. rule_name q \<noteq> rule_name r}"
proof (cases rs r rule: upsert_list_split)
  case (replace us q vs)
  with assms have "rule_name r \<notin> rule_name ` (set us \<union> set vs)" by auto
  then have "{p \<in> set us \<union> set vs. rule_name p \<noteq> rule_name r} = set us \<union> set vs"
    by (blast intro: sym)
  with replace show ?thesis by (auto simp: Un_def)
next
  case append
  then show ?thesis by (auto simp: image_iff dest: sym)
qed

lemma upsert_rule_distinct [inv_intros]: "names_distinct eng \<Longrightarrow> names_distinct (upsert_rule eng r)"
  by (simp add: names_distinct_def upsert_rule_list upsert_list_distinct)

lemma remove_rule_distinct [inv_intros]: "names_distinct eng \<Longrightarrow> names_distinct (fst (remove_rule eng n))"
  by (simp add: names_distinct_def remove_rule_def Let_def distinct_map_filter)

lemma set_enabled_distinct [inv_intros]:
  "names_distinct eng \<Longrightarrow> names_distinct (fst (set_enabled eng n e))"
  by (simp add: names_distinct_def set_enabled_keeps)

lemma foldl_upsert_distinct: "names_distinct eng \<Longrightarrow> names_distinct (foldl upsert_rule eng rs)"
  by (induction rs arbitrary: eng) (auto intro: upsert_rule_distinct)

lemma load_builtin_distinct [inv_intros]: "names_distinct eng \<Longrightarrow> names_distinct (load_builtin_rules eng)"
  by (simp add: load_builtin_rules_def foldl_upsert_distinct)

interpretation admin: invariant_machine new_engine
  "\<lambda>eng a. policy_step from_str eng (policy_op_of a)"
  "\<lambda>eng. engine_sorted eng \<and> names_distinct eng"
  for from_str
proof
  show "engine_sorted new_engine \<and> names_distinct new_engine"
    by (simp add: engine_sorted_def names_distinct_def new_engine_def)
  show "engine_sorted (policy_step from_str s (policy_op_of a)) \<and>
        names_distinct (policy_step from_str s (policy_op_of a))"
    if "engine_sorted s \<and> names_distinct s" for s a
    using that
    by (cases a) (auto intro: inv_intros)
qed

text \<open>
  Along every sequence of administrative operations rule names stay unique
  and the list stays in priority order; upserting a rule then leaves exactly that
  rule under its name and every other rule untouched, and removing a name leaves
  exactly the rules of other names.
\<close>

lemma admin_rule_set:
  assumes "eng = foldl (\<lambda>e a. policy_step from_str e (policy_op_of a)) new_engine ops"
  shows "engine_sorted eng \<and> names_distinct eng
    \<and> set (rules (upsert_rule eng r)) = insert r {q \<in> set (rules eng). rule_name q \<noteq> rule_name r}
    \<and> set (rules (fst (remove_rule eng n))) = {q \<in> set (rules eng). rule_name q \<noteq> n}
    \<and> (snd (remove_rule eng n) \<longleftrightarrow> n \<in> rule_name ` set (rules eng))"
proof (intro conjI)
  have inv: "engine_sorted eng \<and> names_distinct eng"
    unfolding assms by (rule admin.run_inv)
  then show "engine_sorted eng" and "names_distinct eng" by simp_all
  show "set (rules (upsert_rule eng r)) = insert r {q \<in> set (rules eng). rule_name q \<noteq> rule_name r}"
    using inv by (simp add: upsert_rule_list upsert_list_set names_distinct_def)
  show "set (rules (fst (remove_rule eng n))) = {q \<in> set (rules eng). rule_name q \<noteq> n}"
    by (auto simp: remove_rule_def Let_def)
  have "length (filter P xs) < length xs \<longleftrightarrow> (\<exists>x\<in>set xs. \<not> P x)" for P and xs :: "policy_rule list"
    by (metis filter_True length_filter_le length_filter_less nat_less_le)
  then show "snd (remove_rule eng n) \<longleftrightarrow> n \<in> rule_name ` set (rules eng)"
    by (auto simp: remove_rule_def Let_def image_iff)
qed

subsection \<open>The built-in rule set\<close>

lemma foldl_upsert_append:
  assumes "distinct (map rule_name (rs @ ss))" and "sorted (map priority (rs @ ss))"
  shows "rules (foldl upsert_rule \<lparr>rules = rs\<rparr> ss) = rs @ ss"
  using assms
proof (induction ss arbitrary: rs)
  case (Cons s ss)
  from Cons.prems have "position (\<lambda>q. rule_name q = rule_name s) rs = None"
    by (auto simp: position_None_iff image_iff)
  moreover from Cons.prems have "sorted (map priority (rs @ [s]))"
    by (simp add: sorted_append)
  ultimately have "upsert_rule \<lparr>rules = rs\<rparr> s = \<lparr>rules = rs @ [s]\<rparr>"
    by (simp add: upsert_rule_def Let_def sort_key_sorted_id del: map_append sort_key_simps)
  then show ?case using Cons.IH [of "rs @ [s]"] Cons.prems by simp
qed simp

lemma load_builtin_new: "rules (load_builtin_rules new_engine) = builtin_rules"
  using foldl_upsert_append [of "[]" builtin_rules]
  by (simp add: load_builtin_rules_def new_engine_def builtin_rules_def)

definition secret_types :: "str list" where
  "secret_types = [''OPENAI_KEY'', ''ANTHROPIC_KEY'', ''AWS_KEY'', ''GITHUB_TOKEN'', ''STRIPE_KEY'',
     ''PRIVATE_KEY'', ''SENDGRID_KEY'', ''HUGGINGFACE_KEY'', ''GITLAB_TOKEN'']"

definition contact_types :: "str list" where
  "contact_types = [''EMAIL'', ''PHONE'', ''SSN'', ''CREDIT_CARD'']"

abbreviation has_any :: "eval_context \<Rightarrow> str list \<Rightarrow> bool" where
  "has_any ctx ts \<equiv> list_ex (\<lambda>t. t \<in> set (pii_types ctx)) ts"

lemma evaluate_rules_new_rule:
  "result_action (evaluate_rules u (new_rule n p c a # rs) ctx) =
     (if evaluate_cond u c ctx then a else result_action (evaluate_rules u rs ctx))"
  by simp

lemma evaluate_connectives:
  "evaluate_cond u (And [c, d]) ctx = (evaluate_cond u c ctx \<and> evaluate_cond u d ctx)"
  "evaluate_cond u (And [c, d, e]) ctx = (evaluate_cond u c ctx \<and> evaluate_cond u d ctx \<and> evaluate_cond u e ctx)"
  "evaluate_cond u (Or [c, d]) ctx = (evaluate_cond u c ctx \<or> evaluate_cond u d ctx)"
  by simp_all

lemma builtin_eval:
  "result_action (evaluate u (load_builtin_rules new_engine) ctx) =
     (let r = risk_score ctx in
      if has_any ctx [''JAILBREAK''] then Block ''Jailbreak attempt detected''
      else if has_any ctx secret_types \<and> severity ctx = ''critical''
        then Block ''Critical secret detected in request''
      else if has_any ctx [''SSN'', ''CREDIT_CARD''] \<and> fge r (Fin 80)
        then Block ''High-risk PII (SSN/credit card) detected''
      else if has_any ctx contact_types \<and> fge r (Fin 35) \<and> flt r (Fin 80) then Redact
      else if has_any ctx [''NER_REVIEW'']
        then Quarantine ''Named-entity content held for manual review''
      else if (has_any ctx contact_types \<or> fge r (Fin 25)) \<and> flt r (Fin 35) then RouteLocal
      else if fge r (Fin 80) then Block ''High-risk content blocked (fail-secure)''
      else if fge r (Fin 60) then Redact
      else Allow)"
  unfolding evaluate_def load_builtin_new builtin_rules_def secret_types_def contact_types_def
  by (simp only: evaluate_rules_new_rule evaluate_connectives
      evaluate_cond.simps(1,3,4,5,12) Let_def if_True)

text \<open>
  The built-in policy forwards a request unchanged exactly when it has no
  jailbreak or review finding, no secret of critical severity, and its risk is
  either not a number or, without contact data, below 25 or in the band from 35
  to 60. In particular every score of at least 60 is stopped or redacted, while
  the band from 35 to 60 is allowed although the lower band from 25 to 35 is kept local.
\<close>

lemma builtin_allow_iff:
  "result_action (evaluate u (load_builtin_rules new_engine) ctx) = Allow \<longleftrightarrow>
     ''JAILBREAK'' \<notin> set (pii_types ctx) \<and> ''NER_REVIEW'' \<notin> set (pii_types ctx)
     \<and> (severity ctx = ''critical'' \<and> has_any ctx secret_types) = False
     \<and> (risk_score ctx = NaN
         \<or> (has_any ctx contact_types = False
            \<and> (flt (risk_score ctx) (Fin 25)
               \<or> fge (risk_score ctx) (Fin 35) \<and> flt (risk_score ctx) (Fin 60))))"
proof -
  have hp: "has_any ctx [''SSN'', ''CREDIT_CARD''] \<Longrightarrow> has_any ctx contact_types"
    by (auto simp: contact_types_def)
  show ?thesis
    unfolding builtin_eval Let_def
    by (cases "risk_score ctx"; use hp in \<open>auto simp: flt_def feq_def\<close>)
qed

text \<open>
  C1: fail-secure blocking. With the built-in rules a score of at least 80 is
  never forwarded, not even redacted or to the local model: it is blocked or held.
  A score in the band from 60 to 80 is blocked, held or redacted.
\<close>

theorem builtin_fail_secure:
  assumes "fge (risk_score ctx) (Fin 60)"
  shows "\<exists>reason. result_action (evaluate u (load_builtin_rules new_engine) ctx)
           \<in> (if fge (risk_score ctx) (Fin 80) then {Block reason, Quarantine reason}
              else {Block reason, Quarantine reason, Redact})"
  using assms unfolding builtin_eval Let_def
  by (cases "risk_score ctx"; auto simp: flt_def feq_def)

theorem builtin_fail_secure_witness:
  "\<exists>reason. result_action (evaluate plain_unicode (load_builtin_rules new_engine)
      \<lparr>pii_types = [''ENCODED_SECRET''], risk_score = Fin 90, severity = ''critical'', model = ''gpt-4'',
       org_id = ''o'', metadata = []\<rparr>) \<in> {Block reason, Quarantine reason}"
  using builtin_fail_secure [of "\<lparr>pii_types = [''ENCODED_SECRET''], risk_score = Fin 90, severity = ''critical'',
     model = ''gpt-4'', org_id = ''o'', metadata = []\<rparr>" plain_unicode] by simp

end
