(* ===== verification/Redaction.thy ===== *)
theory Redaction
  imports Utf8
begin

text \<open>
  Span redaction (\<open>detect/redact.rs\<close>). A panic of the source (a splice or a
  slice out of range) is the result \<open>None\<close>.
\<close>

record redact_span =
  sp_start :: nat
  sp_end :: nat
  sp_type :: str

fun merge_from :: "redact_span \<Rightarrow> redact_span list \<Rightarrow> redact_span list" where
  "merge_from lst [] = [lst]"
| "merge_from lst (sp # spans) =
     (if sp_start sp \<le> sp_end lst
      then merge_from (if sp_end sp > sp_end lst then lst\<lparr>sp_end := sp_end sp\<rparr> else lst) spans
      else lst # merge_from sp spans)"

fun merge_overlapping :: "redact_span list \<Rightarrow> redact_span list" where
  "merge_overlapping [] = []"
| "merge_overlapping (s # ss) = merge_from s ss"

definition placeholder :: "str \<Rightarrow> str" where
  "placeholder ty = ''[REDACTED:'' @ ty @ '']''"

text \<open>\<open>Vec::splice(a..b, ys)\<close>, which panics unless \<open>a \<le> b \<le> len\<close>.\<close>

definition vec_splice :: "nat \<Rightarrow> nat \<Rightarrow> 'a list \<Rightarrow> 'a list \<Rightarrow> 'a list option" where
  "vec_splice a b ys xs = (if a \<le> b \<and> b \<le> length xs then Some (take a xs @ ys @ drop b xs) else None)"

definition apply_span :: "redact_span \<Rightarrow> str option \<Rightarrow> str option" where
  "apply_span s acc = Option.bind acc (vec_splice (sp_start s) (sp_end s) (placeholder (sp_type s)))"

definition redact_bytes :: "str \<Rightarrow> redact_span list \<Rightarrow> str option" where
  "redact_bytes txt spans = foldr apply_span (merge_overlapping (sort_key sp_start spans)) (Some txt)"

definition redact :: "str \<Rightarrow> redact_span list \<Rightarrow> str option" where
  "redact txt spans =
     (if spans = [] then Some txt
      else case redact_bytes txt spans of
        None \<Rightarrow> None
      | Some bytes \<Rightarrow>
          (case from_utf8 bytes of Some s \<Rightarrow> Some s | None \<Rightarrow> Some (from_utf8_lossy txt)))"

definition redact_partial_cc :: "str \<Rightarrow> redact_span \<Rightarrow> str option" where
  "redact_partial_cc txt sp =
     (if sp_start sp \<le> sp_end sp \<and> is_char_boundary txt (sp_start sp) \<and> is_char_boundary txt (sp_end sp)
      then let digits = filter ascii_digitp (sub_slice (sp_start sp) (sp_end sp) txt)
           in Some (if 4 \<le> length digits
                    then ''[REDACTED:CREDIT_CARD-****'' @ drop (length digits - 4) digits @ '']''
                    else ''[REDACTED:CREDIT_CARD]'')
      else None)"

subsection \<open>Merging\<close>

definition covers :: "redact_span list \<Rightarrow> nat \<Rightarrow> bool" where
  "covers spans i = (\<exists>s\<in>set spans. sp_start s \<le> i \<and> i < sp_end s)"

text \<open>Separated spans: each ends before the next begins.\<close>

fun separated :: "redact_span list \<Rightarrow> bool" where
  "separated [] = True"
| "separated [s] = (sp_start s \<le> sp_end s)"
| "separated (s # t # ss) = (sp_start s \<le> sp_end s \<and> sp_end s < sp_start t \<and> separated (t # ss))"

definition ordered :: "redact_span \<Rightarrow> bool" where
  "ordered s = (sp_start s \<le> sp_end s)"

lemma merge_from_hd: "\<exists>m ms. merge_from l ss = m # ms \<and> sp_start m = sp_start l"
  by (induction l ss rule: merge_from.induct) auto

lemma merge_from_separated:
  "ordered l \<Longrightarrow> \<forall>s\<in>set ss. ordered s \<Longrightarrow> separated (merge_from l ss)"
proof (induction l ss rule: merge_from.induct)
  case (2 l s ss)
  show ?case
  proof (cases "sp_start s \<le> sp_end l")
    case True
    with 2 show ?thesis by (auto simp: ordered_def)
  next
    case False
    obtain m ms where m: "merge_from s ss = m # ms" "sp_start m = sp_start s"
      using merge_from_hd by blast
    have "separated (merge_from s ss)" using 2 False by simp
    with m False "2.prems" show ?thesis by (simp add: ordered_def)
  qed
qed (simp add: ordered_def)

lemma covers_Cons: "covers (s # ss) i \<longleftrightarrow> sp_start s \<le> i \<and> i < sp_end s \<or> covers ss i"
  by (auto simp: covers_def)

lemma merge_from_covers:
  assumes "sorted (map sp_start (l # ss))" and "\<forall>s\<in>set (l # ss). ordered s"
  shows "covers (merge_from l ss) i \<longleftrightarrow> covers (l # ss) i"
  using assms
proof (induction l ss rule: merge_from.induct)
  case (2 l s ss)
  let ?l = "if sp_end s > sp_end l then l\<lparr>sp_end := sp_end s\<rparr> else l"
  show ?case
  proof (cases "sp_start s \<le> sp_end l")
    case True
    have "covers (merge_from ?l ss) i \<longleftrightarrow> covers (?l # ss) i"
      using 2 True by (intro "2.IH"(1)) (auto simp: ordered_def)
    with True "2.prems" show ?thesis by (auto simp: covers_Cons)
  next
    case False
    with 2 show ?thesis by (simp add: covers_Cons)
  qed
qed simp

text \<open>Ends of merged spans are ends of given spans.\<close>

lemma merge_from_ends:
  assumes "\<forall>s\<in>set (l # ss). P (sp_start s) \<and> Q (sp_end s) \<and> R (sp_type s)"
  shows "\<forall>s\<in>set (merge_from l ss). P (sp_start s) \<and> Q (sp_end s) \<and> R (sp_type s)"
  using assms
proof (induction l ss rule: merge_from.induct)
  case (2 l s ss)
  let ?l = "if sp_end s > sp_end l then l\<lparr>sp_end := sp_end s\<rparr> else l"
  let ?ok = "\<lambda>x. P (sp_start x) \<and> Q (sp_end x) \<and> R (sp_type x)"
  have l: "\<forall>x\<in>set (?l # ss). ?ok x" and s: "\<forall>x\<in>set (s # ss). ?ok x" and "?ok l"
    using "2.prems" by simp_all
  show ?case
  proof (cases "sp_start s \<le> sp_end l")
    case True
    then show ?thesis using "2.IH"(1) [OF True l] by (simp only: merge_from.simps if_True)
  next
    case False
    then show ?thesis using "2.IH"(2) [OF False s] \<open>?ok l\<close>
      by (simp only: merge_from.simps if_False list.set ball_simps(5,7) simp_thms)
  qed
qed simp

abbreviation merged :: "redact_span list \<Rightarrow> redact_span list" where
  "merged spans \<equiv> merge_overlapping (sort_key sp_start spans)"

lemma merged_cases:
  obtains "spans = []" "merged spans = []"
  | l ss where "sort_key sp_start spans = l # ss" "merged spans = merge_from l ss"
      "set (l # ss) = set spans" "sorted (map sp_start (l # ss))"
proof (cases "sort_key sp_start spans")
  case Nil
  then have "spans = []" by (metis length_0_conv length_sort)
  with Nil show ?thesis by (intro that(1)) simp_all
next
  case (Cons l ss)
  show ?thesis
  proof (rule that(2) [OF Cons])
    show "merged spans = merge_from l ss" by (simp only: Cons merge_overlapping.simps)
  qed (simp_all only: Cons [symmetric] set_sort sorted_sort_key)
qed

lemma merged_separated: "\<forall>s\<in>set spans. ordered s \<Longrightarrow> separated (merged spans)"
  by (cases spans rule: merged_cases) (auto intro: merge_from_separated)

lemma merged_covers: "\<forall>s\<in>set spans. ordered s \<Longrightarrow> covers (merged spans) i \<longleftrightarrow> covers spans i"
proof (cases spans rule: merged_cases)
  case (2 l ss)
  assume "\<forall>s\<in>set spans. ordered s"
  with 2 have "covers (merge_from l ss) i \<longleftrightarrow> covers (l # ss) i"
    by (intro merge_from_covers) simp_all
  moreover have "covers (l # ss) i \<longleftrightarrow> covers spans i"
    using 2(3) unfolding covers_def by simp
  ultimately show ?thesis using 2(2) by simp
qed simp

lemma merged_ends:
  assumes "\<forall>s\<in>set spans. P (sp_start s) \<and> Q (sp_end s) \<and> R (sp_type s)"
  shows "\<forall>s\<in>set (merged spans). P (sp_start s) \<and> Q (sp_end s) \<and> R (sp_type s)"
proof (cases spans rule: merged_cases)
  case (2 l ss)
  with assms show ?thesis by (metis merge_from_ends)
qed simp

subsection \<open>Left-to-right reference\<close>

fun redact_ref :: "nat \<Rightarrow> redact_span list \<Rightarrow> str \<Rightarrow> str" where
  "redact_ref i [] t = drop i t"
| "redact_ref i (s # ss) t =
     sub_slice i (sp_start s) t @ placeholder (sp_type s) @ redact_ref (sp_end s) ss t"

lemma separated_Cons: "separated (s # ss) \<Longrightarrow> separated ss \<and> (\<forall>x\<in>set ss. sp_end s \<le> sp_start x)"
proof (induction ss arbitrary: s)
  case (Cons a ss)
  then have "sp_end s < sp_start a" "sp_start a \<le> sp_end a" "separated (a # ss)"
    by (cases ss; simp)+
  with Cons.IH [of a] show ?case by fastforce
qed simp

lemma apply_span_prefix:
  "sp_start s \<le> sp_end s \<Longrightarrow> sp_end s \<le> length t \<Longrightarrow>
   apply_span s (Some (take (sp_end s) t @ r)) = Some (take (sp_start s) t @ placeholder (sp_type s) @ r)"
  by (simp add: apply_span_def vec_splice_def min_def)

lemma apply_spans_ref:
  assumes "separated ss" and "\<forall>s\<in>set ss. k \<le> sp_start s \<and> sp_end s \<le> length t" and "k \<le> length t"
  shows "foldr apply_span ss (Some t) = Some (take k t @ redact_ref k ss t)"
  using assms
proof (induction ss arbitrary: k)
  case (Cons s ss)
  have se: "sp_start s \<le> sp_end s" "sp_end s \<le> length t" "k \<le> sp_start s"
    using Cons.prems by (cases ss; simp)+
  have "separated ss \<and> (\<forall>x\<in>set ss. sp_end s \<le> sp_start x)"
    using separated_Cons Cons.prems(1) by blast
  then have "foldr apply_span ss (Some t) = Some (take (sp_end s) t @ redact_ref (sp_end s) ss t)"
    using Cons.prems se by (intro Cons.IH) auto
  moreover have "take k t @ sub_slice k (sp_start s) t = take (sp_start s) t"
    using se sub_slice_glue [of 0 k "sp_start s" t] by (simp add: sub_slice_def)
  ultimately show ?case
    using apply_span_prefix [OF se(1,2)] by (simp flip: append_assoc)
qed simp

definition in_range :: "nat \<Rightarrow> redact_span list \<Rightarrow> bool" where
  "in_range n spans = (\<forall>s\<in>set spans. sp_start s \<le> sp_end s \<and> sp_end s \<le> n)"

lemma redact_bytes_ref:
  assumes "in_range (length t) spans"
  shows "redact_bytes t spans = Some (redact_ref 0 (merged spans) t)"
proof -
  have "separated (merged spans)"
    using assms by (intro merged_separated) (auto simp: in_range_def ordered_def)
  moreover have "\<forall>s\<in>set (merged spans). 0 \<le> sp_start s \<and> sp_end s \<le> length t \<and> True"
    by (rule merged_ends) (use assms in \<open>auto simp: in_range_def\<close>)
  ultimately show ?thesis
    using apply_spans_ref [of "merged spans" 0 t] by (simp add: redact_bytes_def)
qed

text \<open>
  C3: right-to-left splicing of the merged spans equals one left-to-right
  pass that copies the text outside the spans and writes one placeholder per merged
  span; it never panics, the merged spans are separated, and they cover exactly the
  positions the given spans cover.
\<close>

theorem redact_left_to_right:
  assumes "in_range (length t) spans"
  shows "redact_bytes t spans = Some (redact_ref 0 (merged spans) t)
    \<and> separated (merged spans) \<and> (\<forall>i. covers (merged spans) i = covers spans i)"
  using redact_bytes_ref [OF assms] merged_separated [of spans] merged_covers [of spans] assms
  by (simp add: in_range_def ordered_def)

theorem redact_left_to_right_witness:
  "redact_bytes ''ab 123-45 cd'' [\<lparr>sp_start = 5, sp_end = 9, sp_type = ''B''\<rparr>, \<lparr>sp_start = 3, sp_end = 6, sp_type = ''A''\<rparr>]
     = Some ''ab [REDACTED:A] cd''
   \<and> covers (merged [\<lparr>sp_start = 5, sp_end = 9, sp_type = ''B''\<rparr>, \<lparr>sp_start = 3, sp_end = 6, sp_type = ''A''\<rparr>]) 8"
  using redact_left_to_right [of "''ab 123-45 cd''"
      "[\<lparr>sp_start = 5, sp_end = 9, sp_type = ''B''\<rparr>, \<lparr>sp_start = 3, sp_end = 6, sp_type = ''A''\<rparr>]"]
  by (simp add: in_range_def covers_def placeholder_def sub_slice_def)

subsection \<open>Confidentiality\<close>

definition agree_outside :: "redact_span list \<Rightarrow> str \<Rightarrow> str \<Rightarrow> bool" where
  "agree_outside spans t u =
     (length t = length u \<and> (\<forall>i<length t. covers spans i = True \<or> t ! i = u ! i))"

lemma slice_agree:
  assumes "length t = length u" and "\<And>i. lo \<le> i \<Longrightarrow> i < hi \<Longrightarrow> i < length t \<Longrightarrow> t ! i = u ! i"
  shows "sub_slice lo hi t = sub_slice lo hi u"
proof (rule nth_equalityI)
  fix i assume "i < length (sub_slice lo hi t)"
  then have "lo + i < hi" "lo + i < length t" by auto
  then show "sub_slice lo hi t ! i = sub_slice lo hi u ! i"
    using assms by (simp add: sub_slice_def)
qed (use assms in simp)

lemma redact_ref_agree:
  assumes "separated ss" and "\<forall>s\<in>set ss. k \<le> sp_start s" and len: "length t = length u"
    and agree: "\<And>i. k \<le> i \<Longrightarrow> i < length t \<Longrightarrow> \<not> covers ss i \<Longrightarrow> t ! i = u ! i"
  shows "redact_ref k ss t = redact_ref k ss u"
  using assms
proof (induction ss arbitrary: k)
  case Nil
  then have "sub_slice k (length t) t = sub_slice k (length t) u"
    by (intro slice_agree) (auto simp: covers_def)
  with len show ?case by (simp add: sub_slice_def)
next
  case (Cons s ss)
  note tl = separated_Cons [OF Cons.prems(1)]
  have se: "sp_start s \<le> sp_end s" using Cons.prems(1) by (cases ss) simp_all
  have "sub_slice k (sp_start s) t = sub_slice k (sp_start s) u"
    using Cons.prems tl se by (intro slice_agree) (fastforce simp: covers_def)+
  moreover have "redact_ref (sp_end s) ss t = redact_ref (sp_end s) ss u"
  proof (rule Cons.IH)
    show "t ! i = u ! i" if "sp_end s \<le> i" "i < length t" "\<not> covers ss i" for i
      using that Cons.prems se by (intro Cons.prems(4)) (auto simp: covers_Cons)
  qed (use tl len in auto)
  ultimately show ?case by simp
qed

text \<open>Redaction at character boundaries keeps the text well formed.\<close>

definition on_boundaries :: "str \<Rightarrow> redact_span list \<Rightarrow> bool" where
  "on_boundaries t spans =
     (\<forall>s\<in>set spans. is_char_boundary t (sp_start s) \<and> is_char_boundary t (sp_end s)
        \<and> utf8_valid (codes (sp_type s)))"

lemma valid_slice:
  assumes "utf8_valid (codes t)" and "is_char_boundary t lo" and "is_char_boundary t hi" and "lo \<le> hi"
  shows "utf8_valid (codes (sub_slice lo hi t))"
proof -
  have "utf8_valid (take hi (codes t))" using utf8_valid_cut assms by (simp add: boundary_cut_ok)
  moreover have "cut_ok (take hi (codes t)) lo"
    using assms by (auto simp: boundary_cut_ok cut_ok_def min_def)
  ultimately have "utf8_valid (drop lo (take hi (codes t)))" using utf8_valid_cut by blast
  then show ?thesis by (simp add: sub_slice_def drop_take)
qed

lemma valid_placeholder: "utf8_valid (codes ty) \<Longrightarrow> utf8_valid (codes (placeholder ty))"
  unfolding placeholder_def codes_simps(3)
  by (intro utf8_valid_append) (simp_all add: seq_len_def)

lemma redact_ref_valid:
  assumes "utf8_valid (codes t)" and "separated ss" and "is_char_boundary t k"
    and "on_boundaries t ss" and "\<forall>s\<in>set ss. k \<le> sp_start s"
  shows "utf8_valid (codes (redact_ref k ss t))"
  using assms
proof (induction ss arbitrary: k)
  case Nil
  then show ?case using utf8_valid_cut by (simp add: boundary_cut_ok)
next
  case (Cons s ss)
  note tl = separated_Cons [OF Cons.prems(2)]
  have bs: "is_char_boundary t (sp_start s)" "is_char_boundary t (sp_end s)"
      "utf8_valid (codes (sp_type s))" "on_boundaries t ss"
    using Cons.prems(4) by (simp_all add: on_boundaries_def)
  have "utf8_valid (codes (redact_ref (sp_end s) ss t))"
    using Cons.prems(1) tl bs by (intro Cons.IH) auto
  moreover have "utf8_valid (codes (sub_slice k (sp_start s) t))"
    using Cons.prems bs by (intro valid_slice) simp_all
  ultimately show ?case using bs by (simp add: utf8_valid_append valid_placeholder)
qed

lemma redact_aligned:
  assumes "utf8_valid (codes t)" and "in_range (length t) spans" and "on_boundaries t spans"
  shows "redact t spans = Some (redact_ref 0 (merged spans) t)"
proof -
  have "is_char_boundary t 0"
  proof (cases t)
    case (Cons a s)
    then obtain c n where "utf8_next (codes t) = (Some c, n)"
      using assms(1) by (metis codes_simps(2) utf8_valid_Cons)
    then show ?thesis using utf8_next_Some_bytes(1) Cons by (fastforce simp: is_char_boundary_def)
  qed (simp add: is_char_boundary_def)
  moreover have "on_boundaries t (merged spans)"
    unfolding on_boundaries_def
    by (rule merged_ends [of spans "is_char_boundary t" "is_char_boundary t" "\<lambda>s. utf8_valid (codes s)"])
       (use assms(3) in \<open>simp only: on_boundaries_def\<close>)
  moreover have "separated (merged spans)"
    using assms(2) by (intro merged_separated) (auto simp: in_range_def ordered_def)
  ultimately have "utf8_valid (codes (redact_ref 0 (merged spans) t))"
    using assms(1) by (intro redact_ref_valid) auto
  then show ?thesis
    using redact_bytes_ref [OF assms(2)] by (simp add: redact_def from_utf8_def)
qed

lemma redact_agree:
  assumes "utf8_valid (codes t)" and "utf8_valid (codes u)" and "in_range (length t) spans"
    and "on_boundaries t spans" and "on_boundaries u spans" and "agree_outside spans t u"
  shows "\<exists>r. redact t spans = Some r \<and> redact u spans = Some r"
proof -
  have len: "length t = length u" using assms(6) by (simp add: agree_outside_def)
  have ord: "\<forall>s\<in>set spans. ordered s" using assms(3) by (auto simp: in_range_def ordered_def)
  have "redact_ref 0 (merged spans) t = redact_ref 0 (merged spans) u"
    using merged_separated [OF ord] len assms(6) merged_covers [OF ord]
    by (intro redact_ref_agree) (auto simp: agree_outside_def)
  then show ?thesis
    using redact_aligned assms len by metis
qed

text \<open>
  C4: confidentiality of redaction. When the spans lie in the text on
  character boundaries, redaction returns a text and that text does not depend on
  what the spans cover: two texts that agree outside the spans redact to the same
  result.
\<close>

theorem redact_noninterference:
  assumes "utf8_valid (codes t)" and "utf8_valid (codes u)" and "in_range (length t) spans"
    and "on_boundaries t spans" and "on_boundaries u spans" and "agree_outside spans t u"
  shows "\<exists>r. redact t spans = Some r \<and> redact u spans = Some r"
  by (rule redact_agree [OF assms])

theorem redact_noninterference_witness:
  "\<exists>r. redact ''id 7'' [\<lparr>sp_start = 3, sp_end = 4, sp_type = ''SSN''\<rparr>] = Some r
     \<and> redact ''id 9'' [\<lparr>sp_start = 3, sp_end = 4, sp_type = ''SSN''\<rparr>] = Some r"
  by (rule redact_noninterference)
     (simp_all add: in_range_def on_boundaries_def is_char_boundary_def contb_def seq_len_def
       agree_outside_def covers_def less_Suc_eq numeral_eq_Suc)

text \<open>
  A span that cuts a character makes the spliced bytes ill formed, and
  the fallback then returns the original text: the covered bytes are not removed.
  The text is one two-byte character, the span its first byte.
\<close>

lemma redact_fallback_returns_input:
  "redact [CHR 0xC3, CHR 0xA9] [\<lparr>sp_start = 0, sp_end = 1, sp_type = ''SSN''\<rparr>] = Some [CHR 0xC3, CHR 0xA9]"
  by (simp add: redact_def redact_bytes_def apply_span_def vec_splice_def placeholder_def from_utf8_def
      from_utf8_lossy_def of_chars_def utf8_enc_def of_codes_def seq_len_def second_ok_def contb_def char_of_def bit_0)

end
