(* ===== verification/Scoring.thy ===== *)
theory Scoring
  imports F64
begin

text \<open>
  Severity bands, the composite risk score and the Luhn check
  (\<open>detect/cvss.rs\<close>).
\<close>

text \<open>\<open>f64::clamp\<close>: a NaN stays a NaN.\<close>

definition fclamp :: "f64 \<Rightarrow> f64 \<Rightarrow> f64 \<Rightarrow> f64" where
  "fclamp lo hi x = (if flt x lo then lo else if fgt x hi then hi else x)"

text \<open>A decimal literal \<open>n / 10\<close> of the source, rounded to the nearest \<open>f64\<close>.\<close>

definition tenths :: "int \<Rightarrow> f64" where
  "tenths n = of_exact (of_int n / 10)"

datatype severity_band = SevNone | SevLow | SevMedium | SevHigh | SevCritical

fun sev_as_str :: "severity_band \<Rightarrow> str" where
  "sev_as_str SevNone = ''none''"
| "sev_as_str SevLow = ''low''"
| "sev_as_str SevMedium = ''medium''"
| "sev_as_str SevHigh = ''high''"
| "sev_as_str SevCritical = ''critical''"

definition from_cvss :: "f64 \<Rightarrow> severity_band" where
  "from_cvss s = (if feq s (Fin 0) then SevNone else if flt s (Fin 4) then SevLow
     else if flt s (Fin 7) then SevMedium else if flt s (Fin 9) then SevHigh else SevCritical)"

definition from_risk :: "f64 \<Rightarrow> severity_band" where
  "from_risk s = (if flt s (Fin 10) then SevNone else if flt s (Fin 35) then SevLow
     else if flt s (Fin 60) then SevMedium else if flt s (Fin 80) then SevHigh else SevCritical)"

record risk_inputs =
  max_cvss :: f64
  pii_count :: nat
  high_entropy :: bool
  entropy_contribution :: f64
  structural_hit :: bool
  jailbreak :: bool

definition composite_score :: "risk_inputs \<Rightarrow> f64" where
  "composite_score inputs =
     (let cvss_part = fclamp (Fin 0) (Fin 60) (fmul (fdiv (max_cvss inputs) (Fin 10)) (Fin 60));
          pii_part = fmul (of_exact (real (min (pii_count inputs) 5))) (Fin 4);
          entropy_part = fclamp (Fin 0) (Fin 20) (entropy_contribution inputs);
          structural_part = (if structural_hit inputs then Fin 10 else Fin 0);
          jailbreak_part = (if jailbreak inputs then Fin 15 else Fin 0)
      in fclamp (Fin 0) (Fin 100)
           (fadd (fadd (fadd (fadd cvss_part pii_part) entropy_part) structural_part) jailbreak_part))"

definition pattern_risk :: "f64 \<Rightarrow> nat \<Rightarrow> f64" where
  "pattern_risk cvss match_count =
     (let base = fmul (fdiv cvss (Fin 10)) (Fin 60);
          extra = fmin (fmul (of_exact (real (match_count - 1))) (Fin 5)) (Fin 20)
      in fclamp (Fin 0) (Fin 80) (fadd base extra))"

definition digit_val :: "char \<Rightarrow> nat" where
  "digit_val c = of_char c - 48"

definition luhn_term :: "nat \<Rightarrow> nat \<Rightarrow> nat" where
  "luhn_term i d = (if i mod 2 = 1 then (let v = d * 2 in if v > 9 then v - 9 else v) else d)"

definition luhn_sum :: "nat list \<Rightarrow> nat" where
  "luhn_sum nums = sum_list (map (\<lambda>(i, d). luhn_term i d) (enumerate 0 (rev nums)))"

definition luhn_valid :: "str \<Rightarrow> bool" where
  "luhn_valid digits =
     (let nums = map digit_val (filter ascii_digitp digits)
      in if length nums < 13 \<or> length nums > 19 then False else luhn_sum nums mod 10 = 0)"

subsection \<open>Bounds and monotonicity of the score\<close>

lemma of_exact_mono: "x \<le> y \<Longrightarrow> fle (of_exact x) (of_exact y)"
  using rnd64_mono [of x y] by (auto simp: of_exact_def Let_def f64_max_def)

lemma of_exact_not_NaN [simp]: "of_exact x \<noteq> NaN"
  by (simp add: of_exact_def Let_def)

lemma fdiv_mono: "fle x y \<Longrightarrow> 0 < c \<Longrightarrow> fle (fdiv x (Fin c)) (fdiv y (Fin c))"
  by (cases x; cases y) (auto simp: inf_of_sign_def intro!: of_exact_mono divide_right_mono, (case_tac "of_exact (x1 / c)"; simp)+)

lemma fmul_mono: "fle x y \<Longrightarrow> 0 < c \<Longrightarrow> fle (fmul x (Fin c)) (fmul y (Fin c))"
  by (cases x; cases y) (auto simp: inf_of_sign_def intro!: of_exact_mono mult_right_mono, (case_tac "of_exact (x1 * c)"; simp)+)

lemma fclamp_Fin:
  assumes "x \<noteq> NaN" and "lo \<le> hi"
  obtains r where "fclamp (Fin lo) (Fin hi) x = Fin r" "lo \<le> r" "r \<le> hi"
proof (cases x)
  case (Fin y)
  then show thesis using assms(2) by (intro that [of "max lo (min hi y)"]) (auto simp: fclamp_def)
qed (use assms in \<open>auto simp: fclamp_def flt_def feq_def intro: that\<close>)

lemma fclamp_mono:
  "fle x y \<Longrightarrow> lo \<le> hi \<Longrightarrow> fle (fclamp (Fin lo) (Fin hi) x) (fclamp (Fin lo) (Fin hi) y)"
  by (cases x; cases y) (auto simp: fclamp_def flt_def feq_def)

lemma fle_not_NaN: "fle x y \<Longrightarrow> x \<noteq> NaN \<and> y \<noteq> NaN"
  by (cases x; cases y) auto

definition cvss_part :: "f64 \<Rightarrow> f64" where
  "cvss_part c = fclamp (Fin 0) (Fin 60) (fmul (fdiv c (Fin 10)) (Fin 60))"

lemma cvss_part_mono: "fle c d \<Longrightarrow> fle (cvss_part c) (cvss_part d)"
  unfolding cvss_part_def by (intro fclamp_mono fmul_mono fdiv_mono) simp_all

lemma fdiv_10_60_not_NaN: "c \<noteq> NaN \<Longrightarrow> fmul (fdiv c (Fin 10)) (Fin 60) \<noteq> NaN"
  using fmul_mono [OF fdiv_mono [of c c 10], of 60] fle_not_NaN by force

lemma cvss_part_Fin:
  assumes "c \<noteq> NaN"
  obtains r where "cvss_part c = Fin r" "0 \<le> r" "r \<le> 60"
  unfolding cvss_part_def using fclamp_Fin [OF fdiv_10_60_not_NaN [OF assms], of 0 60] by auto

text \<open>The rounded sum of the five parts, over the reals.\<close>

definition score5 :: "real \<Rightarrow> real \<Rightarrow> real \<Rightarrow> real \<Rightarrow> real \<Rightarrow> real" where
  "score5 a b c d e = rnd64 (rnd64 (rnd64 (rnd64 (a + b) + c) + d) + e)"

lemma score5_mono:
  "a \<le> a' \<Longrightarrow> b \<le> b' \<Longrightarrow> c \<le> c' \<Longrightarrow> d \<le> d' \<Longrightarrow> e \<le> e' \<Longrightarrow> score5 a b c d e \<le> score5 a' b' c' d' e'"
  unfolding score5_def by (intro rnd64_mono add_mono)

lemma fadd_bounded:
  assumes "0 \<le> x" "x \<le> of_int m" "0 \<le> y" "y \<le> of_int n" "m + n < 2 ^ 53"
  shows "fadd (Fin x) (Fin y) = Fin (rnd64 (x + y))" "0 \<le> rnd64 (x + y)" "rnd64 (x + y) \<le> of_int (m + n)"
proof -
  have "\<bar>x + y\<bar> \<le> of_int (m + n)" using assms by simp
  from of_exact_Fin [OF this assms(5)] show "fadd (Fin x) (Fin y) = Fin (rnd64 (x + y))" "rnd64 (x + y) \<le> of_int (m + n)"
    by simp_all
  show "0 \<le> rnd64 (x + y)" using assms by (intro rnd64_nonneg) simp
qed

lemma composite_score_real:
  assumes a: "cvss_part (max_cvss i) = Fin a" "0 \<le> a" "a \<le> 60"
    and e: "fclamp (Fin 0) (Fin 20) (entropy_contribution i) = Fin e" "0 \<le> e" "e \<le> 20"
  shows "composite_score i = Fin (min 100 (score5 a (4 * real (min (pii_count i) 5)) e
           (if structural_hit i then 10 else 0) (if jailbreak i then 15 else 0)))"
    and "0 \<le> score5 a (4 * real (min (pii_count i) 5)) e
           (if structural_hit i then 10 else 0) (if jailbreak i then 15 else 0)"
proof -
  define n where "n = min (pii_count i) 5"
  have n: "real n \<le> 5" by (simp add: n_def)
  have p1: "of_exact (real n) = Fin (real n)" using of_exact_int [of "int n"] n by simp
  have "of_exact (of_int (int n * 4)) = Fin (of_int (int n * 4))" using n by (intro of_exact_int) simp
  then have p: "fmul (of_exact (real n)) (Fin 4) = Fin (4 * real n)" using p1 by (simp add: mult.commute)
  let ?s = "if structural_hit i then 10 else 0 :: real"
  let ?j = "if jailbreak i then 15 else 0 :: real"
  define s1 where "s1 = rnd64 (a + 4 * real n)"
  define s2 where "s2 = rnd64 (s1 + e)"
  define s3 where "s3 = rnd64 (s2 + ?s)"
  define s4 where "s4 = rnd64 (s3 + ?j)"
  have 1: "fadd (Fin a) (Fin (4 * real n)) = Fin s1" "0 \<le> s1" "s1 \<le> 80"
    using fadd_bounded [of a 60 "4 * real n" 20] a n by (simp_all add: s1_def)
  have 2: "fadd (Fin s1) (Fin e) = Fin s2" "0 \<le> s2" "s2 \<le> 100"
    using fadd_bounded [of s1 80 e 20] 1 e by (simp_all add: s2_def)
  have 3: "fadd (Fin s2) (Fin ?s) = Fin s3" "0 \<le> s3" "s3 \<le> 110"
    using fadd_bounded [of s2 100 ?s 10] 2 by (simp_all add: s3_def)
  have 4: "fadd (Fin s3) (Fin ?j) = Fin s4" "0 \<le> s4" "s4 \<le> 125"
    using fadd_bounded [of s3 110 ?j 15] 3 by (simp_all add: s4_def)
  have eq: "s4 = score5 a (4 * real n) e ?s ?j"
    by (simp add: score5_def s1_def s2_def s3_def s4_def)
  have parts: "(if structural_hit i then Fin 10 else Fin 0) = Fin ?s"
    "(if jailbreak i then Fin 15 else Fin 0) = Fin ?j" by simp_all
  have "composite_score i = fclamp (Fin 0) (Fin 100) (Fin s4)"
    unfolding composite_score_def Let_def cvss_part_def [symmetric] a(1) e(1) n_def [symmetric] p parts
      1(1) 2(1) 3(1) 4(1) ..
  also have "\<dots> = Fin (min 100 s4)" using 4(2) by (simp add: fclamp_def)
  finally show "composite_score i = Fin (min 100 (score5 a (4 * real (min (pii_count i) 5)) e ?s ?j))"
    unfolding eq n_def .
  show "0 \<le> score5 a (4 * real (min (pii_count i) 5)) e ?s ?j" using 4(2) unfolding eq n_def .
qed

lemma composite_parts:
  assumes "max_cvss i \<noteq> NaN" and "entropy_contribution i \<noteq> NaN"
  obtains a e where "cvss_part (max_cvss i) = Fin a" "0 \<le> a" "a \<le> 60"
    "fclamp (Fin 0) (Fin 20) (entropy_contribution i) = Fin e" "0 \<le> e" "e \<le> 20"
  using cvss_part_Fin [OF assms(1)] fclamp_Fin [OF assms(2), of 0 20] by (metis zero_le_numeral)

definition riskier :: "risk_inputs \<Rightarrow> risk_inputs \<Rightarrow> bool" where
  "riskier i j = (fle (max_cvss i) (max_cvss j) \<and> pii_count i \<le> pii_count j
     \<and> fle (entropy_contribution i) (entropy_contribution j)
     \<and> (structural_hit j \<or> structural_hit i = False) \<and> (jailbreak j \<or> jailbreak i = False))"

text \<open>
  C5: the composite score of inputs that are numbers is a number from 0 to
  100, under \<open>f64\<close> rounding, and more evidence never lowers it: it is monotone in
  the CVSS score, the number of finding types, the entropy contribution and the two flags.
\<close>

theorem composite_score_bounded_mono:
  assumes "riskier i j"
  shows "fle (Fin 0) (composite_score i) \<and> fle (composite_score i) (composite_score j)
    \<and> fle (composite_score j) (Fin 100)"
proof -
  have nn: "max_cvss i \<noteq> NaN" "entropy_contribution i \<noteq> NaN" "max_cvss j \<noteq> NaN" "entropy_contribution j \<noteq> NaN"
    using assms fle_not_NaN by (auto simp: riskier_def)
  obtain a e where ae: "cvss_part (max_cvss i) = Fin a" "0 \<le> a" "a \<le> 60"
    "fclamp (Fin 0) (Fin 20) (entropy_contribution i) = Fin e" "0 \<le> e" "e \<le> 20"
    using composite_parts [OF nn(1,2)] .
  obtain a' e' where ae': "cvss_part (max_cvss j) = Fin a'" "0 \<le> a'" "a' \<le> 60"
    "fclamp (Fin 0) (Fin 20) (entropy_contribution j) = Fin e'" "0 \<le> e'" "e' \<le> 20"
    using composite_parts [OF nn(3,4)] .
  have "a \<le> a'" using cvss_part_mono [of "max_cvss i" "max_cvss j"] assms ae(1) ae'(1) by (simp add: riskier_def)
  moreover have "e \<le> e'"
    using fclamp_mono [of "entropy_contribution i" "entropy_contribution j" 0 20] assms ae(4) ae'(4)
    by (simp add: riskier_def)
  ultimately have "score5 a (4 * real (min (pii_count i) 5)) e (if structural_hit i then 10 else 0) (if jailbreak i then 15 else 0)
      \<le> score5 a' (4 * real (min (pii_count j) 5)) e' (if structural_hit j then 10 else 0) (if jailbreak j then 15 else 0)"
    using assms by (intro score5_mono) (auto simp: riskier_def)
  then show ?thesis
    using composite_score_real [OF ae] composite_score_real [OF ae'] by simp
qed

theorem composite_score_bounded_mono_witness:
  "fle (composite_score \<lparr>max_cvss = Fin 5, pii_count = 1, high_entropy = False, entropy_contribution = Fin 0,
      structural_hit = False, jailbreak = False\<rparr>)
    (composite_score \<lparr>max_cvss = Fin 9, pii_count = 3, high_entropy = True, entropy_contribution = Fin 12,
      structural_hit = True, jailbreak = False\<rparr>)"
  using composite_score_bounded_mono
    [of "\<lparr>max_cvss = Fin 5, pii_count = 1, high_entropy = False, entropy_contribution = Fin 0,
      structural_hit = False, jailbreak = False\<rparr>"
      "\<lparr>max_cvss = Fin 9, pii_count = 3, high_entropy = True, entropy_contribution = Fin 12,
      structural_hit = True, jailbreak = False\<rparr>"]
  by (simp add: riskier_def)

text \<open>The score of a single finding, up to rounding: \<open>6 * cvss + 4\<close>.\<close>

lemma of_exact_close:
  assumes "0 \<le> x" and "x \<le> 1000"
  obtains r where "of_exact x = Fin r" "0 \<le> r" "\<bar>r - x\<bar> \<le> 1 / 1000000000"
  using of_exact_Fin(1) [of x 1000] rnd64_close [of x] rnd64_nonneg [of x] assms by auto

lemma single_finding_score:
  assumes "0 \<le> n" and "n \<le> 99"
  obtains r where "composite_score \<lparr>max_cvss = tenths n, pii_count = 1, high_entropy = b,
      entropy_contribution = Fin 0, structural_hit = False, jailbreak = False\<rparr> = Fin r"
    "\<bar>r - (6 * of_int n / 10 + 4)\<bar> \<le> 1 / 1000000"
proof -
  define N where "N = real_of_int n"
  have N: "0 \<le> N" "N \<le> 99" using assms by (simp_all add: N_def)
  obtain x where x: "tenths n = Fin x" "0 \<le> x" "\<bar>x - N / 10\<bar> \<le> 1 / 1000000000"
    using of_exact_close [of "N / 10"] N unfolding tenths_def N_def [symmetric] by force
  have x10: "x / 10 \<le> 1000" using x N by linarith
  obtain y where y: "fdiv (Fin x) (Fin 10) = Fin y" "0 \<le> y" "\<bar>y - x / 10\<bar> \<le> 1 / 1000000000"
    using of_exact_close [of "x / 10"] x(2) x10 by (metis divide_nonneg_nonneg fdiv.simps(1) zero_le_numeral zero_neq_numeral)
  have y60: "y * 60 \<le> 1000" using x y N by linarith
  obtain z where z: "fmul (Fin y) (Fin 60) = Fin z" "0 \<le> z" "\<bar>z - y * 60\<bar> \<le> 1 / 1000000000"
    using of_exact_close [of "y * 60"] y(2) y60 by (metis fmul.simps(1) mult_nonneg_nonneg zero_le_numeral)
  have near: "\<bar>z - 6 * N / 10\<bar> \<le> 1 / 10000000" using x y z by linarith
  have "z \<le> 60" using near N by linarith
  have a: "cvss_part (tenths n) = Fin z"
    using x(1) y(1) z \<open>z \<le> 60\<close> by (simp add: cvss_part_def fclamp_def)
  let ?i = "\<lparr>max_cvss = tenths n, pii_count = 1, high_entropy = b, entropy_contribution = Fin 0,
    structural_hit = False, jailbreak = False\<rparr>"
  define r1 where "r1 = rnd64 (z + 4)"
  define r2 where "r2 = rnd64 r1"
  define r3 where "r3 = rnd64 r2"
  define r4 where "r4 = rnd64 r3"
  have 1: "\<bar>r1 - (z + 4)\<bar> \<le> 1 / 1000000000" unfolding r1_def using z \<open>z \<le> 60\<close> by (intro rnd64_close) linarith
  have 2: "\<bar>r2 - r1\<bar> \<le> 1 / 1000000000" unfolding r2_def using z \<open>z \<le> 60\<close> 1 by (intro rnd64_close) linarith
  have 3: "\<bar>r3 - r2\<bar> \<le> 1 / 1000000000" unfolding r3_def using z \<open>z \<le> 60\<close> 1 2 by (intro rnd64_close) linarith
  have 4: "\<bar>r4 - r3\<bar> \<le> 1 / 1000000000" unfolding r4_def using z \<open>z \<le> 60\<close> 1 2 3 by (intro rnd64_close) linarith
  have c: "composite_score ?i = Fin (min 100 r4)"
    using composite_score_real(1) [of ?i z 0] a z(2) \<open>z \<le> 60\<close>
    by (simp add: score5_def fclamp_def r1_def r2_def r3_def r4_def)
  have "\<bar>r4 - (6 * N / 10 + 4)\<bar> \<le> 1 / 1000000" using 1 2 3 4 near by linarith
  moreover have "r4 \<le> 100" using 1 2 3 4 \<open>z \<le> 60\<close> by linarith
  ultimately show thesis using c by (intro that [of r4]) (simp_all add: N_def)
qed

subsection \<open>Luhn check\<close>

lemma mod10_cancel:
  assumes "a \<le> 9" "b \<le> 9" "(a + s) mod 10 = (b + s) mod (10::nat)"
  shows "a = b"
proof -
  have "(int a + int s) mod 10 = (int b + int s) mod 10" using assms(3) by (metis of_nat_add of_nat_mod of_nat_numeral)
  then have "10 dvd (int a - int b)" by (simp add: mod_eq_dvd_iff)
  with assms(1,2) show ?thesis by presburger
qed

lemma luhn_term_inj: "d \<le> 9 \<Longrightarrow> e \<le> 9 \<Longrightarrow> luhn_term i d = luhn_term i e \<Longrightarrow> d = e"
  unfolding luhn_term_def Let_def by (auto split: if_splits) presburger+

lemma luhn_term_le: "d \<le> 9 \<Longrightarrow> luhn_term i d \<le> 9"
  unfolding luhn_term_def Let_def by auto

lemma luhn_term_cancel:
  "d \<le> 9 \<Longrightarrow> e \<le> 9 \<Longrightarrow> (luhn_term i d + s) mod 10 = (luhn_term i e + s) mod 10 \<Longrightarrow> d = e"
  by (meson luhn_term_inj luhn_term_le mod10_cancel)

lemma luhn_sum_split:
  "luhn_sum (xs @ d # ys) =
     luhn_term (length ys) d
     + (sum_list (map (\<lambda>(i, d). luhn_term i d) (enumerate 0 (rev ys)))
        + sum_list (map (\<lambda>(i, d). luhn_term i d) (enumerate (Suc (length ys)) (rev xs))))"
  by (simp add: luhn_sum_def enumerate_append_eq)

lemma luhn_sum_single_error:
  assumes "d \<le> 9" "e \<le> 9" "luhn_sum (xs @ d # ys) mod 10 = 0" "luhn_sum (xs @ e # ys) mod 10 = 0"
  shows "d = e"
  by (rule luhn_term_cancel [OF assms(1,2), OF trans [OF assms(3) [unfolded luhn_sum_split]
        assms(4) [unfolded luhn_sum_split, symmetric]]])

text \<open>
  The Luhn check rejects every single-digit error: if a number passes,
  replacing one of its digits by a different digit makes it fail.
\<close>

lemma luhn_detects_single_error:
  assumes "luhn_valid (u @ c # v)" and "ascii_digitp c" and "ascii_digitp d" and "c \<noteq> d"
  shows "luhn_valid (u @ d # v) = False"
proof -
  have dv: "digit_val x \<le> 9" if "ascii_digitp x" for x
    using that unfolding digit_val_def ascii_digitp_def by linarith
  have "digit_val c \<noteq> digit_val d"
    using assms(2-4) unfolding digit_val_def ascii_digitp_def by (metis diff_add_inverse2 le_add_diff_inverse2 of_char_eq_iff)
  then show ?thesis
    using assms luhn_sum_single_error [OF dv dv, of c d "map digit_val (filter ascii_digitp u)" "map digit_val (filter ascii_digitp v)"]
    by (auto simp: luhn_valid_def Let_def split: if_splits)
qed

end
