(* ===== verification/Entropy.thy ===== *)
theory Entropy
  imports Scoring Utf8
begin

text \<open>
  The entropy scanner (\<open>detect/entropy.rs\<close>). The base-2 logarithm of \<open>f64\<close>
  is taken as the correctly rounded one.
\<close>

fun flog2 :: "f64 \<Rightarrow> f64" where
  "flog2 (Fin x) = (if x > 0 then of_exact (log 2 x) else if x = 0 then NInf else NaN)"
| "flog2 PInf = PInf"
| "flog2 _ = NaN"

definition byte_freq :: "str \<Rightarrow> nat \<Rightarrow> nat" where
  "byte_freq data b = length (filter (\<lambda>c. of_char c = b) data)"

definition shannon_entropy :: "str \<Rightarrow> f64" where
  "shannon_entropy data =
     (if data = [] then Fin 0
      else foldl (\<lambda>entropy b.
             let count = byte_freq data b
             in if count > 0
                then let p = fdiv (of_exact (real count)) (of_exact (real (length data)))
                     in fsub entropy (fmul p (flog2 p))
                else entropy) (Fin 0) [0..<256])"

record entropy_hit =
  eh_token :: str
  eh_start :: nat
  eh_end :: nat
  eh_entropy :: f64

definition is_delimiter :: "char \<Rightarrow> bool" where
  "is_delimiter c = ((of_char c :: nat) \<in> {32, 9, 10, 13, 34, 39, 96, 40, 41, 91, 93, 123, 125, 44, 59, 58, 60, 62})"

definition edge_punct :: "char \<Rightarrow> bool" where
  "edge_punct c = (c \<in> set ''.-_/'')"

definition strip_surrounding_punct :: "str \<Rightarrow> str" where
  "strip_surrounding_punct b =
     (let lo = (case position (\<lambda>c. \<not> edge_punct c) b of Some i \<Rightarrow> i | None \<Rightarrow> 0);
          hi = (case position (\<lambda>c. \<not> edge_punct c) (rev b) of Some i \<Rightarrow> length b - i | None \<Rightarrow> length b)
      in if lo < hi then sub_slice lo hi b else b)"

function scan_entropy_from :: "f64 \<Rightarrow> nat \<Rightarrow> nat \<Rightarrow> str \<Rightarrow> entropy_hit list" where
  "scan_entropy_from threshold min_len i [] = []"
| "scan_entropy_from threshold min_len i (c # cs) =
     (if is_delimiter c then scan_entropy_from threshold min_len (i + 1) cs
      else
        let tok = takeWhile (\<lambda>c. \<not> is_delimiter c) (c # cs);
            rest = dropWhile (\<lambda>c. \<not> is_delimiter c) (c # cs);
            more = scan_entropy_from threshold min_len (i + length tok) rest;
            stripped = strip_surrounding_punct tok
        in if length tok < min_len \<or> length stripped < min_len then more
           else let ent = shannon_entropy stripped
                in if fge ent threshold
                   then \<lparr>eh_token = from_utf8_lossy stripped, eh_start = i, eh_end = i + length tok,
                         eh_entropy = ent\<rparr> # more
                   else more)"
  by pat_completeness auto
termination
  by (relation "measure (\<lambda>(t, m, i, cs). length cs)") (auto simp: le_imp_less_Suc length_dropWhile_le)

definition scan_entropy :: "str \<Rightarrow> f64 \<Rightarrow> nat \<Rightarrow> entropy_hit list" where
  "scan_entropy txt threshold min_len = scan_entropy_from threshold min_len 0 txt"

record entropy_result =
  high_entropy_found :: bool
  max_entropy :: f64
  risk_contribution :: f64
  top_token :: "str option"

text \<open>\<open>Iterator::max_by\<close> keeps the later of two equal maxima.\<close>

definition top_hit :: "entropy_hit \<Rightarrow> entropy_hit list \<Rightarrow> entropy_hit" where
  "top_hit h hs = foldl (\<lambda>best x. if fgt (eh_entropy best) (eh_entropy x) then best else x) h hs"

definition entropy_verdict :: "str \<Rightarrow> entropy_result" where
  "entropy_verdict txt =
     (case scan_entropy txt (Fin 5) 16 @ scan_entropy txt (tenths 45) 20 of
        [] \<Rightarrow> \<lparr>high_entropy_found = False, max_entropy = Fin 0, risk_contribution = Fin 0, top_token = None\<rparr>
      | h # hs \<Rightarrow>
          (let top = top_hit h hs;
               max_ent = eh_entropy top;
               contribution = fclamp (Fin 0) (Fin 30) (fmul (fdiv (fsub max_ent (tenths 45)) (Fin 2)) (Fin 30))
           in \<lparr>high_entropy_found = True, max_entropy = max_ent, risk_contribution = contribution,
               top_token = Some (eh_token top)\<rparr>))"

subsection \<open>Only tokens that reach a threshold count\<close>

lemma split_by_takeWhile:
  "split_by P xs = takeWhile (\<lambda>c. \<not> P c) xs #
     (case dropWhile (\<lambda>c. \<not> P c) xs of [] \<Rightarrow> [] | y # ys \<Rightarrow> split_by P ys)"
  by (induction xs) auto

lemma split_by_dropWhile:
  "set (split_by P (dropWhile (\<lambda>c. \<not> P c) xs)) \<subseteq> insert [] (set (split_by P xs))"
proof (cases "dropWhile (\<lambda>c. \<not> P c) xs")
  case (Cons y ys)
  then have "P y" by (metis (no_types, lifting) hd_dropWhile list.distinct(1) list.sel(1))
  with Cons show ?thesis by (subst (2) split_by_takeWhile) auto
next
  case Nil
  show ?thesis unfolding Nil by simp
qed

lemma scan_entropy_short:
  "\<forall>w\<in>set (split_by is_delimiter cs). length w < m \<Longrightarrow> scan_entropy_from th m i cs = []"
proof (induction th m i cs rule: scan_entropy_from.induct)
  case (2 th m i c cs)
  show ?case
  proof (cases "is_delimiter c")
    case True
    with 2 show ?thesis by simp
  next
    case False
    have m: "length (takeWhile (\<lambda>c. \<not> is_delimiter c) (c # cs)) < m"
      using "2.prems" split_by_takeWhile [of is_delimiter "c # cs"] by simp
    have "\<forall>w\<in>set (split_by is_delimiter (dropWhile (\<lambda>c. \<not> is_delimiter c) (c # cs))). length w < m"
    proof
      fix w assume "w \<in> set (split_by is_delimiter (dropWhile (\<lambda>c. \<not> is_delimiter c) (c # cs)))"
      then have "w = [] \<or> w \<in> set (split_by is_delimiter (c # cs))" using split_by_dropWhile by blast
      then show "length w < m" using "2.prems" m by auto
    qed
    then have "scan_entropy_from th m (i + length (takeWhile (\<lambda>c. \<not> is_delimiter c) (c # cs)))
        (dropWhile (\<lambda>c. \<not> is_delimiter c) (c # cs)) = []"
      using "2.IH"(2) False by simp
    with m show ?thesis using False by (simp add: Let_def)
  qed
qed simp

lemma entropy_verdict_short:
  assumes "\<forall>w\<in>set (split_by is_delimiter txt). length w < 16"
  shows "entropy_verdict txt =
    \<lparr>high_entropy_found = False, max_entropy = Fin 0, risk_contribution = Fin 0, top_token = None\<rparr>"
proof -
  have "\<forall>w\<in>set (split_by is_delimiter txt). length w < 20" using assms by fastforce
  then show ?thesis
    using scan_entropy_short assms by (simp add: entropy_verdict_def scan_entropy_def)
qed

end
