(* ===== verification/Structural.thy ===== *)
theory Structural
  imports Entropy
begin

text \<open>
  The structural token scanner (\<open>detect/structural.rs\<close>): JWTs, base64 blobs and
  hex blobs, with the module's own base64 decoder. Bytes are characters with code
  below 256. Offsets count bytes; the running offset adds one per delimiter, as the
  source does even for a longer one.
\<close>

datatype structural_kind = Jwt | Base64Blob | HexBlob

fun kind_as_str :: "structural_kind \<Rightarrow> str" where
  "kind_as_str Jwt = ''JWT''"
| "kind_as_str Base64Blob = ''HIGH_ENTROPY''"
| "kind_as_str HexBlob = ''HIGH_ENTROPY''"

fun risk_points :: "structural_kind \<Rightarrow> f64" where
  "risk_points Jwt = Fin 20"
| "risk_points Base64Blob = Fin 15"
| "risk_points HexBlob = Fin 10"

record structural_hit_rec =
  sh_kind :: structural_kind
  sh_start :: nat
  sh_end :: nat
  sh_value :: str

subsection \<open>Base64\<close>

definition b64_table :: "nat \<Rightarrow> nat option" where
  "b64_table b =
     (if 65 \<le> b \<and> b \<le> 90 then Some (b - 65)
      else if 97 \<le> b \<and> b \<le> 122 then Some (b - 97 + 26)
      else if 48 \<le> b \<and> b \<le> 57 then Some (b - 48 + 52)
      else if b = 43 then Some 62
      else if b = 47 then Some 63
      else if b = 61 then Some 0
      else None)"

definition b64_chunk :: "nat \<Rightarrow> nat \<Rightarrow> nat \<Rightarrow> nat \<Rightarrow> nat list option" where
  "b64_chunk c0 c1 c2 c3 =
     (case (b64_table c0, b64_table c1, b64_table c2, b64_table c3) of
        (Some v0, Some v1, Some v2, Some v3) \<Rightarrow>
          (let triple = v0 * 2 ^ 18 + v1 * 2 ^ 12 + v2 * 2 ^ 6 + v3
           in Some (triple div 2 ^ 16 mod 256
                    # (if c2 \<noteq> 61 then [triple div 2 ^ 8 mod 256] else [])
                    @ (if c3 \<noteq> 61 then [triple mod 256] else [])))
      | _ \<Rightarrow> None)"

fun b64_chunks :: "nat list \<Rightarrow> nat list option" where
  "b64_chunks (c0 # c1 # c2 # c3 # rest) =
     (case b64_chunk c0 c1 c2 c3 of
        None \<Rightarrow> None
      | Some out \<Rightarrow> map_option (\<lambda>more. out @ more) (b64_chunks rest))"
| "b64_chunks [] = Some []"
| "b64_chunks _ = None"

definition base64_decode_standard :: "str \<Rightarrow> str option" where
  "base64_decode_standard s =
     (if length s mod 4 \<noteq> 0 then None else map_option of_codes (b64_chunks (codes s)))"

definition is_base64url :: "nat list \<Rightarrow> bool" where
  "is_base64url s = list_all (\<lambda>c. ascii_alnum c \<or> c = 45 \<or> c = 95 \<or> c = 61) s"

definition url_to_std :: "nat \<Rightarrow> nat" where
  "url_to_std c = (if c = 45 then 43 else if c = 95 then 47 else c)"

definition base64url_decode :: "str \<Rightarrow> str option" where
  "base64url_decode s =
     (let standard = of_codes (map url_to_std (codes s))
      in base64_decode_standard
           (if length standard mod 4 = 2 then standard @ ''==''
            else if length standard mod 4 = 3 then standard @ ''='' else standard))"

subsection \<open>Token detectors\<close>

text \<open>\<open>splitn(n, c)\<close>: at most \<open>n\<close> pieces, the last one holding the rest.\<close>

fun splitn :: "nat \<Rightarrow> nat \<Rightarrow> nat list \<Rightarrow> nat list list" where
  "splitn 0 d cs = []"
| "splitn (Suc 0) d cs = [cs]"
| "splitn (Suc (Suc n)) d cs =
     (case dropWhile (\<lambda>c. c \<noteq> d) cs of
        [] \<Rightarrow> [cs]
      | _ # rest \<Rightarrow> takeWhile (\<lambda>c. c \<noteq> d) cs # splitn (Suc n) d rest)"

abbreviation mk_hit :: "structural_kind \<Rightarrow> nat list \<Rightarrow> nat \<Rightarrow> structural_hit_rec" where
  "mk_hit k token base \<equiv>
     \<lparr>sh_kind = k, sh_start = base, sh_end = base + length (of_chars token), sh_value = of_chars token\<rparr>"

definition try_jwt :: "nat list \<Rightarrow> nat \<Rightarrow> structural_hit_rec option" where
  "try_jwt token base =
     (case splitn 4 46 token of
        [h, p, s] \<Rightarrow>
          (if list_ex (\<lambda>x. x = [] \<or> \<not> is_base64url x) [h, p, s] then None
           else case base64url_decode (of_chars h) of
             None \<Rightarrow> None
           | Some header_bytes \<Rightarrow>
               (case from_utf8 header_bytes of
                  None \<Rightarrow> None
                | Some header_str \<Rightarrow>
                    if contains header_str (CHR 0x22 # ''alg'' @ [CHR 0x22]) then Some (mk_hit Jwt token base) else None))
      | _ \<Rightarrow> None)"

definition try_base64_blob :: "nat list \<Rightarrow> nat \<Rightarrow> structural_hit_rec option" where
  "try_base64_blob token base =
     (if length (of_chars token) < 40 then None
      else let stripped = trim_end_matches (\<lambda>c. c = 61) token
           in if \<not> list_all (\<lambda>c. ascii_alnum c \<or> c = 43 \<or> c = 47 \<or> c = 45 \<or> c = 95) stripped then None
              else if length (remdups stripped) < 5 then None
              else if flt (shannon_entropy (of_chars stripped)) (tenths 42) then None
              else Some (mk_hit Base64Blob token base))"

definition try_hex_blob :: "nat list \<Rightarrow> nat \<Rightarrow> structural_hit_rec option" where
  "try_hex_blob token base =
     (if length (of_chars token) < 32 then None
      else if \<not> list_all ascii_hexdigit token then None
      else if length (remdups token) < 6 then None
      else Some (mk_hit HexBlob token base))"

definition struct_delim :: "nat \<Rightarrow> bool" where
  "struct_delim c = (is_whitespace c \<or> c = 34 \<or> c = 39 \<or> c = 44 \<or> c = 59)"

definition struct_trim :: "nat \<Rightarrow> bool" where
  "struct_trim c = (c \<in> {46, 45, 95, 40, 41, 91, 93})"

definition classify_token :: "nat list \<Rightarrow> nat \<Rightarrow> structural_hit_rec option" where
  "classify_token token start =
     (case try_jwt token start of
        Some h \<Rightarrow> Some h
      | None \<Rightarrow> (case try_base64_blob token start of
                   Some h \<Rightarrow> Some h
                 | None \<Rightarrow> try_hex_blob token start))"

fun scan_struct_tokens :: "nat \<Rightarrow> nat list list \<Rightarrow> structural_hit_rec list" where
  "scan_struct_tokens offset [] = []"
| "scan_struct_tokens offset (raw # raws) =
     (let end = offset + length (of_chars raw);
          token = trim_matches struct_trim raw;
          more = scan_struct_tokens (end + 1) raws
      in if token = [] then more
         else case classify_token token offset of Some h \<Rightarrow> h # more | None \<Rightarrow> more)"

definition scan_structural :: "str \<Rightarrow> structural_hit_rec list" where
  "scan_structural txt = scan_struct_tokens 0 (split_by struct_delim (chars txt))"

subsection \<open>Round trip of base64\<close>

text \<open>The encoder of RFC 4648, as a specification of the decoder.\<close>

definition b64_char :: "nat \<Rightarrow> nat" where
  "b64_char v = (if v < 26 then 65 + v else if v < 52 then 97 + (v - 26)
                 else if v < 62 then 48 + (v - 52) else if v = 62 then 43 else 47)"

fun b64_encode :: "nat list \<Rightarrow> nat list" where
  "b64_encode [] = []"
| "b64_encode [a] = [b64_char (a div 4), b64_char (a mod 4 * 16), 61, 61]"
| "b64_encode [a, b] = [b64_char (a div 4), b64_char (a mod 4 * 16 + b div 16), b64_char (b mod 16 * 4), 61]"
| "b64_encode (a # b # c # rest) =
     b64_char (a div 4) # b64_char (a mod 4 * 16 + b div 16) # b64_char (b mod 16 * 4 + c div 64)
     # b64_char (c mod 64) # b64_encode rest"

lemma b64_table_char: "v < 64 \<Longrightarrow> b64_table (b64_char v) = Some v"
  by (auto simp: b64_table_def b64_char_def)

lemma b64_char_not_pad: "v < 64 \<Longrightarrow> b64_char v \<noteq> 61"
  by (auto simp: b64_char_def)

lemma b64_char_lt: "v < 64 \<Longrightarrow> b64_char v < 128"
  by (auto simp: b64_char_def)

lemma b64_quad:
  fixes a b c :: nat
  assumes "a < 256" "b < 256" "c < 256"
  shows "a div 4 < 64" "a mod 4 * 16 + b div 16 < 64" "b mod 16 * 4 + c div 64 < 64" "c mod 64 < 64"
proof -
  have "a mod 4 < 4" "b div 16 < 16" "b mod 16 < 16" "c div 64 < 4" using assms by auto
  then show "a mod 4 * 16 + b div 16 < 64" "b mod 16 * 4 + c div 64 < 64" by linarith+
qed (use assms in auto)

lemma triple_value:
  fixes a b c :: nat
  shows "a div 4 * 2 ^ 18 + (a mod 4 * 16 + b div 16) * 2 ^ 12 + (b mod 16 * 4 + c div 64) * 2 ^ 6 + c mod 64
         = a * 65536 + b * 256 + c"
proof -
  have "q * 2 ^ 18 + (r * 16 + q2) * 2 ^ 12 + (r2 * 4 + q3) * 2 ^ 6 + r3
    = (q * 4 + r) * 65536 + (q2 * 16 + r2) * 256 + (q3 * 64 + r3)" for q r q2 r2 q3 r3 :: nat
    by (simp add: algebra_simps)
  from this [of "a div 4" "a mod 4" "b div 16" "b mod 16" "c div 64" "c mod 64"]
  show ?thesis by (simp only: div_mult_mod_eq)
qed

lemma triple_bytes:
  fixes a b c :: nat
  assumes "a < 256" "b < 256" "c < 256"
  shows "(a * 65536 + b * 256 + c) div 2 ^ 16 mod 256 = a" "(a * 65536 + b * 256 + c) div 2 ^ 8 mod 256 = b"
    "(a * 65536 + b * 256 + c) mod 256 = c"
proof -
  have "(a * 65536 + b * 256 + c) div 65536 = a" "(a * 65536 + b * 256 + c) div 256 = a * 256 + b"
    using assms by auto
  then show "(a * 65536 + b * 256 + c) div 2 ^ 16 mod 256 = a" "(a * 65536 + b * 256 + c) div 2 ^ 8 mod 256 = b"
    using assms by simp_all
  have "(a * 65536 + b * 256 + c) mod 256 = ((a * 256 + b) * 256 + c) mod 256"
    by (simp add: algebra_simps)
  also have "\<dots> = c" using assms(3) by (simp only: mod_mult_self3 mod_less)
  finally show "(a * 65536 + b * 256 + c) mod 256 = c" .
qed

lemma b64_chunk_full:
  assumes "a < 256" "b < 256" "c < 256"
  shows "b64_chunk (b64_char (a div 4)) (b64_char (a mod 4 * 16 + b div 16))
           (b64_char (b mod 16 * 4 + c div 64)) (b64_char (c mod 64)) = Some [a, b, c]"
proof -
  note q = b64_quad [OF assms]
  show ?thesis
    unfolding b64_chunk_def b64_table_char [OF q(1)] b64_table_char [OF q(2)] b64_table_char [OF q(3)]
      b64_table_char [OF q(4)] prod.case option.case Let_def triple_value triple_bytes [OF assms]
    using b64_char_not_pad [OF q(3)] b64_char_not_pad [OF q(4)] by simp
qed

lemma b64_chunk_pad1:
  assumes "a < 256" "b < 256"
  shows "b64_chunk (b64_char (a div 4)) (b64_char (a mod 4 * 16 + b div 16)) (b64_char (b mod 16 * 4)) 61 = Some [a, b]"
proof -
  have z: "(0::nat) < 256" by simp
  have q: "a div 4 < 64" "a mod 4 * 16 + b div 16 < 64" "b mod 16 * 4 < 64" using b64_quad [OF assms z] by simp_all
  have p: "b64_table 61 = Some 0" by (simp add: b64_table_def)
  show ?thesis
    unfolding b64_chunk_def b64_table_char [OF q(1)] b64_table_char [OF q(2)] b64_table_char [OF q(3)] p
      prod.case option.case Let_def
    using b64_char_not_pad [OF q(3)] triple_value [of a b 0] triple_bytes [OF assms z] by simp
qed

lemma b64_chunk_pad2:
  assumes "a < 256"
  shows "b64_chunk (b64_char (a div 4)) (b64_char (a mod 4 * 16)) 61 61 = Some [a]"
proof -
  have z: "(0::nat) < 256" by simp
  have q: "a div 4 < 64" "a mod 4 * 16 < 64" using b64_quad [OF assms z z] by simp_all
  have p: "b64_table 61 = Some 0" by (simp add: b64_table_def)
  show ?thesis
    unfolding b64_chunk_def b64_table_char [OF q(1)] b64_table_char [OF q(2)] p prod.case option.case Let_def
    using triple_value [of a 0 0] triple_bytes [OF assms z z] by simp
qed

lemma b64_chunks_encode: "\<forall>x\<in>set xs. x < 256 \<Longrightarrow> b64_chunks (b64_encode xs) = Some xs"
  by (induction xs rule: b64_encode.induct) (simp_all add: b64_chunk_full b64_chunk_pad1 b64_chunk_pad2)

lemma b64_encode_len: "length (b64_encode xs) mod 4 = 0"
proof (induction xs rule: b64_encode.induct)
  case (4 a b c rest)
  then show ?case using mod_add_self2 [of "length (b64_encode rest)" 4] by simp
qed simp_all

lemma b64_char_byte: "b64_char v < 256"
  unfolding b64_char_def by auto

lemma b64_encode_lt: "\<forall>y\<in>set (b64_encode xs). y < 256"
  by (induction xs rule: b64_encode.induct) (simp_all add: b64_char_byte)

lemma codes_of_codes: "\<forall>x\<in>set xs. x < 256 \<Longrightarrow> codes (of_codes xs) = xs"
  by (simp add: codes_def of_codes_def map_idI)

lemma of_codes_codes [simp]: "of_codes (codes s) = s"
  by (simp add: codes_def of_codes_def comp_def)

lemma codes_lt: "x \<in> set (codes s) \<Longrightarrow> x < 256"
  by (auto simp: codes_def)

text \<open>
  The hand-written base64 decoder inverts the standard encoding: for
  every byte string, decoding its padded base64 text gives the string back.
\<close>

lemma base64_roundtrip:
  "base64_decode_standard (of_codes (b64_encode (codes s))) = Some s"
proof -
  have lt: "\<forall>x\<in>set (codes s). x < 256" using codes_lt by blast
  have "length (of_codes (b64_encode (codes s))) mod 4 = 0"
    using b64_encode_len by (simp add: of_codes_def)
  then show ?thesis
    using b64_chunks_encode [OF lt] codes_of_codes [OF b64_encode_lt]
    by (simp add: base64_decode_standard_def)
qed

end
