(* ===== verification/Bpe.thy ===== *)
theory Bpe
  imports Structural
begin

text \<open>
  The deterministic byte-level checks (\<open>detect/bpe.rs\<close>). The explanatory
  \<open>evidence\<close> string of a verdict is not kept, except that building it can panic:
  \<open>check_token_splitting\<close> cuts the collapsed text at byte 40, and a cut inside a
  character is the result \<open>None\<close>.
\<close>

datatype bpe_threat =
    ThreatNone
  | EncodedPayload
  | TokenSplitting
  | ControlInjection
  | PolyglotMixing
  | RepetitionAmplification
  | HomoglyphAttack

record bpe_verdict =
  threat :: bpe_threat
  technique :: str
  span_start :: nat
  span_end :: nat

definition prohibited_decoded :: "str list" where
  "prohibited_decoded = [
     ''ignore all'', ''ignore previous'', ''disregard all'', ''override instructions'',
     ''forget your'', ''you are now'', ''pretend you'', ''act as if'',
     ''your new role'', ''developer mode'', ''jailbreak'', ''dan mode'',
     ''without restrictions'', ''no restrictions'', ''bypass safety'',
     ''sk-ant-api'', ''sk-proj-'', ''ghp_'', ''ghs_'', ''gho_'',
     ''akia'', ''private_key'', ''-----begin'', ''aws_secret'']"

definition deconfuse_char :: "nat \<Rightarrow> nat" where
  "deconfuse_char c =
     (if c \<in> {0x430, 0x251, 0x3b1, 0xff41} then 0x61
      else if c \<in> {0x435, 0x451, 0x3b5, 0xff45} then 0x65
      else if c \<in> {0x456, 0x26a, 0x3b9, 0xff49} then 0x69
      else if c \<in> {0x43e, 0x3bf, 0xff4f} then 0x6f
      else if c \<in> {0x440, 0x3c1, 0xff50} then 0x70
      else if c \<in> {0x441, 0x3f2, 0xff43} then 0x63
      else if c \<in> {0x445, 0x3c7, 0xff58} then 0x78
      else if c \<in> {0x443, 0x3b3, 0xff59} then 0x79
      else if c \<in> {0x412, 0x392, 0xff22} then 0x42
      else if c \<in> {0x41d, 0x397, 0xff28} then 0x48
      else if c \<in> {0x41a, 0x39a, 0xff2b} then 0x4b
      else if c \<in> {0x41c, 0x39c, 0xff2d} then 0x4d
      else if c \<in> {0x420, 0x3a1, 0xff32} then 0x52
      else if c \<in> {0x422, 0x3a4, 0xff34} then 0x54
      else if c \<in> {0x425, 0x3a7, 0xff38} then 0x58
      else c)"

definition normalize_homoglyphs :: "unicode \<Rightarrow> str \<Rightarrow> str" where
  "normalize_homoglyphs u s = lowercase u (of_chars (map deconfuse_char (chars s)))"

definition is_control :: "nat \<Rightarrow> bool" where
  "is_control cp = (cp = 0 \<or> (cp < 0x20 \<and> cp \<noteq> 9 \<and> cp \<noteq> 10 \<and> cp \<noteq> 13) \<or> cp = 0x7F
     \<or> (0x80 \<le> cp \<and> cp \<le> 0x9F) \<or> cp = 0xFEFF)"

definition check_control_injection :: "str \<Rightarrow> bpe_verdict option" where
  "check_control_injection txt =
     (case List.find (\<lambda>(i, c). is_control c) (char_indices txt) of
        Some (i, c) \<Rightarrow> Some \<lparr>threat = ControlInjection, technique = ''control_byte_injection'',
                           span_start = i, span_end = min (i + length (utf8_enc c)) (length txt)\<rparr>
      | None \<Rightarrow> None)"

definition whole_text :: "bpe_threat \<Rightarrow> str \<Rightarrow> str \<Rightarrow> bpe_verdict" where
  "whole_text th tech txt = \<lparr>threat = th, technique = tech, span_start = 0, span_end = min (length txt) 120\<rparr>"

definition split_targets :: "str list" where
  "split_targets = [
     ''ignoreall'', ''ignoreprevious'', ''disregardall'', ''overrideinstructions'',
     ''jailbreak'', ''danmode'', ''developermode'', ''bypasssafety'',
     ''actasif'', ''pretendyou'', ''norestrictions'', ''withoutrestrictions'',
     ''youarenow'', ''newrole'']"

text \<open>Some letter of the target is followed, at its first occurrence, by the next one only at a distance.\<close>

fun has_separators :: "str \<Rightarrow> str \<Rightarrow> bool" where
  "has_separators low (ch # nxt # rest) =
     ((case position (\<lambda>c. c = ch) low of
         None \<Rightarrow> False
       | Some p \<Rightarrow> (case position (\<lambda>c. c = nxt) (drop p low) of None \<Rightarrow> False | Some q \<Rightarrow> q > 1))
      \<or> has_separators low (nxt # rest))"
| "has_separators low _ = False"

fun split_loop :: "str \<Rightarrow> str \<Rightarrow> str \<Rightarrow> str list \<Rightarrow> bpe_verdict option option" where
  "split_loop txt low collapsed [] = Some None"
| "split_loop txt low collapsed (target # targets) =
     (if contains collapsed target \<and> has_separators low target
      then if is_char_boundary collapsed (min (length collapsed) 40)
           then Some (Some (whole_text TokenSplitting ''token_split_smuggling'' txt))
           else None
      else split_loop txt low collapsed targets)"

definition collapse :: "unicode \<Rightarrow> str \<Rightarrow> str" where
  "collapse u txt = lowercase u (of_chars (filter (is_alphanumeric u) (chars txt)))"

definition check_token_splitting :: "unicode \<Rightarrow> str \<Rightarrow> bpe_verdict option option" where
  "check_token_splitting u txt = split_loop txt (lowercase u txt) (collapse u txt) split_targets"

subsection \<open>Decoders\<close>

definition hex_nibble :: "nat \<Rightarrow> nat option" where
  "hex_nibble b = (if 48 \<le> b \<and> b \<le> 57 then Some (b - 48)
     else if 97 \<le> b \<and> b \<le> 102 then Some (b - 97 + 10)
     else if 65 \<le> b \<and> b \<le> 70 then Some (b - 65 + 10) else None)"

fun url_decode_bytes :: "nat list \<Rightarrow> nat list" where
  "url_decode_bytes (c # h # l # rest) =
     (case (hex_nibble h, hex_nibble l) of
        (Some hi, Some lo) \<Rightarrow>
          (if c = 37 \<and> 0x20 \<le> hi * 16 + lo \<and> hi * 16 + lo \<le> 0x7E
           then (hi * 16 + lo) # url_decode_bytes rest
           else c # url_decode_bytes (h # l # rest))
      | _ \<Rightarrow> c # url_decode_bytes (h # l # rest))"
| "url_decode_bytes (c # cs) = c # url_decode_bytes cs"
| "url_decode_bytes [] = []"

definition url_decode :: "str \<Rightarrow> str" where
  "url_decode s = from_utf8_lossy (of_codes (url_decode_bytes (codes s)))"

fun base64_runs :: "nat option \<Rightarrow> nat list \<Rightarrow> (nat \<times> nat) list \<Rightarrow> (nat \<times> nat list) list" where
  "base64_runs start run [] =
     (if 16 \<le> length run then [((case start of Some s \<Rightarrow> s | None \<Rightarrow> 0), run)] else [])"
| "base64_runs start run ((i, c) # rest) =
     (if ascii_alnum c \<or> c = 43 \<or> c = 47 \<or> c = 61
      then base64_runs (case start of Some s \<Rightarrow> Some s | None \<Rightarrow> Some i) (run @ [c]) rest
      else (if 16 \<le> length run then [(the start, run)] else []) @ base64_runs None [] rest)"

definition find_base64_blocks :: "str \<Rightarrow> (nat \<times> nat list) list" where
  "find_base64_blocks txt = base64_runs None [] (char_indices txt)"

definition b64_char_to_val :: "nat \<Rightarrow> nat option" where
  "b64_char_to_val c =
     (if 65 \<le> c \<and> c \<le> 90 then Some (c - 65)
      else if 97 \<le> c \<and> c \<le> 122 then Some (c - 97 + 26)
      else if 48 \<le> c \<and> c \<le> 57 then Some (c - 48 + 52)
      else if c = 43 then Some 62 else if c = 47 then Some 63 else None)"

fun quads :: "nat list \<Rightarrow> nat list" where
  "quads (a # b # c # d # rest) =
     (a * 4 + b div 16) # (b mod 16 * 16 + c div 4) # (c mod 4 * 64 + d) # quads rest"
| "quads _ = []"

definition try_base64_decode :: "nat list \<Rightarrow> nat list option" where
  "try_base64_decode s =
     (let vals = List.map_filter b64_char_to_val (trim_end_matches (\<lambda>c. c = 61) s)
      in if length vals < 8 then None
         else let out = quads vals
              in if list_ex (\<lambda>b. b < 0x20 \<and> b \<noteq> 10 \<and> b \<noteq> 9 \<and> b \<noteq> 13) out then None else Some out)"

fun hex_pairs :: "nat list \<Rightarrow> nat list" where
  "hex_pairs (h # l # rest) =
     (case (hex_nibble h, hex_nibble l) of
        (Some hi, Some lo) \<Rightarrow> (hi * 16 + lo) # hex_pairs rest
      | _ \<Rightarrow> hex_pairs rest)"
| "hex_pairs _ = []"

definition try_hex_decode :: "str \<Rightarrow> nat list option" where
  "try_hex_decode txt =
     (let hex_seq = filter ascii_hexdigit (chars txt)
      in if length hex_seq < 16 then None else Some (hex_pairs hex_seq))"

definition prohibited_in :: "str \<Rightarrow> bool" where
  "prohibited_in s = list_ex (contains s) prohibited_decoded"

definition check_base64_blocks :: "unicode \<Rightarrow> str \<Rightarrow> bpe_verdict option" where
  "check_base64_blocks u txt =
     (case List.find (\<lambda>(start, cand).
             case try_base64_decode cand of
               None \<Rightarrow> False
             | Some d \<Rightarrow> prohibited_in (normalize_homoglyphs u (from_utf8_lossy (of_codes d))))
           (find_base64_blocks txt) of
        Some (start, cand) \<Rightarrow>
          Some \<lparr>threat = EncodedPayload, technique = ''base64_encoded_prohibited'', span_start = start,
                span_end = min (start + length cand) (length txt)\<rparr>
      | None \<Rightarrow> None)"

definition check_encoded_payloads :: "unicode \<Rightarrow> str \<Rightarrow> bpe_verdict option" where
  "check_encoded_payloads u txt =
     (if url_decode txt \<noteq> txt \<and> prohibited_in (normalize_homoglyphs u (url_decode txt))
      then Some (whole_text EncodedPayload ''url_encoded_prohibited'' txt)
      else case check_base64_blocks u txt of
        Some v \<Rightarrow> Some v
      | None \<Rightarrow>
          (case try_hex_decode txt of
             None \<Rightarrow> None
           | Some d \<Rightarrow>
               if prohibited_in (normalize_homoglyphs u (from_utf8_lossy (of_codes d)))
               then Some (whole_text EncodedPayload ''hex_encoded_prohibited'' txt) else None))"

definition unicode_script :: "nat \<Rightarrow> str" where
  "unicode_script cp =
     (if 0x41 \<le> cp \<and> cp \<le> 0x7E then ''Latin''
      else if 0xC0 \<le> cp \<and> cp \<le> 0x24F then ''Latin''
      else if 0x400 \<le> cp \<and> cp \<le> 0x4FF then ''Cyrillic''
      else if 0x370 \<le> cp \<and> cp \<le> 0x3FF then ''Greek''
      else if 0x600 \<le> cp \<and> cp \<le> 0x6FF then ''Arabic''
      else if 0x900 \<le> cp \<and> cp \<le> 0x97F then ''Devanagari''
      else if 0x4E00 \<le> cp \<and> cp \<le> 0x9FFF then ''CJK''
      else if 0x3040 \<le> cp \<and> cp \<le> 0x309F then ''Hiragana''
      else if 0x30A0 \<le> cp \<and> cp \<le> 0x30FF then ''Katakana''
      else if 0x20 \<le> cp \<and> cp \<le> 0x40 then ''Common''
      else if 0x2000 \<le> cp \<and> cp \<le> 0x206F then ''Common''
      else ''Unknown'')"

definition scripts_of :: "str \<Rightarrow> str list" where
  "scripts_of txt = filter (\<lambda>s. s \<noteq> ''Common'' \<and> s \<noteq> ''Unknown'') (map unicode_script (chars txt))"

definition check_polyglot :: "str \<Rightarrow> bpe_verdict option" where
  "check_polyglot txt =
     (let scripts = scripts_of txt
      in if length (remdups scripts) > 1
            \<and> list_ex (\<lambda>s. s \<noteq> ''Latin'' \<and> length (filter (\<lambda>x. x = s) scripts) > 5) (remdups scripts)
         then Some (whole_text PolyglotMixing ''polyglot_script_mixing'' txt) else None)"

definition check_homoglyphs :: "unicode \<Rightarrow> str \<Rightarrow> bpe_verdict option" where
  "check_homoglyphs u txt =
     (let normalized = normalize_homoglyphs u txt
      in if normalized = lowercase u txt then None
         else if prohibited_in normalized
         then Some (whole_text HomoglyphAttack ''homoglyph_substitution'' txt) else None)"

definition jailbreak_phrases :: "str list" where
  "jailbreak_phrases = [''ignore'', ''bypass'', ''override'', ''disregard'', ''jailbreak'', ''dan'']"

definition check_repetition :: "unicode \<Rightarrow> str \<Rightarrow> bpe_verdict option" where
  "check_repetition u txt =
     (if list_ex (\<lambda>phrase. 5 \<le> count_matches phrase (lowercase u txt)) jailbreak_phrases
      then Some (whole_text RepetitionAmplification ''repetition_jailbreak'' txt) else None)"

definition bpe_clean :: bpe_verdict where
  "bpe_clean = \<lparr>threat = ThreatNone, technique = ''clean'', span_start = 0, span_end = 0\<rparr>"

definition bpe_scan :: "unicode \<Rightarrow> str \<Rightarrow> bpe_verdict option" where
  "bpe_scan u txt =
     (case check_control_injection txt of Some v \<Rightarrow> Some v | None \<Rightarrow>
      case check_homoglyphs u txt of Some v \<Rightarrow> Some v | None \<Rightarrow>
      case check_token_splitting u txt of None \<Rightarrow> None | Some (Some v) \<Rightarrow> Some v | Some None \<Rightarrow>
      case check_encoded_payloads u txt of Some v \<Rightarrow> Some v | None \<Rightarrow>
      case check_polyglot txt of Some v \<Rightarrow> Some v | None \<Rightarrow>
      case check_repetition u txt of Some v \<Rightarrow> Some v | None \<Rightarrow> Some bpe_clean)"

end
