(* ===== verification/Detector.thy ===== *)
theory Detector
  imports Redaction Bpe Reputation
begin

text \<open>
  The fast-path detector (\<open>detect/mod.rs\<close>) with the pattern tables of
  \<open>detect/patterns.rs\<close>. The regular-expression engine is a parameter: which
  patterns match a text, where, and whether the numeric pre-filter matches. The
  literal pre-filter is Aho-Corasick membership, that is, some literal occurs.
  Panics (a slice that cuts a character) are the result \<open>None\<close>.
\<close>

subsection \<open>Pattern tables (\<open>detect/patterns.rs\<close>)\<close>

definition pattern_meta :: "(str \<times> str \<times> f64) list" where
  "pattern_meta = [
     (''SSN'', ''critical'', tenths 91),
     (''CREDIT_CARD'', ''critical'', tenths 91),
     (''OPENAI_KEY'', ''critical'', tenths 98),
     (''ANTHROPIC_KEY'', ''critical'', tenths 98),
     (''AWS_KEY'', ''critical'', tenths 98),
     (''GITHUB_TOKEN'', ''high'', tenths 88),
     (''STRIPE_KEY'', ''critical'', tenths 95),
     (''PRIVATE_KEY'', ''critical'', tenths 99),
     (''SENDGRID_KEY'', ''high'', tenths 85),
     (''HUGGINGFACE_KEY'', ''high'', tenths 85),
     (''GITLAB_TOKEN'', ''high'', tenths 88),
     (''EMAIL'', ''medium'', tenths 53),
     (''PHONE'', ''medium'', tenths 43),
     (''JAILBREAK'', ''high'', tenths 75)]"

definition negation_words :: "str list" where
  "negation_words = [''example'', ''placeholder'', ''sample'', ''test'', ''fake'', ''dummy'', ''redacted'',
     ''xxx'', ''your-'', ''<your'', ''[your'', ''XXXX'', ''####'']"

definition literal_prefixes :: "str list" where
  "literal_prefixes = [
     ''sk-'', ''sk_'', ''sk-ant-'', ''ghp_'', ''gho_'', ''ghu_'', ''ghs_'', ''ghr_'', ''github_pat_'',
     ''AKIA'', ''AGPA'', ''AIDA'', ''AROA'', ''AIPA'', ''ANPA'', ''ANVA'', ''ASIA'',
     ''glpat-'', ''hf_'', ''SG.'', ''-----BEGIN'', ''@'',
     ''ignore'', ''IGNORE'', ''Ignore'', ''bypass'', ''BYPASS'', ''Bypass'',
     ''override'', ''Override'', ''OVERRIDE'', ''disregard'', ''forget'',
     ''act as'', ''Act as'', ''DAN'', ''jailbreak'']"

record detect_env =
  de_unicode :: unicode
  de_digest :: "str \<Rightarrow> bytes"
  de_numeric :: "str \<Rightarrow> bool"
  de_matches :: "str \<Rightarrow> nat list"
  de_find :: "nat \<Rightarrow> str \<Rightarrow> (nat \<times> nat) list"

definition ac_is_match :: "str \<Rightarrow> bool" where
  "ac_is_match s = list_ex (contains s) literal_prefixes"

definition prefilter_matches :: "detect_env \<Rightarrow> str \<Rightarrow> bool" where
  "prefilter_matches env s = (ac_is_match s \<or> de_numeric env s)"

definition has_negation_context :: "detect_env \<Rightarrow> str \<Rightarrow> nat \<Rightarrow> nat \<Rightarrow> bool option" where
  "has_negation_context env s match_start window =
     (let lo = match_start - window;
          hi = min (match_start + window) (length s)
      in if lo \<le> hi \<and> is_char_boundary s lo \<and> is_char_boundary s hi
         then Some (list_ex (contains (lowercase (de_unicode env) (sub_slice lo hi s))) negation_words)
         else None)"

subsection \<open>Verdicts\<close>

datatype ambiguous_reason = MediumRisk | NerKeywords | HighEntropyOnly

datatype detect_verdict =
    Clean
  | VBlock (vb_types: "str list") (vb_risk: f64) (vb_severity: str) (vb_spans: "redact_span list")
  | VRedact (vr_types: "str list") (vr_risk: f64) (vr_text: str)
  | VRouteLocal (vl_types: "str list") (vl_risk: f64) (vl_spans: "redact_span list")
  | Ambiguous (va_risk: f64) (va_reason: ambiguous_reason)

definition ner_keywords :: "str list" where
  "ner_keywords = [''my name is'', ''i live at'', ''my address is'', ''date of birth'', ''born on'',
     ''residing at'', ''passport number'', ''driver license'',
     ''my mother'' @ [CHR 0x27] @ ''s maiden name'', ''my father'' @ [CHR 0x27] @ ''s name'',
     ''i am located'', ''social security'', ''tax id'', ''national id'']"

definition RISK_BLOCK :: f64 where "RISK_BLOCK = Fin 80"
definition RISK_REDACT_LOW :: f64 where "RISK_REDACT_LOW = Fin 60"
definition RISK_AMBIGUOUS :: f64 where "RISK_AMBIGUOUS = Fin 35"

definition secret_block_types :: "str list" where
  "secret_block_types = [''OPENAI_KEY'', ''ANTHROPIC_KEY'', ''AWS_KEY'', ''STRIPE_KEY'', ''GITHUB_TOKEN'',
     ''PRIVATE_KEY'', ''JWT_TOKEN'']"

subsection \<open>Normalisation and encoded variants\<close>

definition url_decode_minimal :: "str \<Rightarrow> str" where
  "url_decode_minimal s =
     (case from_utf8 (of_codes (url_decode_bytes (codes s))) of Some out \<Rightarrow> out | None \<Rightarrow> s)"

definition encoded_type :: "str \<Rightarrow> str option" where
  "encoded_type s =
     (if contains s ''sk-ant-'' then Some ''ANTHROPIC_KEY''
      else if starts_with s ''sk-proj-'' \<or> (starts_with s ''sk-'' \<and> length s > 20) then Some ''OPENAI_KEY''
      else if starts_with s ''ghp_'' \<or> starts_with s ''github_pat_'' then Some ''GITHUB_TOKEN''
      else if length s \<ge> 16 \<and> (contains s ''AKIA'' \<or> contains s ''AGPA'' \<or> contains s ''ASIA'') then Some ''AWS_KEY''
      else None)"

definition token_type :: "str \<Rightarrow> str option" where
  "token_type token =
     (if length token < 28 then None
      else Option.bind (Option.bind (base64_decode_standard token) from_utf8) encoded_type)"

fun encoded_hits :: "str \<Rightarrow> nat \<Rightarrow> str list \<Rightarrow> (nat \<times> nat \<times> str) list" where
  "encoded_hits s from [] = []"
| "encoded_hits s from (token # tokens) =
     (case token_type token of
        None \<Rightarrow> encoded_hits s from tokens
      | Some pt \<Rightarrow>
          (case find_sub (drop from s) token of
             None \<Rightarrow> encoded_hits s from tokens
           | Some pos \<Rightarrow> (from + pos, from + pos + length token, pt)
                         # encoded_hits s (from + pos + length token) tokens))"

definition ascii_whitespace :: "char \<Rightarrow> bool" where
  "ascii_whitespace c = ((of_char c :: nat) \<in> {32, 9, 10, 12, 13})"

definition scan_encoded_variants :: "str \<Rightarrow> (nat \<times> nat \<times> str) list" where
  "scan_encoded_variants s = encoded_hits s 0 (split_whitespace ascii_whitespace s)"

subsection \<open>The scan\<close>

record findings =
  f_types :: "str list"
  f_spans :: "redact_span list"
  f_cvss :: f64
  f_severity :: str
  f_jailbreak :: bool

definition no_findings :: findings where
  "no_findings = \<lparr>f_types = [], f_spans = [], f_cvss = Fin 0, f_severity = ''none'', f_jailbreak = False\<rparr>"

definition add_type :: "str \<Rightarrow> str list \<Rightarrow> str list" where
  "add_type t ts = (if t \<in> set ts then ts else ts @ [t])"

definition raise_cvss :: "f64 \<Rightarrow> str \<Rightarrow> findings \<Rightarrow> findings" where
  "raise_cvss cvss sev f = (if fgt cvss (f_cvss f) then f\<lparr>f_cvss := cvss, f_severity := sev\<rparr> else f)"

text \<open>The matches of one pattern that are confirmed, or a panic.\<close>

fun confirm_matches :: "detect_env \<Rightarrow> str \<Rightarrow> str \<Rightarrow> bool \<Rightarrow> (nat \<times> nat) list \<Rightarrow> redact_span list option" where
  "confirm_matches env s ty negatable [] = Some []"
| "confirm_matches env s ty negatable ((a, b) # ms) =
     Option.bind (if negatable then has_negation_context env s a 60 else Some False) (\<lambda>negated.
       Option.bind (confirm_matches env s ty negatable ms) (\<lambda>more.
         Some (if negated \<or> (ty = ''CREDIT_CARD'' \<and> \<not> luhn_valid (filter ascii_digitp (sub_slice a b s)))
               then more else \<lparr>sp_start = a, sp_end = b, sp_type = ty\<rparr> # more)))"

definition scan_pattern :: "detect_env \<Rightarrow> str \<Rightarrow> findings \<Rightarrow> nat \<Rightarrow> findings option" where
  "scan_pattern env s f ix =
     (if length pattern_meta \<le> ix then None
      else let (ty, sev, cvss) = pattern_meta ! ix;
               negatable = (sev \<noteq> ''critical'' \<and> sev \<noteq> ''high'')
           in Option.bind (confirm_matches env s ty negatable (de_find env ix s)) (\<lambda>confirmed.
                if confirmed = [] then Some f
                else let f1 = raise_cvss cvss sev (f\<lparr>f_types := add_type ty (f_types f)\<rparr>);
                         f2 = (if ty = ''JAILBREAK'' then f1\<lparr>f_jailbreak := True\<rparr> else f1)
                     in Some (f2\<lparr>f_spans := f_spans f2 @ confirmed\<rparr>)))"

fun scan_patterns :: "detect_env \<Rightarrow> str \<Rightarrow> findings \<Rightarrow> nat list \<Rightarrow> findings option" where
  "scan_patterns env s f [] = Some f"
| "scan_patterns env s f (ix # ixs) = Option.bind (scan_pattern env s f ix) (\<lambda>f'. scan_patterns env s f' ixs)"

definition add_encoded :: "findings \<Rightarrow> nat \<times> nat \<times> str \<Rightarrow> findings" where
  "add_encoded f h =
     (case h of (a, b, pt) \<Rightarrow>
        raise_cvss (tenths 98) ''critical''
          (f\<lparr>f_types := add_type pt (f_types f),
             f_spans := f_spans f @ [\<lparr>sp_start = a, sp_end = b, sp_type = pt\<rparr>]\<rparr>))"

definition decide :: "str \<Rightarrow> findings \<Rightarrow> entropy_result \<Rightarrow> structural_hit_rec list \<Rightarrow> bool \<Rightarrow> detect_verdict option" where
  "decide s f ent hits ner =
     (let types = foldl (\<lambda>ts h. add_type (kind_as_str (sh_kind h)) ts) (f_types f) hits;
          risk = composite_score \<lparr>max_cvss = f_cvss f, pii_count = length types,
            high_entropy = high_entropy_found ent, entropy_contribution = risk_contribution ent,
            structural_hit = (hits \<noteq> []), jailbreak = f_jailbreak f\<rparr>
      in if f_jailbreak f then Some (VBlock types risk ''critical'' (f_spans f))
         else if list_ex (\<lambda>t. t \<in> set secret_block_types) types
         then Some (VBlock types risk ''critical'' (f_spans f))
         else if fge risk RISK_BLOCK \<and> f_severity f = ''critical'' \<and> types \<noteq> []
         then Some (VBlock types risk (f_severity f) (f_spans f))
         else if (fge risk RISK_REDACT_LOW \<or> f_severity f = ''critical'') \<and> f_spans f \<noteq> []
         then map_option (VRedact types risk) (redact s (f_spans f))
         else if fge risk RISK_AMBIGUOUS \<and> types \<noteq> [] \<and> \<not> ner then Some (VRouteLocal types risk (f_spans f))
         else if ner \<and> types = [] then Some (Ambiguous risk NerKeywords)
         else if high_entropy_found ent \<and> types = [] then Some (Ambiguous risk HighEntropyOnly)
         else if fge risk RISK_AMBIGUOUS then Some (Ambiguous risk MediumRisk)
         else Some Clean)"

definition ner_triggered :: "detect_env \<Rightarrow> str \<Rightarrow> bool" where
  "ner_triggered env s = list_ex (contains (lowercase (de_unicode env) s)) ner_keywords"

definition scan_normalized :: "detect_env \<Rightarrow> str \<Rightarrow> detect_verdict option" where
  "scan_normalized env s =
     (if \<not> prefilter_matches env s
      then let ent = entropy_verdict s
           in if high_entropy_found ent
              then Some (Ambiguous (fmax (risk_contribution ent) (Fin 35)) HighEntropyOnly)
              else if ner_triggered env s then Some (Ambiguous (Fin 36) NerKeywords)
              else Some Clean
      else Option.bind (scan_patterns env s no_findings (de_matches env s)) (\<lambda>f.
             decide s (foldl add_encoded f (scan_encoded_variants s)) (entropy_verdict s)
               (scan_structural s) (ner_triggered env s)))"

definition scan :: "detect_env \<Rightarrow> str \<Rightarrow> detect_verdict option" where
  "scan env txt =
     (case bpe_scan (de_unicode env) txt of
        None \<Rightarrow> None
      | Some bpe \<Rightarrow>
          if threat bpe \<noteq> ThreatNone
          then Some (VBlock [''BPE:'' @ technique bpe] (Fin 95) ''critical''
                 [\<lparr>sp_start = span_start bpe, sp_end = span_end bpe, sp_type = technique bpe\<rparr>])
          else let hit = rep_check (de_digest env) (de_unicode env) (with_seed (de_digest env) (de_unicode env)) txt
               in if matched hit
                  then Some (VBlock [''KNOWN_BAD:'' @ kind hit] (Fin 96) ''critical'' [])
                  else scan_normalized env (url_decode_minimal txt))"

subsection \<open>Confirmed critical findings dominate the severity\<close>

lemma tenths_less:
  assumes "0 \<le> m" "m < n" "n \<le> 100"
  shows "flt (tenths m) (tenths n)"
proof -
  obtain a where a: "tenths m = Fin a" "\<bar>a - of_int m / 10\<bar> \<le> 1 / 1000000000"
    using of_exact_close [of "of_int m / 10"] assms unfolding tenths_def by force
  obtain b where b: "tenths n = Fin b" "\<bar>b - of_int n / 10\<bar> \<le> 1 / 1000000000"
    using of_exact_close [of "of_int n / 10"] assms unfolding tenths_def by force
  have "real_of_int m + 1 \<le> real_of_int n" using assms(2) by linarith
  then have "a < b" using a(2) b(2) by linarith
  then show ?thesis using a b by simp
qed

lemma tenths_not_NaN [simp]: "tenths n \<noteq> NaN"
  by (simp add: tenths_def)

lemma tenths_le: "0 \<le> m \<Longrightarrow> m \<le> n \<Longrightarrow> n \<le> 100 \<Longrightarrow> fle (tenths m) (tenths n)"
  using tenths_less [of m n] by (cases "m = n") (auto simp: flt_def)

definition critical_types :: "str list" where
  "critical_types = [''SSN'', ''CREDIT_CARD'', ''OPENAI_KEY'', ''ANTHROPIC_KEY'', ''AWS_KEY'', ''STRIPE_KEY'', ''PRIVATE_KEY'']"

definition findings_ok :: "nat \<Rightarrow> findings \<Rightarrow> bool" where
  "findings_ok n f = (f_cvss f \<noteq> NaN
     \<and> (f_severity f = ''critical'' \<longleftrightarrow> fge (f_cvss f) (tenths 91))
     \<and> (\<forall>t\<in>set (f_types f). t \<in> set critical_types \<longrightarrow> f_severity f = ''critical'' \<and> f_spans f \<noteq> [])
     \<and> in_range n (f_spans f))"

lemma raise_cvss_sel [simp]:
  "f_types (raise_cvss c sev f) = f_types f" "f_spans (raise_cvss c sev f) = f_spans f"
  "f_jailbreak (raise_cvss c sev f) = f_jailbreak f"
  by (simp_all add: raise_cvss_def)

lemma set_add_type [simp]: "set (add_type t ts) = insert t (set ts)"
  by (auto simp: add_type_def)

text \<open>A finding whose severity label agrees with its score keeps the label and the maximum in step.\<close>

lemma raise_cvss_severity:
  assumes "f_cvss f \<noteq> NaN" "c \<noteq> NaN"
    and "f_severity f = ''critical'' \<longleftrightarrow> fge (f_cvss f) (tenths 91)" and "sev = ''critical'' \<longleftrightarrow> fge c (tenths 91)"
  shows "f_cvss (raise_cvss c sev f) \<noteq> NaN"
    and "f_severity (raise_cvss c sev f) = ''critical'' \<longleftrightarrow> fge (f_cvss (raise_cvss c sev f)) (tenths 91)"
    and "f_severity f = ''critical'' \<or> sev = ''critical'' \<Longrightarrow> f_severity (raise_cvss c sev f) = ''critical''"
proof -
  show "f_cvss (raise_cvss c sev f) \<noteq> NaN"
    and "f_severity (raise_cvss c sev f) = ''critical'' \<longleftrightarrow> fge (f_cvss (raise_cvss c sev f)) (tenths 91)"
    using assms by (simp_all add: raise_cvss_def)
  assume crit: "f_severity f = ''critical'' \<or> sev = ''critical''"
  show "f_severity (raise_cvss c sev f) = ''critical''"
  proof (cases "flt (f_cvss f) c")
    case True
    then have "fle (tenths 91) (f_cvss f) \<Longrightarrow> fle (tenths 91) c" using fle_trans by (auto simp: flt_def)
    then show ?thesis using crit assms True by (simp add: raise_cvss_def) blast
  next
    case False
    then have "fle c (f_cvss f)" using not_fle_iff [of c "f_cvss f"] assms by blast
    then have "fle (tenths 91) c \<Longrightarrow> fle (tenths 91) (f_cvss f)" using fle_trans by blast
    then show ?thesis using crit assms False by (simp add: raise_cvss_def) blast
  qed
qed

lemma pattern_meta_ok:
  assumes "(ty, sev, cvss) \<in> set pattern_meta"
  shows "cvss \<noteq> NaN \<and> (sev = ''critical'' \<longleftrightarrow> fge cvss (tenths 91))
    \<and> (ty \<in> set critical_types \<longleftrightarrow> sev = ''critical'')"
proof -
  have le: "fle (tenths 91) (tenths n)" if "91 \<le> n" "n \<le> 100" for n using that by (intro tenths_le) auto
  have nle: "\<not> fle (tenths 91) (tenths n)" if "0 \<le> n" "n < 91" for n
    using tenths_less [of n 91] that flt_not_fle by auto
  have "\<forall>(ty, sev, cvss)\<in>set pattern_meta. cvss \<noteq> NaN \<and> (sev = ''critical'' \<longleftrightarrow> fge cvss (tenths 91))
    \<and> (ty \<in> set critical_types \<longleftrightarrow> sev = ''critical'')"
    by (simp add: pattern_meta_def critical_types_def le nle)
  with assms show ?thesis by blast
qed

definition matches_in_range :: "detect_env \<Rightarrow> str \<Rightarrow> bool" where
  "matches_in_range env s = (\<forall>ix a b. (a, b) \<in> set (de_find env ix s) \<longrightarrow> a \<le> b \<and> b \<le> length s)"

lemma confirm_in_range:
  assumes "confirm_matches env s ty neg ms = Some spans" and "\<forall>(a, b)\<in>set ms. a \<le> b \<and> b \<le> n"
  shows "in_range n spans"
  using assms
  by (induction env s ty neg ms arbitrary: spans rule: confirm_matches.induct)
     (auto simp: in_range_def bind_eq_Some_conv split: if_splits)

lemma scan_pattern_ok:
  assumes "findings_ok (length s) f" and "matches_in_range env s" and "scan_pattern env s f ix = Some g"
  shows "findings_ok (length s) g"
proof -
  have ix: "ix < length pattern_meta" using assms(3) by (simp add: scan_pattern_def split: if_splits)
  obtain ty sev cvss where m: "pattern_meta ! ix = (ty, sev, cvss)" by (metis prod_cases3)
  then have "(ty, sev, cvss) \<in> set pattern_meta" using ix by (metis nth_mem)
  note meta = pattern_meta_ok [OF this]
  let ?f = "f\<lparr>f_types := add_type ty (f_types f)\<rparr>"
  obtain spans where c: "confirm_matches env s ty (sev \<noteq> ''critical'' \<and> sev \<noteq> ''high'') (de_find env ix s) = Some spans"
    and g: "spans = [] \<and> g = f \<or> spans \<noteq> [] \<and> f_types g = f_types ?f \<and> f_spans g = f_spans f @ spans
      \<and> f_cvss g = f_cvss (raise_cvss cvss sev ?f) \<and> f_severity g = f_severity (raise_cvss cvss sev ?f)"
    using assms(3) ix m by (auto simp: scan_pattern_def bind_eq_Some_conv Let_def split: if_splits)
  have "in_range (length s) spans"
    using assms(2) by (intro confirm_in_range [OF c]) (auto simp: matches_in_range_def)
  with g assms(1) meta raise_cvss_severity [of ?f cvss sev] show ?thesis
    by (auto simp: findings_ok_def in_range_def)
qed

definition pattern_step :: "detect_env \<Rightarrow> str \<Rightarrow> findings option \<Rightarrow> nat \<Rightarrow> findings option" where
  "pattern_step env s fo ix = Option.bind fo (\<lambda>f. scan_pattern env s f ix)"

lemma scan_patterns_foldl: "Option.bind fo (\<lambda>f. scan_patterns env s f ixs) = foldl (pattern_step env s) fo ixs"
proof (induction ixs arbitrary: fo)
  case (Cons ix ixs)
  have "Option.bind fo (\<lambda>f. scan_patterns env s f (ix # ixs))
    = Option.bind (pattern_step env s fo ix) (\<lambda>f. scan_patterns env s f ixs)"
    by (cases fo) (simp_all add: pattern_step_def)
  with Cons show ?case by simp
qed (cases fo; simp)

lemma no_findings_ok: "findings_ok n no_findings"
proof -
  have "flt (Fin 0) (tenths 91)" using tenths_less [of 0 91] by (simp add: tenths_def)
  then have "\<not> fge (Fin 0) (tenths 91)" using flt_not_fle by blast
  then show ?thesis by (simp add: findings_ok_def no_findings_def in_range_def)
qed

interpretation patterns: invariant_machine "Some no_findings" "pattern_step env s"
  "\<lambda>fo. matches_in_range env s \<longrightarrow> (\<forall>f. fo = Some f \<longrightarrow> findings_ok (length s) f)"
  for env s
  by unfold_locales (auto simp: no_findings_ok pattern_step_def bind_eq_Some_conv intro: scan_pattern_ok)

lemma scan_patterns_ok:
  assumes "matches_in_range env s" and "scan_patterns env s no_findings ixs = Some f"
  shows "findings_ok (length s) f"
  using patterns.run_inv [of env s ixs] assms scan_patterns_foldl [of "Some no_findings" env s ixs] by simp

lemma encoded_hits_in_range:
  "from \<le> length s \<Longrightarrow> (a, b, pt) \<in> set (encoded_hits s from tokens) \<Longrightarrow> a \<le> b \<and> b \<le> length s"
proof (induction s "from" tokens rule: encoded_hits.induct)
  case (2 s "from" token tokens)
  show ?case
  proof (cases "find_sub (drop from s) token")
    case None
    with 2 show ?thesis by (auto split: option.splits)
  next
    case (Some pos)
    then have "from + pos + length token \<le> length s" using find_sub_Some [OF Some] "2.prems"(1) by auto
    with 2 Some show ?thesis by (auto split: option.splits)
  qed
qed simp

lemma add_encoded_ok:
  assumes "findings_ok n f" and "a \<le> b" and "b \<le> n"
  shows "findings_ok n (add_encoded f (a, b, pt))"
proof -
  let ?f = "f\<lparr>f_types := add_type pt (f_types f), f_spans := f_spans f @ [\<lparr>sp_start = a, sp_end = b, sp_type = pt\<rparr>]\<rparr>"
  have "fle (tenths 91) (tenths 98)" by (intro tenths_le) simp_all
  then show ?thesis
    using assms raise_cvss_severity [of ?f "tenths 98" "''critical''"]
    by (auto simp: findings_ok_def add_encoded_def in_range_def)
qed

lemma foldl_add_encoded_ok:
  "findings_ok n f \<Longrightarrow> \<forall>(a, b, pt)\<in>set hs. a \<le> b \<and> b \<le> n \<Longrightarrow> findings_ok n (foldl add_encoded f hs)"
  by (induction hs arbitrary: f) (auto intro: add_encoded_ok)

lemma foldl_add_encoded_types: "set (f_types f) \<subseteq> set (f_types (foldl add_encoded f hs))"
proof (induction hs arbitrary: f)
  case (Cons h hs)
  have "set (f_types f) \<subseteq> set (f_types (add_encoded f h))" by (cases h) (auto simp: add_encoded_def)
  with Cons show ?case by fastforce
qed simp

lemma redact_total: "in_range (length s) spans \<Longrightarrow> \<exists>r. redact s spans = Some r"
  using redact_bytes_ref by (auto simp: redact_def split: option.splits)

lemma decide_critical:
  assumes "f_severity f = ''critical''" and "f_spans f \<noteq> []" and "in_range (length s) (f_spans f)"
  shows "\<exists>types risk. (\<exists>spans. decide s f ent hits ner = Some (VBlock types risk ''critical'' spans))
           \<or> (\<exists>r. decide s f ent hits ner = Some (VRedact types risk r))"
  using redact_total [OF assms(3)] assms(1,2) by (auto simp: decide_def Let_def)

text \<open>
  C6: confirmed critical data never leaves in the clear. If the pattern scan
  confirms a social security or card number or one of the critical keys, the verdict
  of the scan is a block or a redaction, never a routing, an ambiguity or clean.
\<close>

theorem critical_blocked_or_redacted:
  assumes "prefilter_matches env s" and "matches_in_range env s"
    and "scan_patterns env s no_findings (de_matches env s) = Some f"
    and "t \<in> set (f_types f)" and "t \<in> set critical_types"
  shows "\<exists>types risk. (\<exists>spans. scan_normalized env s = Some (VBlock types risk ''critical'' spans))
           \<or> (\<exists>r. scan_normalized env s = Some (VRedact types risk r))"
proof -
  let ?f = "foldl add_encoded f (scan_encoded_variants s)"
  have "findings_ok (length s) ?f"
    using scan_patterns_ok [OF assms(2,3)] encoded_hits_in_range [of 0 s]
    by (intro foldl_add_encoded_ok) (auto simp: scan_encoded_variants_def)
  moreover have "t \<in> set (f_types ?f)" using foldl_add_encoded_types assms(4) by blast
  ultimately have "f_severity ?f = ''critical''" "f_spans ?f \<noteq> []" "in_range (length s) (f_spans ?f)"
    using assms(5) by (auto simp: findings_ok_def)
  from decide_critical [OF this] show ?thesis using assms(1,3) by (simp add: scan_normalized_def)
qed

subsection \<open>Evaluation of the scan on concrete texts\<close>

lemmas scan_eval = chars_def char_indices_def List.map_filter_def seq_len_def second_ok_def contb_def lowercase_def is_ascii_def to_lowercase_def char_lower_def ascii_upperp_def
  of_chars_def of_codes_def utf8_enc_def Let_def char_of_def bit_0

definition ssn_env :: detect_env where
  "ssn_env = \<lparr>de_unicode = \<lparr>uc_lower = id, uc_alnum = (\<lambda>_. False)\<rparr>, de_digest = (\<lambda>_. []), de_numeric = (\<lambda>_. True),
     de_matches = (\<lambda>_. [0]), de_find = (\<lambda>ix s. if ix = 0 then [(0, length s)] else [])\<rparr>"

theorem critical_blocked_or_redacted_witness:
  "\<exists>types risk. (\<exists>spans. scan_normalized ssn_env ''123-45-6789'' = Some (VBlock types risk ''critical'' spans))
           \<or> (\<exists>r. scan_normalized ssn_env ''123-45-6789'' = Some (VRedact types risk r))"
proof (rule critical_blocked_or_redacted [where t = "''SSN''"])
  show "scan_patterns ssn_env ''123-45-6789'' no_findings (de_matches ssn_env ''123-45-6789'')
    = Some ((raise_cvss (tenths 91) ''critical'' (no_findings\<lparr>f_types := [''SSN'']\<rparr>))
        \<lparr>f_spans := [\<lparr>sp_start = 0, sp_end = 11, sp_type = ''SSN''\<rparr>]\<rparr>)"
    by (simp add: ssn_env_def scan_pattern_def pattern_meta_def add_type_def no_findings_def Let_def raise_cvss_def)
qed (simp_all add: prefilter_matches_def ssn_env_def matches_in_range_def critical_types_def)

lemma classify_short:
  assumes "46 \<notin> set token" and "length (of_chars token) < 32"
  shows "classify_token token base = None"
proof -
  have "dropWhile (\<lambda>c. c \<noteq> 46) token = []" using assms(1) by (metis (mono_tags) dropWhile_eq_Nil_conv)
  then have "splitn (Suc (Suc (Suc (Suc 0)))) 46 token = [token]" by (simp only: splitn.simps list.case)
  then show ?thesis
    using assms by (simp add: classify_token_def try_jwt_def try_base64_blob_def try_hex_blob_def eval_nat_numeral)
qed

lemma phone_chars: "split_by struct_delim (chars ''call 555-123-4567'') = [codes ''call'', codes ''555-123-4567'']"
  by (simp add: scan_eval struct_delim_def is_whitespace_def codes_def)

lemma phone_struct: "scan_structural ''call 555-123-4567'' = []"
  unfolding scan_structural_def phone_chars
  by (simp add: trim_matches_def struct_trim_def classify_short of_chars_def utf8_enc_def of_codes_def)

lemma phone_ent: "entropy_verdict ''call 555-123-4567'' =
    \<lparr>high_entropy_found = False, max_entropy = Fin 0, risk_contribution = Fin 0, top_token = None\<rparr>"
  by (rule entropy_verdict_short) (simp add: is_delimiter_def)

lemma phone_enc: "scan_encoded_variants ''call 555-123-4567'' = []"
  by (simp add: scan_encoded_variants_def split_whitespace_def ascii_whitespace_def token_type_def)

lemma phone_ner: "ner_triggered env ''call 555-123-4567'' = False"
  by (simp add: ner_triggered_def ner_keywords_def scan_eval starts_with_def)

lemma phone_neg: "has_negation_context env ''call 555-123-4567'' 5 60 = Some False"
  by (simp add: has_negation_context_def negation_words_def scan_eval starts_with_def is_char_boundary_def sub_slice_def)

text \<open>
  A text whose only finding is a telephone number scores below the
  lowest threshold and is reported clean, so the finding never reaches the policy
  engine and the rule that would keep low-risk contact data local cannot fire.
\<close>

lemma lone_phone_scans_clean:
  assumes "de_numeric env ''call 555-123-4567''" and "de_matches env ''call 555-123-4567'' = [12]"
    and "de_find env 12 ''call 555-123-4567'' = [(5, 17)]"
  shows "scan_normalized env ''call 555-123-4567'' = Some Clean"
proof -
  have lt: "flt (Fin 0) (tenths 43)" using tenths_less [of 0 43] by (simp add: tenths_def)
  obtain r where r: "composite_score \<lparr>max_cvss = tenths 43, pii_count = 1, high_entropy = False,
      entropy_contribution = Fin 0, structural_hit = False, jailbreak = False\<rparr> = Fin r"
    "\<bar>r - (6 * of_int 43 / 10 + 4)\<bar> \<le> 1 / 1000000" by (rule single_finding_score [of 43 False]) simp_all
  have "r < 35" using r(2) by linarith
  have "scan_patterns env ''call 555-123-4567'' no_findings (de_matches env ''call 555-123-4567'')
    = Some \<lparr>f_types = [''PHONE''], f_spans = [\<lparr>sp_start = 5, sp_end = 17, sp_type = ''PHONE''\<rparr>],
        f_cvss = tenths 43, f_severity = ''medium'', f_jailbreak = False\<rparr>"
    using assms lt
    by (simp add: scan_pattern_def pattern_meta_def phone_neg raise_cvss_def no_findings_def add_type_def Let_def)
  then show ?thesis
    using assms(1) r(1) \<open>r < 35\<close> unfolding scan_normalized_def phone_struct phone_ent phone_enc phone_ner
    by (simp add: prefilter_matches_def decide_def Let_def RISK_BLOCK_def RISK_REDACT_LOW_def RISK_AMBIGUOUS_def secret_block_types_def)
qed

definition dan_text :: str where
  "dan_text = ''do anything now''"

lemma dan_control: "check_control_injection dan_text = None"
  by (simp add: dan_text_def check_control_injection_def scan_eval is_control_def)
lemma dan_homoglyph: "check_homoglyphs u dan_text = None"
  by (simp add: dan_text_def check_homoglyphs_def scan_eval normalize_homoglyphs_def deconfuse_char_def)
lemma dan_collapse: "collapse u dan_text = ''doanythingnow''"
  by (simp add: dan_text_def collapse_def scan_eval is_alphanumeric_def ascii_alnum_def)
lemma dan_split: "check_token_splitting u dan_text = Some None"
  unfolding check_token_splitting_def dan_collapse by (simp add: split_targets_def starts_with_def)
lemma dan_encoded: "check_encoded_payloads u dan_text = None"
  by (simp add: dan_text_def check_encoded_payloads_def url_decode_def from_utf8_lossy_def scan_eval check_base64_blocks_def find_base64_blocks_def ascii_alnum_def try_hex_decode_def ascii_hexdigit_def hex_nibble_def)
lemma dan_polyglot: "check_polyglot dan_text = None"
  by (simp add: dan_text_def check_polyglot_def scripts_of_def scan_eval unicode_script_def)
lemma dan_repetition: "check_repetition u dan_text = None"
  by (simp add: dan_text_def check_repetition_def scan_eval jailbreak_phrases_def starts_with_def)

lemma dan_bpe: "bpe_scan u dan_text = Some bpe_clean"
  by (simp add: bpe_scan_def dan_control dan_homoglyph dan_split dan_encoded dan_polyglot dan_repetition)

lemma dan_url: "url_decode_minimal dan_text = dan_text"
  by (simp add: url_decode_minimal_def from_utf8_def dan_text_def scan_eval hex_nibble_def)

lemma dan_literals: "ac_is_match dan_text = False"
  by (simp add: ac_is_match_def literal_prefixes_def dan_text_def starts_with_def)

lemma dan_entropy: "high_entropy_found (entropy_verdict dan_text) = False"
  by (subst entropy_verdict_short) (simp_all add: dan_text_def is_delimiter_def)

lemma dan_ner: "ner_triggered env dan_text = False"
  by (simp add: ner_triggered_def ner_keywords_def dan_text_def scan_eval starts_with_def)

text \<open>
  The literal pre-filter is not complete for the patterns it guards.
  The jailbreak pattern has the alternative \<open>do anything now\<close>, which contains
  none of the literals and no digit; whatever the pattern engine would report for this
  text, the scan never asks it and, unless the text is a registered known-bad one,
  answers clean.
\<close>

lemma prefilter_skips_jailbreak:
  assumes "de_numeric env dan_text = False"
    and "matched (rep_check (de_digest env) (de_unicode env) (with_seed (de_digest env) (de_unicode env)) dan_text) = False"
  shows "scan env dan_text = Some Clean"
  using assms
  by (simp add: scan_def dan_bpe bpe_clean_def dan_url scan_normalized_def prefilter_matches_def dan_literals
      dan_entropy dan_ner Let_def)


definition len_env :: detect_env where
  "len_env = \<lparr>de_unicode = \<lparr>uc_lower = id, uc_alnum = (\<lambda>_. False)\<rparr>, de_digest = (\<lambda>s. [of_nat (length s)]),
     de_numeric = (\<lambda>_. False), de_matches = (\<lambda>_. [13]), de_find = (\<lambda>ix s. [(0, 15)])\<rparr>"

lemma seed_lengths:
  "map (\<lambda>(t, i, k). (length (trim t), length (canonicalize u t))) seed = [(62, 62), (54, 54), (62, 62), (52, 52), (55, 55)]"
  by (simp add: seed_def canonicalize_def scan_eval leet_fold_def split_whitespace_def is_whitespace_def trim_def trim_matches_def)

lemma len_env_unmatched:
  "matched (rep_check (de_digest len_env) (de_unicode len_env) (with_seed (de_digest len_env) (de_unicode len_env)) dan_text) = False"
proof -
  let ?d = "de_digest len_env" and ?u = "de_unicode len_env"
  have d: "?d s = [of_nat (length s)]" for s by (simp add: len_env_def)
  have dan: "length (trim dan_text) = 15" "length (canonicalize ?u dan_text) = 15"
    by (simp_all add: dan_text_def canonicalize_def scan_eval leet_fold_def split_whitespace_def is_whitespace_def trim_def trim_matches_def)
  have len: "(t, i, k) \<in> set seed \<Longrightarrow> 15 < length (trim t) \<and> length (trim t) < 256 \<and> 15 < length (canonicalize ?u t) \<and> length (canonicalize ?u t) < 256" for t i k
  proof -
    assume "(t, i, k) \<in> set seed"
    then have "(length (trim t), length (canonicalize ?u t)) \<in> set (map (\<lambda>(t, i, k). (length (trim t), length (canonicalize ?u t))) seed)"
      by force
    then show ?thesis unfolding seed_lengths by auto
  qed
  have w: "(of_nat 15 :: byte) \<noteq> of_nat n" if "15 < n" "n < 256" for n
  proof
    assume "(of_nat 15 :: byte) = of_nat n"
    then have "unat (of_nat 15 :: byte) = unat (of_nat n :: byte)" by simp
    then show False using that by (simp add: unat_of_nat)
  qed
  have "exact_hash ?d dan_text \<notin> (\<lambda>x. exact_hash ?d (fst x)) ` set seed"
    using len w hex_of_inj by (fastforce simp: exact_hash_def d dan)
  moreover have "canonical_hash ?d ?u dan_text \<notin> (\<lambda>x. canonical_hash ?d ?u (fst x)) ` set seed"
    using len w hex_of_inj by (fastforce simp: canonical_hash_def d dan)
  ultimately have "map_of (by_exact (with_seed ?d ?u)) (exact_hash ?d dan_text) = None"
    "map_of (by_canon (with_seed ?d ?u)) (canonical_hash ?d ?u dan_text) = None"
    using with_seed_keys [of ?d ?u] by (auto simp: map_of_eq_None_iff)
  then show ?thesis by (simp add: rep_check_def miss_def)
qed

subsection \<open>Panics on texts that are not ASCII\<close>

text \<open>
  The negation window is cut out by byte offsets around a match without
  regard to character boundaries. For a match that starts 61 bytes into a text which
  begins with a two-byte character the scan of that pattern panics.
\<close>

lemma negation_window_panics:
  assumes "length rest = 100"
  shows "has_negation_context env (CHR 0xC3 # CHR 0xA9 # rest) 61 60 = None"
  by (simp add: has_negation_context_def is_char_boundary_def contb_def Let_def)

end
