(* ===== verification/Sessions.thy ===== *)
theory Sessions
  imports Utf8
begin

text \<open>
  Session-pinned routing (\<open>route/session.rs\<close>) and the contract of the
  session store (the trait \<open>DistributedState\<close> of \<open>store/mod.rs\<close>).
  The clock is passed in; a hash map is an
  association list whose order stands for the arbitrary iteration order.
\<close>

datatype route_pin = Local | Cloud

subsection \<open>The contract: sticky local pins\<close>

text \<open>
  The abstract store is the set of sessions pinned to the local model. A request
  is answered \<open>Local\<close> when it is sensitive or its session is in the set, and it
  joins the set in both cases; nothing leaves the set.
\<close>

definition pin_spec :: "str set \<Rightarrow> str \<times> bool \<Rightarrow> str set \<times> route_pin" where
  "pin_spec S r = (case r of (k, sensitive) \<Rightarrow>
     if sensitive \<or> k \<in> S then (insert k S, Local) else (S, Cloud))"

fun pin_spec_run :: "str set \<Rightarrow> (str \<times> bool) list \<Rightarrow> route_pin list" where
  "pin_spec_run S [] = []"
| "pin_spec_run S (r # rs) = snd (pin_spec S r) # pin_spec_run (fst (pin_spec S r)) rs"

lemma pin_spec_run_append:
  "pin_spec_run S (rs @ ss) =
     pin_spec_run S rs @ pin_spec_run (foldl (\<lambda>T r. fst (pin_spec T r)) S rs) ss"
  by (induction rs arbitrary: S) auto

lemma foldl_pin_spec_set:
  "foldl (\<lambda>T r. fst (pin_spec T r)) S rs = S \<union> {k. (k, True) \<in> set rs}"
proof (induction rs arbitrary: S)
  case (Cons r rs)
  have "fst (pin_spec S r) = S \<union> {k. (k, True) = r}"
    by (cases r) (auto simp: pin_spec_def)
  with Cons show ?case by auto
qed simp

lemma pin_spec_hit: "k \<in> S \<Longrightarrow> snd (pin_spec S (k, s)) = Local"
  by (simp add: pin_spec_def)

lemma length_pin_spec_run [simp]: "length (pin_spec_run S rs) = length rs"
  by (induction rs arbitrary: S) auto

lemma pin_spec_sticky:
  assumes "(k, True) \<in> set before"
  shows "pin_spec_run S (before @ (k, s) # after) ! length before = Local"
  using assms by (simp add: pin_spec_run_append foldl_pin_spec_set nth_append pin_spec_hit)

text \<open>
  A store implements the contract as long as a request is \<open>live\<close>: no expiry or
  eviction takes place while it is served.
\<close>

locale pin_store =
  fixes step :: "'s \<Rightarrow> 'r \<Rightarrow> 's \<times> route_pin"
    and request :: "'r \<Rightarrow> str \<times> bool"
    and pinned :: "'s \<Rightarrow> str set"
    and live :: "'s \<Rightarrow> 'r \<Rightarrow> bool"
  assumes step_pin: "live s r \<Longrightarrow> snd (step s r) = snd (pin_spec (pinned s) (request r))"
    and step_pinned: "live s r \<Longrightarrow> pinned (fst (step s r)) = fst (pin_spec (pinned s) (request r))"
begin

fun run :: "'s \<Rightarrow> 'r list \<Rightarrow> route_pin list" where
  "run s [] = []"
| "run s (r # rs) = snd (step s r) # run (fst (step s r)) rs"

fun all_live :: "'s \<Rightarrow> 'r list \<Rightarrow> bool" where
  "all_live s [] = True"
| "all_live s (r # rs) = (live s r \<and> all_live (fst (step s r)) rs)"

lemma run_length: "length (run s rs) = length rs"
  by (induction rs arbitrary: s) simp_all

lemma run_refines: "all_live s rs \<Longrightarrow> run s rs = pin_spec_run (pinned s) (map request rs)"
  by (induction rs arbitrary: s) (auto simp: step_pin step_pinned)

lemma run_sticky:
  assumes "all_live s (before @ r # after)" and "(fst (request r), True) \<in> set (map request before)"
  shows "run s (before @ r # after) ! length before = Local"
proof -
  have "run s (before @ r # after)
    = pin_spec_run (pinned s) (map request before @ (fst (request r), snd (request r)) # map request after)"
    using run_refines [OF assms(1)] by simp
  with pin_spec_sticky [OF assms(2)] show ?thesis by (metis length_map)
qed

end

subsection \<open>The session router (\<open>route/session.rs\<close>)\<close>

definition MAX_SESSIONS :: nat where "MAX_SESSIONS = 10000"
definition SESSION_TTL :: int where "SESSION_TTL = 3600 * 4 * 10 ^ 9"

record pin_entry =
  pin :: route_pin
  last_seen :: instant
  turn_count :: "32 word"

record session_router =
  table :: "(str \<times> pin_entry) list"

definition new_router :: session_router where
  "new_router = \<lparr>table = []\<rparr>"

definition evict_router :: "instant \<Rightarrow> (str \<times> pin_entry) list \<Rightarrow> (str \<times> pin_entry) list" where
  "evict_router now tbl =
     (if length tbl \<ge> MAX_SESSIONS
      then let kept = filter (\<lambda>(k, e). duration_since now (last_seen e) < SESSION_TTL) tbl
           in if length kept \<ge> MAX_SESSIONS
              then let entries = sort_key snd (map (\<lambda>(k, e). (k, last_seen e)) kept)
                   in foldl (\<lambda>t (k, _). AList.delete k t) kept (take (MAX_SESSIONS div 10) entries)
              else kept
      else tbl)"

definition route :: "session_router \<Rightarrow> instant \<Rightarrow> str \<Rightarrow> bool \<Rightarrow> session_router \<times> route_pin" where
  "route st now session_id sensitive =
     (let tbl = evict_router now (table st)
      in case map_of tbl session_id of
           Some entry \<Rightarrow>
             (let p = (if sensitive \<and> pin entry = Cloud then Local else pin entry)
              in (\<lparr>table = AList.update session_id
                    \<lparr>pin = p, last_seen = now, turn_count = turn_count entry + 1\<rparr> tbl\<rparr>, p))
         | None \<Rightarrow>
             (let p = (if sensitive then Local else Cloud)
              in (\<lparr>table = AList.update session_id \<lparr>pin = p, last_seen = now, turn_count = 1\<rparr> tbl\<rparr>, p)))"

definition revoke :: "session_router \<Rightarrow> str \<Rightarrow> session_router" where
  "revoke st session_id = \<lparr>table = AList.delete session_id (table st)\<rparr>"

definition session_count :: "session_router \<Rightarrow> nat" where
  "session_count st = length (table st)"

subsection \<open>Session identifiers\<close>

definition eq_ignore_ascii_case :: "str \<Rightarrow> str \<Rightarrow> bool" where
  "eq_ignore_ascii_case a b = (to_lowercase a = to_lowercase b)"

definition sanitize_session_id :: "unicode \<Rightarrow> str \<Rightarrow> str" where
  "sanitize_session_id u s =
     of_chars (take 64 (filter (\<lambda>c. is_alphanumeric u c \<or> c = 45 \<or> c = 95) (chars s)))"

definition session_key :: str where
  "session_key = CHR 0x22 # ''session_id'' @ [CHR 0x22]"

definition extract_json_session_id :: "unicode \<Rightarrow> str \<Rightarrow> str option" where
  "extract_json_session_id u body =
     Option.bind (from_utf8 body) (\<lambda>s.
     Option.bind (find_sub s session_key) (\<lambda>pos.
     let after = drop (pos + length session_key) s in
     Option.bind (find_sub after '':'') (\<lambda>colon.
     let value_part = trim_start (drop (colon + 1) after) in
     if starts_with value_part [CHR 0x22]
     then Option.bind (find_sub (drop 1 value_part) [CHR 0x22]) (\<lambda>end.
          let sid = sub_slice 1 (end + 1) value_part in
          if length sid \<le> 128 then Some (sanitize_session_id u sid) else None)
     else None)))"

definition fnv1a :: "str \<Rightarrow> 64 word" where
  "fnv1a bs = foldl (\<lambda>hash b. (hash XOR of_nat (of_char b)) * 0x100000001B3) 0xcbf29ce484222325 bs"

definition hex16 :: "64 word \<Rightarrow> str" where
  "hex16 w = map (\<lambda>i. ''0123456789abcdef'' ! (unat w div 16 ^ (15 - i) mod 16)) [0..<16]"

definition derive_session_id :: "str \<Rightarrow> str \<Rightarrow> str" where
  "derive_session_id auth_token path = ''derived-'' @ hex16 (fnv1a (auth_token @ ''|'' @ path))"

fun header_session_id :: "unicode \<Rightarrow> (str \<times> str) list \<Rightarrow> str option" where
  "header_session_id u [] = None"
| "header_session_id u ((name, value) # hs) =
     (if eq_ignore_ascii_case name ''x-tsm-session-id''
      then case from_utf8 value of
             Some s \<Rightarrow>
               (let trimmed = trim s
                in if trimmed \<noteq> [] \<and> length trimmed \<le> 128 then Some (sanitize_session_id u trimmed)
                   else header_session_id u hs)
           | None \<Rightarrow> header_session_id u hs
      else header_session_id u hs)"

text \<open>The decimal rendering of the time-based identifier of an anonymous request is a parameter.\<close>

definition extract_session_id ::
  "unicode \<Rightarrow> str \<Rightarrow> (str \<times> str) list \<Rightarrow> str \<Rightarrow> str \<Rightarrow> str \<Rightarrow> str" where
  "extract_session_id u random_id headers body auth_token path =
     (case header_session_id u headers of
        Some sid \<Rightarrow> sid
      | None \<Rightarrow>
          (case extract_json_session_id u body of
             Some sid \<Rightarrow> sid
           | None \<Rightarrow> if auth_token \<noteq> [] then derive_session_id auth_token path
                     else ''ephemeral-'' @ random_id))"

subsection \<open>The router implements the contract below capacity\<close>

definition router_pinned :: "session_router \<Rightarrow> str set" where
  "router_pinned st = {k. \<exists>e. map_of (table st) k = Some e \<and> pin e = Local}"

definition router_live :: "session_router \<Rightarrow> instant \<times> str \<times> bool \<Rightarrow> bool" where
  "router_live st r = (length (table st) < MAX_SESSIONS)"

definition router_step :: "session_router \<Rightarrow> instant \<times> str \<times> bool \<Rightarrow> session_router \<times> route_pin" where
  "router_step st r = (case r of (now, k, s) \<Rightarrow> route st now k s)"

lemma route_below_capacity:
  assumes "length (table st) < MAX_SESSIONS"
  shows "route st now k s = (let p = (if s \<or> k \<in> router_pinned st then Local else Cloud) in
     (\<lparr>table = AList.update k \<lparr>pin = p, last_seen = now,
         turn_count = (case map_of (table st) k of Some e \<Rightarrow> turn_count e + 1 | None \<Rightarrow> 1)\<rparr> (table st)\<rparr>, p))"
proof -
  have "evict_router now (table st) = table st" using assms by (simp add: evict_router_def)
  then show ?thesis
    by (cases "map_of (table st) k"; cases s; cases "pin (the (map_of (table st) k))")
       (auto simp: route_def router_pinned_def Let_def)
qed

lemma router_pinned_update:
  "router_pinned \<lparr>table = AList.update k e tbl\<rparr>
   = (if pin e = Local then insert k (router_pinned \<lparr>table = tbl\<rparr>) else router_pinned \<lparr>table = tbl\<rparr> - {k})"
  by (auto simp: router_pinned_def update_conv' split: if_splits)

interpretation router: pin_store router_step snd router_pinned router_live
proof
  fix st r
  assume live: "router_live st r"
  obtain now k s where r: "r = (now, k, s)" by (cases r)
  have l: "length (table st) < MAX_SESSIONS" using live by (simp add: router_live_def)
  show "snd (router_step st r) = snd (pin_spec (router_pinned st) (snd r))"
    by (simp add: r router_step_def route_below_capacity [OF l] pin_spec_def Let_def)
  have "router_pinned \<lparr>table = table st\<rparr> = router_pinned st" by (simp add: router_pinned_def)
  then show "router_pinned (fst (router_step st r)) = fst (pin_spec (router_pinned st) (snd r))"
    by (auto simp: r router_step_def route_below_capacity [OF l] pin_spec_def Let_def router_pinned_update)
qed

text \<open>
  While fewer than the capacity of sessions are tracked, the router
  implements the sticky-pin contract: it answers every request sequence exactly as
  the abstract set of local sessions does, so a session is local from its first
  sensitive turn on, whatever the turns of other sessions.
\<close>

lemma router_refines_pin_spec:
  assumes "router.all_live st rs"
  shows "router.run st rs = pin_spec_run (router_pinned st) (map snd rs)
    \<and> (\<forall>k s now before after.
         rs = before @ (now, k, s) # after \<and> (k, True) \<in> set (map snd before)
         \<longrightarrow> router.run st rs ! length before = Local)"
proof (intro conjI allI impI)
  show "router.run st rs = pin_spec_run (router_pinned st) (map snd rs)"
    by (rule router.run_refines [OF assms])
  fix k s now before after
  assume rs: "rs = before @ (now, k, s) # after \<and> (k, True) \<in> set (map snd before)"
  then show "router.run st rs ! length before = Local"
    using router.run_sticky [of st before "(now, k, s)" after] assms by simp
qed

subsection \<open>At capacity a local pin can be lost\<close>

lemma map_of_foldl_delete:
  "map_of (foldl (\<lambda>t (k, _). AList.delete k t) tbl es) k = (if k \<in> fst ` set es then None else map_of tbl k)"
proof (induction es arbitrary: tbl)
  case (Cons e es)
  then show ?case by (cases e) (auto simp: delete_conv')
qed simp

lemma sort_key_least_first:
  assumes "x \<in> set xs" and "\<forall>y\<in>set xs. y \<noteq> x \<longrightarrow> f x < f y" and "0 < n"
  shows "x \<in> set (take n (sort_key f xs))"
proof (cases "sort_key f xs")
  case Nil
  then show ?thesis using assms(1) by (metis empty_iff empty_set set_sort)
next
  case (Cons z zs)
  have "x \<in> set (z # zs)" "z \<in> set xs" using assms(1) Cons by (metis set_sort, metis list.set_intros(1) set_sort)
  moreover have "f z \<le> f x" using calculation(1) Cons sorted_sort_key [of f xs] by auto
  ultimately have "z = x" using assms(2) by fastforce
  then show ?thesis using Cons assms(3) by (cases n) auto
qed

text \<open>
  At capacity the router evicts the tenth of its entries that were seen
  longest ago before it looks the session up, local pins included. A live session
  pinned local that was idle longest is answered cloud on its next turn that is not
  itself sensitive, although the documented rule is that it stays local.
\<close>

lemma eviction_drops_local_pin:
  assumes "MAX_SESSIONS \<le> length (table st)" and "distinct (map fst (table st))"
    and "(k, e) \<in> set (table st)" and "pin e = Local"
    and "\<forall>(k', e')\<in>set (table st). duration_since now (last_seen e') < SESSION_TTL
           \<and> (k' \<noteq> k \<longrightarrow> last_seen e < last_seen e')"
  shows "map_of (table st) k = Some e \<and> snd (route st now k False) = Cloud"
proof
  show look: "map_of (table st) k = Some e" using assms(2,3) by (simp add: map_of_is_SomeI)
  have kept: "filter (\<lambda>(k, e). duration_since now (last_seen e) < SESSION_TTL) (table st) = table st"
    using assms(5) by (auto intro!: filter_True)
  let ?es = "map (\<lambda>(k, e). (k, last_seen e)) (table st)"
  have "(k, last_seen e) \<in> set (take (MAX_SESSIONS div 10) (sort_key snd ?es))"
  proof (rule sort_key_least_first)
    show "(k, last_seen e) \<in> set ?es" using assms(3) by force
    show "\<forall>y\<in>set ?es. y \<noteq> (k, last_seen e) \<longrightarrow> snd (k, last_seen e) < snd y"
    proof (intro ballI impI)
      fix y assume "y \<in> set ?es" and ne: "y \<noteq> (k, last_seen e)"
      then obtain k' e' where y: "(k', e') \<in> set (table st)" "y = (k', last_seen e')" by auto
      have "k' \<noteq> k" using y ne eq_key_imp_eq_value [OF assms(2,3), of e'] by auto
      then show "snd (k, last_seen e) < snd y" using assms(5) y by auto
    qed
  qed (simp add: MAX_SESSIONS_def)
  then have "k \<in> fst ` set (take (MAX_SESSIONS div 10) (sort_key snd ?es))" by force
  then have "map_of (evict_router now (table st)) k = None"
    unfolding evict_router_def kept Let_def if_P [OF assms(1)] map_of_foldl_delete by (rule if_P)
  then show "snd (route st now k False) = Cloud" by (simp add: route_def)
qed

end
