(* ===== verification/Store.thy ===== *)
theory Store
  imports Sessions
begin

text \<open>
  The two backends of the session and rate-limit store: \<open>store/memory.rs\<close> and
  \<open>store/redis.rs\<close>. The Redis server is the interpreter of the two scripts; the
  connection is a buffered reader over the segments the network delivers.
\<close>

subsection \<open>Memory backend\<close>

definition MAX_SESSION_SLOTS :: nat where "MAX_SESSION_SLOTS = 10000"
definition MAX_RATE_SLOTS :: nat where "MAX_RATE_SLOTS = 50000"
definition RATE_WINDOW :: int where "RATE_WINDOW = 60 * 10 ^ 9"

record session_entry =
  se_pin :: route_pin
  last_touch :: instant

text \<open>\<open>Instant::checked_sub\<close> fails only below the least representable second count.\<close>

definition rate_cutoff :: "instant \<Rightarrow> instant" where
  "rate_cutoff now = (if now - RATE_WINDOW < - (2 ^ 63) * 10 ^ 9 then now else now - RATE_WINDOW)"

type_synonym rate_bucket = "instant list"

definition check_and_consume :: "rate_bucket \<Rightarrow> instant \<Rightarrow> nat \<Rightarrow> rate_bucket \<times> bool" where
  "check_and_consume b now limit =
     (let b' = filter (\<lambda>t. t \<ge> rate_cutoff now) b
      in if length b' < limit then (b' @ [now], True) else (b', False))"

definition is_idle :: "rate_bucket \<Rightarrow> instant \<Rightarrow> bool" where
  "is_idle b now = list_all (\<lambda>t. t < rate_cutoff now) b"

record memory_store =
  sessions :: "(str \<times> session_entry) list"
  buckets :: "(str \<times> rate_bucket) list"

definition new_memory_store :: memory_store where
  "new_memory_store = \<lparr>sessions = [], buckets = []\<rparr>"

definition evict_sessions :: "(str \<times> session_entry) list \<Rightarrow> (str \<times> session_entry) list" where
  "evict_sessions m =
     (if length m \<le> MAX_SESSION_SLOTS then m
      else let pairs = sort_key snd (map (\<lambda>(k, v). (k, last_touch v)) m);
               to_remove = max (MAX_SESSION_SLOTS div 10) 1
           in foldl (\<lambda>t (k, _). AList.delete k t) m (take to_remove pairs))"

definition evict_buckets :: "instant \<Rightarrow> (str \<times> rate_bucket) list \<Rightarrow> (str \<times> rate_bucket) list" where
  "evict_buckets now m =
     (if length m \<le> MAX_RATE_SLOTS then m
      else let kept = filter (\<lambda>(_, b). \<not> is_idle b now) m
           in if length kept > MAX_RATE_SLOTS then [] else kept)"

definition session_pin :: "memory_store \<Rightarrow> instant \<Rightarrow> str \<Rightarrow> bool \<Rightarrow> memory_store \<times> route_pin" where
  "session_pin st now session_id sensitive =
     (let new_pin = (if sensitive then Local else Cloud);
          m1 = (case map_of (sessions st) session_id of
                  Some e \<Rightarrow> if duration_since now (last_touch e) \<ge> SESSION_TTL
                            then AList.delete session_id (sessions st) else sessions st
                | None \<Rightarrow> sessions st);
          m2 = evict_sessions m1;
          p0 = (case map_of m2 session_id of Some e \<Rightarrow> se_pin e | None \<Rightarrow> new_pin);
          p = (if sensitive \<and> p0 = Cloud then Local else p0)
      in (st\<lparr>sessions := AList.update session_id \<lparr>se_pin = p, last_touch = now\<rparr> m2\<rparr>, p))"

definition session_revoke :: "memory_store \<Rightarrow> str \<Rightarrow> memory_store" where
  "session_revoke st session_id = st\<lparr>sessions := AList.delete session_id (sessions st)\<rparr>"

definition rate_check :: "memory_store \<Rightarrow> instant \<Rightarrow> str \<Rightarrow> nat \<Rightarrow> memory_store \<times> bool" where
  "rate_check st now ip rpm =
     (let m = evict_buckets now (buckets st);
          b = (case map_of m ip of Some b \<Rightarrow> b | None \<Rightarrow> []);
          (b', ok) = check_and_consume b now rpm
      in (st\<lparr>buckets := AList.update ip b' m\<rparr>, ok))"

subsection \<open>The memory backend implements the session contract\<close>

definition memory_pinned :: "memory_store \<Rightarrow> str set" where
  "memory_pinned st = {k. \<exists>e. map_of (sessions st) k = Some e \<and> se_pin e = Local}"

definition memory_live :: "memory_store \<Rightarrow> instant \<times> str \<times> bool \<Rightarrow> bool" where
  "memory_live st r = (case r of (now, k, s) \<Rightarrow>
     length (sessions st) \<le> MAX_SESSION_SLOTS
     \<and> (case map_of (sessions st) k of Some e \<Rightarrow> duration_since now (last_touch e) < SESSION_TTL | None \<Rightarrow> True))"

definition memory_step :: "memory_store \<Rightarrow> instant \<times> str \<times> bool \<Rightarrow> memory_store \<times> route_pin" where
  "memory_step st r = (case r of (now, k, s) \<Rightarrow> session_pin st now k s)"

lemma session_pin_live:
  assumes "memory_live st (now, k, s)"
  shows "session_pin st now k s = (let p = (if s \<or> k \<in> memory_pinned st then Local else Cloud) in
     (st\<lparr>sessions := AList.update k \<lparr>se_pin = p, last_touch = now\<rparr> (sessions st)\<rparr>, p))"
proof (cases "map_of (sessions st) k")
  case None
  with assms show ?thesis
    by (simp add: session_pin_def memory_live_def evict_sessions_def memory_pinned_def Let_def)
next
  case (Some e)
  with assms show ?thesis
    by (cases "se_pin e"; cases s)
       (simp_all add: session_pin_def memory_live_def evict_sessions_def memory_pinned_def Let_def)
qed

interpretation memory: pin_store memory_step snd memory_pinned memory_live
proof
  fix st r
  assume live: "memory_live st r"
  obtain now k s where r: "r = (now, k, s)" by (cases r)
  note step = session_pin_live [OF live [unfolded r]]
  show "snd (memory_step st r) = snd (pin_spec (memory_pinned st) (snd r))"
    by (simp add: r memory_step_def step pin_spec_def Let_def)
  show "memory_pinned (fst (memory_step st r)) = fst (pin_spec (memory_pinned st) (snd r))"
    by (auto simp: r memory_step_def step pin_spec_def Let_def memory_pinned_def update_conv')
qed

subsection \<open>Redis backend\<close>

text \<open>The server state of the keys the scripts touch; key expiry is a separate event.\<close>

record redis_db =
  strings :: "(str \<times> str) list"
  zsets :: "(str \<times> nat list) list"

text \<open>The script of \<open>session_pin\<close>, run atomically by the server.\<close>

definition pin_script :: "redis_db \<Rightarrow> str \<Rightarrow> str \<Rightarrow> redis_db \<times> str" where
  "pin_script db key new_val =
     (case map_of (strings db) key of
        None \<Rightarrow> (db\<lparr>strings := AList.update key new_val (strings db)\<rparr>, new_val)
      | Some cur \<Rightarrow>
          if cur = ''cloud'' \<and> new_val = ''local''
          then (db\<lparr>strings := AList.update key ''local'' (strings db)\<rparr>, ''local'')
          else (db, cur))"

definition rate_script :: "redis_db \<Rightarrow> str \<Rightarrow> nat \<Rightarrow> nat \<Rightarrow> nat \<Rightarrow> redis_db \<times> bool" where
  "rate_script db key now cutoff limit =
     (let z0 = (case map_of (zsets db) key of Some z \<Rightarrow> z | None \<Rightarrow> []);
          z = filter (\<lambda>t. t > cutoff) z0
      in if length z < limit
         then (db\<lparr>zsets := AList.update key (if now \<in> set z then z else z @ [now]) (zsets db)\<rparr>, True)
         else (db\<lparr>zsets := AList.update key z (zsets db)\<rparr>, False))"

subsection \<open>The RESP2 connection\<close>

text \<open>
  \<open>BufReader\<close> over the socket: \<open>rbuf\<close> are bytes already read into the buffer,
  \<open>segments\<close> what the socket will still deliver, one read at a time. A read that
  finds no more segments fails (time-out or end of stream).
\<close>

record resp_conn =
  rbuf :: str
  segments :: "str list"

text \<open>\<open>read_line\<close>: up to and including the next line feed, refilling the buffer when it is empty.\<close>

fun read_line :: "str \<Rightarrow> str \<Rightarrow> str list \<Rightarrow> (str \<times> resp_conn) option" where
  "read_line acc (c # cs) segs =
     (if c = CHR 0x0A then Some (acc @ [c], \<lparr>rbuf = cs, segments = segs\<rparr>) else read_line (acc @ [c]) cs segs)"
| "read_line acc [] (seg # segs) = read_line acc seg segs"
| "read_line acc [] [] = None"

text \<open>\<open>read_exact\<close> on the socket itself, as \<open>get_mut\<close> gives it: the buffer is bypassed.\<close>

fun read_exact_raw :: "nat \<Rightarrow> str list \<Rightarrow> (str \<times> str list) option" where
  "read_exact_raw 0 segs = Some ([], segs)"
| "read_exact_raw (Suc n) [] = None"
| "read_exact_raw (Suc n) ([] # segs) = read_exact_raw (Suc n) segs"
| "read_exact_raw (Suc n) ((c # cs) # segs) =
     map_option (\<lambda>(out, rest). (c # out, rest)) (read_exact_raw n (cs # segs))"

text \<open>\<open>str::parse::<i64>()\<close>.\<close>

definition parse_i64 :: "str \<Rightarrow> int option" where
  "parse_i64 s =
     (case s of
        [] \<Rightarrow> None
      | c # cs \<Rightarrow>
          (let r = (if c = CHR ''-'' then (if cs = [] then None else map_option (\<lambda>n. - int n) (parse_digits cs 0))
                    else if c = CHR ''+'' then (if cs = [] then None else map_option int (parse_digits cs 0))
                    else map_option int (parse_digits s 0))
           in case r of Some i \<Rightarrow> if - (2 ^ 63) \<le> i \<and> i < 2 ^ 63 then Some i else None | None \<Rightarrow> None))"

definition strip_crlf :: "str \<Rightarrow> str" where
  "strip_crlf line = (if ends_with line [CHR 0x0D, CHR 0x0A] then take (length line - 2) line else line)"

datatype resp_result = RespOk str | RespErr

function read_reply :: "nat \<Rightarrow> resp_conn \<Rightarrow> resp_result \<times> resp_conn"
  and read_elems :: "nat \<Rightarrow> nat \<Rightarrow> bool \<Rightarrow> str \<Rightarrow> resp_conn \<Rightarrow> resp_result \<times> resp_conn" where
  "read_reply fuel conn =
     (case read_line [] (rbuf conn) (segments conn) of
        None \<Rightarrow> (RespErr, conn)
      | Some (raw, conn1) \<Rightarrow>
          (case strip_crlf raw of
             [] \<Rightarrow> (RespErr, conn1)
           | c # rest \<Rightarrow>
               if c = CHR ''+'' then (RespOk rest, conn1)
               else if c = CHR ''-'' then (RespErr, conn1)
               else if c = CHR '':'' then (RespOk rest, conn1)
               else if c = CHR ''$''
               then (case parse_i64 rest of
                       None \<Rightarrow> (RespErr, conn1)
                     | Some len \<Rightarrow>
                         if len < 0 then (RespOk [], conn1)
                         else (case read_exact_raw (nat len + 2) (segments conn1) of
                                 None \<Rightarrow> (RespErr, conn1\<lparr>segments := []\<rparr>)
                               | Some (bulk, segs) \<Rightarrow>
                                   (RespOk (from_utf8_lossy (take (nat len) bulk)), conn1\<lparr>segments := segs\<rparr>)))
               else if c = CHR ''*''
               then (case (fuel, parse_i64 rest) of
                       (Suc f, Some cnt) \<Rightarrow> read_elems f (nat cnt) True [] conn1
                     | _ \<Rightarrow> (RespErr, conn1))
               else (RespErr, conn1)))"
| "read_elems fuel 0 first res conn = (RespOk res, conn)"
| "read_elems fuel (Suc n) first res conn =
     (case read_reply fuel conn of
        (RespOk e, conn1) \<Rightarrow> read_elems fuel n False (if first then e else res) conn1
      | (RespErr, conn1) \<Rightarrow> (RespErr, conn1))"
  by pat_completeness auto
termination
  by (relation "inv_image (less_than <*lex*> less_than)
        (\<lambda>x. case x of Inl (fuel, conn) \<Rightarrow> (fuel, 0) | Inr (fuel, n, first, res, conn) \<Rightarrow> (fuel, n))") auto

declare read_reply.simps [simp del]

text \<open>The server answers a script that returns a string with a bulk reply.\<close>

definition bulk_reply :: "str \<Rightarrow> str" where
  "bulk_reply s = CHR ''$'' # dec_digits (length s) @ [CHR 0x0D, CHR 0x0A] @ s @ [CHR 0x0D, CHR 0x0A]"

definition pin_key :: "str \<Rightarrow> str" where
  "pin_key session_id = ''tsm:session:'' @ session_id"

lemma pin_key_eq_iff [simp]: "pin_key a = pin_key b \<longleftrightarrow> a = b"
  by (simp add: pin_key_def)

text \<open>
  \<open>RedisStore::session_pin\<close>: \<open>deliver\<close> cuts the server's reply into the segments
  in which the client reads it, \<open>up\<close> tells whether the connection can be opened.
\<close>

definition redis_session_pin ::
  "bool \<Rightarrow> (str \<Rightarrow> str list) \<Rightarrow> redis_db \<Rightarrow> str \<Rightarrow> bool \<Rightarrow> redis_db \<times> route_pin" where
  "redis_session_pin up deliver db session_id sensitive =
     (if \<not> up then (db, if sensitive then Local else Cloud)
      else let key = pin_key session_id;
               new_val = (if sensitive then ''local'' else ''cloud'');
               (db', cur) = pin_script db key new_val;
               result = (case read_reply 1 \<lparr>rbuf = [], segments = deliver (bulk_reply cur)\<rparr> of
                           (RespOk s, _) \<Rightarrow> s | (RespErr, _) \<Rightarrow> new_val)
           in (db', if result = ''local'' then Local else Cloud))"

definition redis_session_revoke :: "bool \<Rightarrow> redis_db \<Rightarrow> str \<Rightarrow> redis_db" where
  "redis_session_revoke up db session_id =
     (if up then db\<lparr>strings := AList.delete (pin_key session_id) (strings db)\<rparr> else db)"

definition redis_rate_check ::
  "bool \<Rightarrow> (str \<Rightarrow> str list) \<Rightarrow> redis_db \<Rightarrow> nat \<Rightarrow> str \<Rightarrow> nat \<Rightarrow> redis_db \<times> bool" where
  "redis_rate_check up deliver db now_ms ip rpm =
     (if \<not> up then (db, True)
      else let (db', ok) = rate_script db (''tsm:rate:'' @ ip) now_ms (now_ms - 60000) rpm;
               reply = '':'' @ (if ok then ''1'' else ''0'') @ [CHR 0x0D, CHR 0x0A];
               result = (case read_reply 1 \<lparr>rbuf = [], segments = deliver reply\<rparr> of
                           (RespOk s, _) \<Rightarrow> s | (RespErr, _) \<Rightarrow> ''1'')
           in (db', trim result = ''1''))"

definition parse_redis_url :: "str \<Rightarrow> str \<times> str option" where
  "parse_redis_url url0 =
     (let strip = (\<lambda>p. \<lambda>s. if starts_with s p then drop (length p) s else s);
          url = ((strip ''redis://'') ^^ (length url0)) url0;
          idx = position (\<lambda>c. c = CHR ''@'') (rev url);
          auth_part = map_option (\<lambda>i. take (length url - Suc i) url) idx;
          host_part = (case idx of Some i \<Rightarrow> drop (length url - i) url | None \<Rightarrow> url);
          host_port = takeWhile (\<lambda>c. c \<noteq> CHR ''/'') host_part;
          password = Option.bind auth_part (\<lambda>a.
             let pw = dropWhile (\<lambda>c. c = CHR '':'') a in if pw = [] then None else Some pw)
      in (host_port, password))"

subsection \<open>Sliding window of the memory backend\<close>

fun bucket_run :: "nat \<Rightarrow> rate_bucket \<Rightarrow> instant list \<Rightarrow> bool list" where
  "bucket_run limit b [] = []"
| "bucket_run limit b (t # ts) = snd (check_and_consume b t limit) # bucket_run limit (fst (check_and_consume b t limit)) ts"

text \<open>The reference remembers every accepted time and forgets nothing.\<close>

fun window_accepts :: "nat \<Rightarrow> instant list \<Rightarrow> instant list \<Rightarrow> bool list" where
  "window_accepts limit acc [] = []"
| "window_accepts limit acc (t # ts) =
     (if length (filter (\<lambda>a. a \<ge> t - RATE_WINDOW) acc) < limit
      then True # window_accepts limit (acc @ [t]) ts else False # window_accepts limit acc ts)"

fun accepted_times :: "bool list \<Rightarrow> instant list \<Rightarrow> instant list" where
  "accepted_times (b # bs) (t # ts) = (if b then t # accepted_times bs ts else accepted_times bs ts)"
| "accepted_times _ _ = []"

lemma filter_ge_ge: "c \<le> d \<Longrightarrow> filter (\<lambda>a. a \<ge> d) (filter (\<lambda>a. a \<ge> c) xs) = filter (\<lambda>a. a \<ge> (d :: int)) xs"
  by (induction xs) auto

lemma bucket_run_window:
  assumes "sorted ts" and "\<forall>t\<in>set ts. 0 \<le> t \<and> c \<le> t - RATE_WINDOW"
    and "\<forall>d\<ge>c. filter (\<lambda>a. a \<ge> d) b = filter (\<lambda>a. a \<ge> d) acc"
  shows "bucket_run limit b ts = window_accepts limit acc ts"
  using assms
proof (induction ts arbitrary: b acc c)
  case (Cons t ts)
  have cut: "rate_cutoff t = t - RATE_WINDOW" using Cons.prems(2) by (simp add: rate_cutoff_def RATE_WINDOW_def)
  let ?f = "filter (\<lambda>a. a \<ge> t - RATE_WINDOW) acc"
  have f: "filter (\<lambda>a. a \<ge> t - RATE_WINDOW) b = ?f" using Cons.prems(2,3) by simp
  have ts: "sorted ts" "\<forall>u\<in>set ts. 0 \<le> u \<and> t - RATE_WINDOW \<le> u - RATE_WINDOW"
    using Cons.prems(1,2) by auto
  have "\<forall>d\<ge>t - RATE_WINDOW. filter (\<lambda>a. a \<ge> d) ?f = filter (\<lambda>a. a \<ge> d) acc"
    using filter_ge_ge [of "t - RATE_WINDOW" _ acc] by blast
  then have "bucket_run limit (?f @ [t]) ts = window_accepts limit (acc @ [t]) ts"
      "bucket_run limit ?f ts = window_accepts limit acc ts"
    using ts by (intro Cons.IH [OF ts]; simp)+
  then show ?case by (simp add: check_and_consume_def cut f Let_def)
qed simp

lemma window_accepts_bound:
  assumes "length (filter (\<lambda>a. a \<ge> c) acc) \<le> limit" and "sorted ts" and "\<forall>t\<in>set ts. c \<le> t - RATE_WINDOW"
    and "ts \<noteq> []"
  shows "length (filter (\<lambda>a. a \<ge> last ts - RATE_WINDOW) (acc @ accepted_times (window_accepts limit acc ts) ts)) \<le> limit"
  using assms
proof (induction ts arbitrary: acc c)
  case (Cons t ts)
  let ?w = "filter (\<lambda>a. a \<ge> t - RATE_WINDOW)"
  define acc' where "acc' = (if length (?w acc) < limit then acc @ [t] else acc)"
  have wl: "length (?w acc) \<le> limit"
  proof -
    have "length (?w (filter (\<lambda>a. a \<ge> c) acc)) \<le> length (filter (\<lambda>a. a \<ge> c) acc)" by (rule length_filter_le)
    then show ?thesis using Cons.prems(1,3) filter_ge_ge [of c "t - RATE_WINDOW" acc] by simp
  qed
  then have b: "length (?w acc') \<le> limit" by (auto simp: acc'_def RATE_WINDOW_def)
  have eq: "acc @ accepted_times (window_accepts limit acc (t # ts)) (t # ts) = acc' @ accepted_times (window_accepts limit acc' ts) ts"
    by (simp add: acc'_def)
  show ?case
  proof (cases "ts = []")
    case True
    then show ?thesis using b unfolding eq by simp
  next
    case False
    then show ?thesis
      unfolding eq using Cons.IH [OF b] Cons.prems(2) by simp
  qed
qed simp

text \<open>
  C7: the memory rate limiter is an exact sliding-window limiter although it
  throws old time stamps away. On every nondecreasing sequence of request times it
  accepts exactly the requests a limiter that remembers all accepted times would, and
  after every request at most the limit of accepted times lie in the last minute.
\<close>

theorem rate_bucket_exact_window:
  assumes "sorted ts" and "\<forall>t\<in>set ts. 0 \<le> t" and "ts \<noteq> []"
  shows "bucket_run limit [] ts = window_accepts limit [] ts
    \<and> length (filter (\<lambda>a. a \<ge> last ts - RATE_WINDOW) (accepted_times (bucket_run limit [] ts) ts)) \<le> limit"
proof -
  have c: "\<forall>t\<in>set ts. 0 \<le> t \<and> - RATE_WINDOW \<le> t - RATE_WINDOW" using assms(2) by auto
  have eq: "bucket_run limit [] ts = window_accepts limit [] ts"
    by (rule bucket_run_window [OF assms(1) c]) simp
  have "length (filter (\<lambda>a. a \<ge> last ts - RATE_WINDOW) ([] @ accepted_times (window_accepts limit [] ts) ts)) \<le> limit"
    using c assms by (intro window_accepts_bound [where c = "- RATE_WINDOW"]) auto
  then show ?thesis unfolding eq by simp
qed

theorem rate_bucket_exact_window_witness:
  "bucket_run 2 [] [0, 5, 10, 61 * 10 ^ 9] = [True, True, False, True]"
  using rate_bucket_exact_window [of "[0, 5, 10, 61 * 10 ^ 9]" 2] by (simp add: RATE_WINDOW_def)

text \<open>
  The memory backend implements the sticky-pin contract of the store as
  long as no entry expires and its table does not exceed its capacity.
\<close>

lemma memory_refines_pin_spec:
  assumes "memory.all_live st rs"
  shows "memory.run st rs = pin_spec_run (memory_pinned st) (map snd rs)"
  by (rule memory.run_refines [OF assms])

subsection \<open>Redis replies and the buffered reader\<close>

definition redis_wf :: "redis_db \<Rightarrow> bool" where
  "redis_wf db = (\<forall>k v. map_of (strings db) (pin_key k) = Some v \<longrightarrow> v = ''local'' \<or> v = ''cloud'')"

abbreviation resp_crlf :: str where
  "resp_crlf \<equiv> [CHR 0x0D, CHR 0x0A]"

lemma bulk_5: "length v = 5 \<Longrightarrow> bulk_reply v = ''$5'' @ resp_crlf @ v @ resp_crlf"
  by (simp add: bulk_reply_def dec_digits.simps [of 5] char_of_def bit_0)

lemma read_bulk_line: "read_line [] [] ((''$5'' @ resp_crlf @ rest) # segs) = Some (''$5'' @ resp_crlf, \<lparr>rbuf = rest, segments = segs\<rparr>)"
  by simp

lemma bulk_header: "strip_crlf (''$5'' @ resp_crlf) = ''$5''" "parse_i64 ''5'' = Some 5"
  by (simp_all add: strip_crlf_def ends_with_def parse_i64_def ascii_digitp_def Let_def)

lemma read_reply_bulk:
  "read_reply fuel \<lparr>rbuf = [], segments = (''$5'' @ resp_crlf @ rest) # segs\<rparr> =
     (case read_exact_raw 7 segs of
        None \<Rightarrow> (RespErr, \<lparr>rbuf = rest, segments = []\<rparr>)
      | Some (bulk, segs') \<Rightarrow> (RespOk (from_utf8_lossy (take 5 bulk)), \<lparr>rbuf = rest, segments = segs'\<rparr>))"
  unfolding read_reply.simps [of fuel] resp_conn.select_convs read_bulk_line option.case prod.case bulk_header
  by (simp add: bulk_header split: option.split)

text \<open>The whole reply in one segment: the payload sits in the buffer and the socket is empty.\<close>

lemma read_reply_one_segment:
  assumes "length v = 5"
  shows "fst (read_reply 1 \<lparr>rbuf = [], segments = [bulk_reply v]\<rparr>) = RespErr"
proof -
  have "read_exact_raw 7 [] = None" by (simp add: numeral_eq_Suc)
  then show ?thesis unfolding bulk_5 [OF assms] read_reply_bulk by simp
qed

text \<open>The payload in a segment of its own: the reply is read correctly.\<close>

definition line_then_rest :: "str \<Rightarrow> str list" where
  "line_then_rest r = [takeWhile (\<lambda>c. c \<noteq> CHR 0x0A) r @ [CHR 0x0A], drop 1 (dropWhile (\<lambda>c. c \<noteq> CHR 0x0A) r)]"

lemma line_then_rest_bulk: "length v = 5 \<Longrightarrow> line_then_rest (bulk_reply v) = [''$5'' @ resp_crlf @ [], v @ resp_crlf]"
  by (simp add: bulk_5 line_then_rest_def)

lemma read_exact_all: "read_exact_raw (length xs) [xs @ ys] = Some (xs, [ys])"
proof (induction xs)
  case (Cons x xs)
  then show ?case by simp
qed simp

lemma read_reply_two_segments:
  assumes "v = ''local'' \<or> v = ''cloud''"
  shows "fst (read_reply 1 \<lparr>rbuf = [], segments = line_then_rest (bulk_reply v)\<rparr>) = RespOk v"
proof -
  have len: "length v = 5" using assms by auto
  have "read_exact_raw 7 [v @ resp_crlf] = Some (v @ resp_crlf, [[]])"
    using read_exact_all [of "v @ resp_crlf" "[]"] len by simp
  moreover have "from_utf8_lossy v = v"
    using assms by (auto simp: from_utf8_lossy_def of_chars_def utf8_enc_def of_codes_def seq_len_def char_of_def bit_0)
  ultimately show ?thesis
    unfolding line_then_rest_bulk [OF len] read_reply_bulk using len by simp
qed

lemma pin_script_value:
  assumes "redis_wf db"
  shows "snd (pin_script db (pin_key k) (if s then ''local'' else ''cloud'')) \<in> {''local'', ''cloud''}"
  using assms by (auto simp: pin_script_def redis_wf_def split: option.splits)

text \<open>
  The payload of a bulk reply is read from the socket behind the buffered
  reader. When the reply arrives in one segment, as small replies do, the payload is
  already in the buffer, the read fails, and the stored pin is ignored: a session
  stored as local is answered cloud on its next turn that is not sensitive.
\<close>

lemma redis_pin_ignored:
  assumes "redis_wf db"
  shows "snd (redis_session_pin True (\<lambda>reply. [reply]) db k s) = (if s then Local else Cloud)"
proof -
  obtain db' cur where script: "pin_script db (pin_key k) (if s then ''local'' else ''cloud'') = (db', cur)"
    by force
  then have "length cur = 5" using pin_script_value [OF assms, of k s] by auto
  from read_reply_one_segment [OF this] show ?thesis
    using script by (auto simp: redis_session_pin_def Let_def split: prod.splits resp_result.splits if_splits)
qed

definition redis_pinned :: "redis_db \<Rightarrow> str set" where
  "redis_pinned db = {k. map_of (strings db) (pin_key k) = Some ''local''}"

definition redis_step :: "redis_db \<Rightarrow> bool \<times> str \<times> bool \<Rightarrow> redis_db \<times> route_pin" where
  "redis_step db r = (case r of (up, k, s) \<Rightarrow> redis_session_pin up line_then_rest db k s)"

lemma redis_pinned_update:
  "redis_pinned (db\<lparr>strings := AList.update (pin_key k) v (strings db)\<rparr>) =
     (if v = ''local'' then insert k (redis_pinned db) else redis_pinned db - {k})"
  by (auto simp: redis_pinned_def update_conv' split: if_splits)

lemma pin_script_spec:
  fixes k :: str and s :: bool
  assumes "redis_wf db"
  defines "p \<equiv> pin_script db (pin_key k) (if s then ''local'' else ''cloud'')"
  shows "snd p = (if s \<or> k \<in> redis_pinned db then ''local'' else ''cloud'')"
    and "redis_pinned (fst p) = (if s \<or> k \<in> redis_pinned db then insert k (redis_pinned db) else redis_pinned db)"
proof -
  consider (new) "map_of (strings db) (pin_key k) = None"
    | (loc) "map_of (strings db) (pin_key k) = Some ''local''"
    | (clo) "map_of (strings db) (pin_key k) = Some ''cloud''"
    using assms(1) unfolding redis_wf_def by (metis option.exhaust)
  then have "snd p = (if s \<or> k \<in> redis_pinned db then ''local'' else ''cloud'')
    \<and> redis_pinned (fst p) = (if s \<or> k \<in> redis_pinned db then insert k (redis_pinned db) else redis_pinned db)"
  proof cases
    case new
    then have "k \<notin> redis_pinned db" by (simp add: redis_pinned_def)
    with new show ?thesis by (simp add: p_def pin_script_def redis_pinned_update)
  next
    case loc
    then have "k \<in> redis_pinned db" by (simp add: redis_pinned_def)
    with loc show ?thesis by (simp add: p_def pin_script_def insert_absorb)
  next
    case clo
    then have "k \<notin> redis_pinned db" by (simp add: redis_pinned_def)
    with clo show ?thesis by (simp add: p_def pin_script_def redis_pinned_update)
  qed
  then show "snd p = (if s \<or> k \<in> redis_pinned db then ''local'' else ''cloud'')"
    and "redis_pinned (fst p) = (if s \<or> k \<in> redis_pinned db then insert k (redis_pinned db) else redis_pinned db)"
    by simp_all
qed

lemma redis_step_live:
  fixes k :: str and s :: bool
  assumes "redis_wf db"
  defines "p \<equiv> pin_script db (pin_key k) (if s then ''local'' else ''cloud'')"
  shows "redis_step db (True, k, s) = (fst p, if snd p = ''local'' then Local else Cloud)"
proof -
  have c: "snd p = ''local'' \<or> snd p = ''cloud''" using pin_script_spec(1) [OF assms(1)] unfolding p_def by auto
  have "\<exists>conn. read_reply 1 \<lparr>rbuf = [], segments = line_then_rest (bulk_reply (snd p))\<rparr> = (RespOk (snd p), conn)"
    using read_reply_two_segments [OF c] by (metis prod.collapse)
  then show ?thesis
    by (auto simp: redis_step_def redis_session_pin_def p_def Let_def case_prod_beta)
qed

interpretation redis: pin_store redis_step snd redis_pinned "\<lambda>db r. redis_wf db \<and> fst r"
proof
  fix db and r :: "bool \<times> str \<times> bool"
  assume live: "redis_wf db \<and> fst r"
  obtain k s where r: "r = (True, k, s)" using live by (cases r) auto
  note spec = redis_step_live [of db k s] pin_script_spec [of db k s]
  show "snd (redis_step db r) = snd (pin_spec (redis_pinned db) (snd r))"
    unfolding r using spec live by (simp add: pin_spec_def)
  show "redis_pinned (fst (redis_step db r)) = fst (pin_spec (redis_pinned db) (snd r))"
    unfolding r using spec live by (simp add: pin_spec_def)
qed

end
