(* ===== verification/Circuit.thy ===== *)
theory Circuit
  imports Prelude
begin

text \<open>
  The circuit breaker of \<open>pool/circuit.rs\<close>: the three-state machine behind the
  mutex. Every operation takes the lock, so a run is a sequence of \<open>check\<close> and
  \<open>record\<close> calls, each with the clock reading it makes.
\<close>

definition FAILURE_THRESHOLD :: "32 word" where "FAILURE_THRESHOLD = 5"
definition SUCCESS_THRESHOLD :: "32 word" where "SUCCESS_THRESHOLD = 2"
definition OPEN_TIMEOUT :: int where "OPEN_TIMEOUT = 30 * 10 ^ 9"
definition PROBE_INTERVAL :: int where "PROBE_INTERVAL = 5 * 10 ^ 9"

datatype cb_state =
    Closed (consecutive_failures: "32 word")
  | Open (tripped_at: instant)
  | HalfOpen (consecutive_successes: "32 word") (last_probe: instant) (probe_in_flight: bool)

fun cb_name :: "cb_state \<Rightarrow> str" where
  "cb_name (Closed _) = ''closed''"
| "cb_name (Open _) = ''open''"
| "cb_name (HalfOpen _ _ _) = ''half-open''"

datatype circuit_decision = Allowed | Reject (reject_reason: str)

datatype outcome = Success | Failure

definition new_breaker :: cb_state where
  "new_breaker = Closed 0"

fun check :: "instant \<Rightarrow> cb_state \<Rightarrow> cb_state \<times> circuit_decision" where
  "check now (Closed n) = (Closed n, Allowed)"
| "check now (Open t) =
     (if duration_since now t \<ge> OPEN_TIMEOUT then (HalfOpen 0 now True, Allowed)
      else (Open t, Reject ''circuit open''))"
| "check now (HalfOpen s t inflight) =
     (if inflight then (HalfOpen s t inflight, Reject ''half-open probe in flight'')
      else if duration_since now t \<ge> PROBE_INTERVAL then (HalfOpen s now True, Allowed)
      else (HalfOpen s t inflight, Reject ''half-open cooldown''))"

fun record_outcome :: "instant \<Rightarrow> cb_state \<Rightarrow> outcome \<Rightarrow> cb_state" where
  "record_outcome now (Closed n) Success = Closed 0"
| "record_outcome now (Closed n) Failure =
     (if n + 1 \<ge> FAILURE_THRESHOLD then Open now else Closed (n + 1))"
| "record_outcome now (HalfOpen s t inflight) Success =
     (if s + 1 \<ge> SUCCESS_THRESHOLD then Closed 0 else HalfOpen (s + 1) now False)"
| "record_outcome now (HalfOpen s t inflight) Failure = Open now"
| "record_outcome now (Open t) oc = Open t"

definition state_name :: "cb_state \<Rightarrow> str" where
  "state_name st = cb_name st"

fun is_healthy :: "cb_state \<Rightarrow> bool" where
  "is_healthy (Closed _) = True"
| "is_healthy _ = False"

text \<open>
  The macro \<open>with_circuit!\<close>: the wrapped call runs only when the check allows it,
  between the two lock acquisitions; it returns a \<open>Result\<close> and the clock has moved.
\<close>

definition with_circuit ::
  "instant \<Rightarrow> instant \<Rightarrow> cb_state \<Rightarrow> (unit \<Rightarrow> str + 'a) \<Rightarrow> cb_state \<times> (str + 'a)" where
  "with_circuit t1 t2 st call =
     (case check t1 st of
        (st', Allowed) \<Rightarrow>
          (case call () of
             Inr v \<Rightarrow> (record_outcome t2 st' Success, Inr v)
           | Inl e \<Rightarrow> (record_outcome t2 st' Failure, Inl e))
      | (st', Reject reason) \<Rightarrow> (st', Inl (''circuit breaker: '' @ reason)))"

subsection \<open>Runs\<close>

datatype cb_op = Check (op_time: instant) | Record (op_time: instant) (op_outcome: outcome)

fun cb_step :: "cb_state \<Rightarrow> cb_op \<Rightarrow> cb_state" where
  "cb_step st (Check now) = fst (check now st)"
| "cb_step st (Record now oc) = record_outcome now st oc"

fun outcomes :: "cb_op list \<Rightarrow> outcome list" where
  "outcomes [] = []"
| "outcomes (Check _ # ops) = outcomes ops"
| "outcomes (Record _ oc # ops) = oc # outcomes ops"

fun decisions :: "cb_state \<Rightarrow> cb_op list \<Rightarrow> circuit_decision list" where
  "decisions st [] = []"
| "decisions st (Check now # ops) = snd (check now st) # decisions (fst (check now st)) ops"
| "decisions st (Record now oc # ops) = decisions (record_outcome now st oc) ops"

lemma outcomes_append [simp]: "outcomes (xs @ ys) = outcomes xs @ outcomes ys"
  by (induction xs rule: outcomes.induct) auto

lemma outcomes_snoc_Record: "outcomes (ops @ [Record t oc]) = outcomes ops @ [oc]"
  by simp

text \<open>The counters stay below their thresholds, so \<open>consecutive_failures + 1\<close> never wraps.\<close>

fun cb_ok :: "cb_state \<Rightarrow> bool" where
  "cb_ok (Closed n) = (n < FAILURE_THRESHOLD)"
| "cb_ok (Open _) = True"
| "cb_ok (HalfOpen s _ _) = (s < SUCCESS_THRESHOLD)"

lemma cb_ok_check [simp]: "cb_ok st \<Longrightarrow> cb_ok (fst (check now st))"
  by (cases st) (auto simp: SUCCESS_THRESHOLD_def)

lemma cb_ok_record [simp]: "cb_ok st \<Longrightarrow> cb_ok (record_outcome now st oc)"
  by (cases st; cases oc) (auto simp: FAILURE_THRESHOLD_def SUCCESS_THRESHOLD_def not_le)

interpretation breaker: invariant_machine new_breaker cb_step cb_ok
proof
  show "cb_ok new_breaker" by (simp add: new_breaker_def FAILURE_THRESHOLD_def)
next
  fix s a
  assume "cb_ok s"
  then show "cb_ok (cb_step s a)" by (cases a) simp_all
qed

subsection \<open>When the breaker trips\<close>

definition failure_streak :: "outcome list \<Rightarrow> nat" where
  "failure_streak os = length (takeWhile (\<lambda>oc. oc = Failure) (rev os))"

definition tripping :: "outcome list \<Rightarrow> bool" where
  "tripping os = sublist (replicate 5 Failure) os"

lemma failure_streak_snoc [simp]:
  "failure_streak (os @ [oc]) = (if oc = Failure then Suc (failure_streak os) else 0)"
  by (cases oc) (simp_all add: failure_streak_def)

lemma failure_streak_Nil [simp]: "failure_streak [] = 0"
  by (simp add: failure_streak_def)

lemma replicate_suffix_streak: "suffix (replicate n Failure) os \<longleftrightarrow> n \<le> failure_streak os"
proof (induction os arbitrary: n rule: rev_induct)
  case (snoc oc os)
  have "suffix (replicate m Failure @ [Failure]) (os @ [oc]) \<longleftrightarrow> oc = Failure \<and> m \<le> failure_streak os" for m
    unfolding snoc [symmetric] by auto
  then show ?case
    by (cases n) (simp_all only: replicate_Suc replicate_append_same [symmetric] failure_streak_snoc, auto)
qed (simp add: failure_streak_def)

lemma tripping_snoc:
  "tripping (os @ [oc]) \<longleftrightarrow> tripping os \<or> 5 \<le> failure_streak (os @ [oc])"
  unfolding tripping_def replicate_suffix_streak [symmetric] sublist_snoc by auto

lemma of_nat_lt5: "n < 5 \<Longrightarrow> 5 \<le> 1 + (word_of_nat n :: 32 word) \<longleftrightarrow> 4 \<le> n"
proof -
  assume n: "n < 5"
  then have "unat (1 + (word_of_nat n :: 32 word)) = Suc n"
    by (simp add: unat_plus_if' unat_of_nat take_bit_nat_eq_self)
  with n show ?thesis by (simp add: word_le_nat_alt)
qed

text \<open>
  As long as no five outcomes in a row were failures the breaker is closed and
  holds the length of the current failure streak.
\<close>

lemma closed_streak:
  "\<not> tripping (outcomes ops) \<Longrightarrow>
   foldl cb_step new_breaker ops = Closed (of_nat (failure_streak (outcomes ops)))
   \<and> failure_streak (outcomes ops) < 5"
proof (induction ops rule: rev_induct)
  case Nil
  show ?case by (simp add: new_breaker_def)
next
  case (snoc x ops)
  show ?case
  proof (cases x)
    case (Check t)
    with snoc show ?thesis by simp
  next
    case (Record t oc)
    with snoc.prems have nt: "\<not> tripping (outcomes ops)" "failure_streak (outcomes ops @ [oc]) < 5"
      by (auto simp: tripping_snoc)
    with snoc.IH Record show ?thesis
      by (cases oc) (auto simp: FAILURE_THRESHOLD_def of_nat_lt5 add.commute)
  qed
qed

lemma trips_at:
  assumes "\<not> tripping (outcomes ops)" and "tripping (outcomes ops @ [oc])"
  shows "foldl cb_step new_breaker (ops @ [Record t oc]) = Open t"
proof -
  from assms have five: "5 \<le> failure_streak (outcomes ops @ [oc])" by (simp add: tripping_snoc)
  then have oc: "oc = Failure" by (cases oc) auto
  with five closed_streak [OF assms(1)] show ?thesis
    by (auto simp: FAILURE_THRESHOLD_def of_nat_lt5 add.commute)
qed

lemma tripping_first:
  assumes "tripping (outcomes ops)"
  shows "\<exists>pre t oc post. ops = pre @ Record t oc # post \<and> \<not> tripping (outcomes pre)
           \<and> tripping (outcomes pre @ [oc])"
  using assms
proof (induction ops rule: rev_induct)
  case Nil
  then show ?case by (simp add: tripping_def)
next
  case (snoc x ops)
  show ?case
  proof (cases "tripping (outcomes ops)")
    case True
    then show ?thesis using snoc.IH by fastforce
  next
    case False
    with snoc.prems obtain t oc where "x = Record t oc" by (cases x) auto
    with False snoc.prems show ?thesis by fastforce
  qed
qed

text \<open>
  C8: for every sequence of checks and recorded outcomes from a fresh breaker, the
  breaker has been closed at every moment exactly when the outcomes recorded so
  far contain no five failures in a row; a check on the way never changes it.
\<close>

theorem breaker_trips_exactly:
  "(\<forall>k. is_healthy (foldl cb_step new_breaker (take k ops))) \<longleftrightarrow>
   \<not> sublist (replicate 5 Failure) (outcomes ops)"
proof
  assume no: "\<not> sublist (replicate 5 Failure) (outcomes ops)"
  show "\<forall>k. is_healthy (foldl cb_step new_breaker (take k ops))"
  proof
    fix k
    have "outcomes ops = outcomes (take k ops) @ outcomes (drop k ops)"
      by (metis append_take_drop_id outcomes_append)
    with no have "\<not> tripping (outcomes (take k ops))"
      unfolding tripping_def by (metis sublist_append_rightI sublist_order.order_trans)
    then show "is_healthy (foldl cb_step new_breaker (take k ops))"
      by (simp add: closed_streak)
  qed
next
  assume all: "\<forall>k. is_healthy (foldl cb_step new_breaker (take k ops))"
  show "\<not> sublist (replicate 5 Failure) (outcomes ops)"
  proof
    assume "sublist (replicate 5 Failure) (outcomes ops)"
    then obtain pre t oc post where "ops = pre @ Record t oc # post" "\<not> tripping (outcomes pre)"
      "tripping (outcomes pre @ [oc])"
      using tripping_first tripping_def by metis
    then have "take (Suc (length pre)) ops = pre @ [Record t oc]"
      and "foldl cb_step new_breaker (pre @ [Record t oc]) = Open t"
      using trips_at by simp_all
    with all show False by (metis is_healthy.simps(2))
  qed
qed

subsection \<open>The open and half-open phases\<close>

lemma open_phase:
  assumes "\<forall>a\<in>set ops. op_time a < t + OPEN_TIMEOUT"
  shows "foldl cb_step (Open t) ops = Open t
    \<and> (\<forall>d\<in>set (decisions (Open t) ops). d = Reject ''circuit open'')"
  using assms
proof (induction ops)
  case (Cons a ops)
  then show ?case by (cases a) (auto simp: duration_since_def OPEN_TIMEOUT_def)
qed simp

lemma probe_phase:
  assumes "outcomes ops = []"
  shows "foldl cb_step (HalfOpen s t True) ops = HalfOpen s t True
    \<and> (\<forall>d\<in>set (decisions (HalfOpen s t True) ops). d = Reject ''half-open probe in flight'')"
  using assms
proof (induction ops)
  case (Cons a ops)
  then show ?case by (cases a) auto
qed simp

lemma decisions_append:
  "decisions st (xs @ ys) = decisions st xs @ decisions (foldl cb_step st xs) ys"
  by (induction st xs rule: decisions.induct) auto

text \<open>
  A breaker that tripped at \<open>t\<close> rejects every request for thirty seconds
  whatever is recorded meanwhile; the first check after that is allowed as a
  probe, and until its outcome is recorded every other check is rejected. A failed
  probe trips the breaker again at the time of the failure.
\<close>

lemma open_then_single_probe:
  assumes "\<forall>a\<in>set waiting. op_time a < t + OPEN_TIMEOUT"
    and "t + OPEN_TIMEOUT \<le> now"
    and "outcomes probing = []"
  shows "(\<exists>n m. decisions (Open t) (waiting @ Check now # probing) =
            replicate n (Reject ''circuit open'') @ Allowed
              # replicate m (Reject ''half-open probe in flight''))
       \<and> foldl cb_step (Open t) (waiting @ Check now # probing @ [Record now' Failure]) = Open now'"
proof -
  have w: "foldl cb_step (Open t) waiting = Open t"
    "decisions (Open t) waiting = replicate (length (decisions (Open t) waiting)) (Reject ''circuit open'')"
    using open_phase [OF assms(1)] by (auto intro: replicate_length_same [symmetric])
  have p: "foldl cb_step (HalfOpen 0 now True) probing = HalfOpen 0 now True"
    "decisions (HalfOpen 0 now True) probing =
       replicate (length (decisions (HalfOpen 0 now True) probing)) (Reject ''half-open probe in flight'')"
    using probe_phase [OF assms(3)] by (auto intro: replicate_length_same [symmetric])
  have "check now (Open t) = (HalfOpen 0 now True, Allowed)"
    using assms(2) by (auto simp: duration_since_def)
  then have "decisions (Open t) (waiting @ Check now # probing) =
      decisions (Open t) waiting @ Allowed # decisions (HalfOpen 0 now True) probing"
    and "foldl cb_step (Open t) (waiting @ Check now # probing @ [Record now' Failure]) = Open now'"
    by (simp_all add: decisions_append w(1) p(1) del: check.simps)
  with w(2) p(2) show ?thesis by metis
qed

end
