(* ===== verification/Registry.thy ===== *)
theory Registry
  imports Utf8
begin

text \<open>
  Upstream selection: the static tables of \<open>route/registry.rs\<close>, the round-robin
  balancer of \<open>route/balancer.rs\<close> and one round of the health checker of
  \<open>pool/health.rs\<close>. The environment variables and the outcome of a TCP connect are
  parameters.
\<close>

subsection \<open>The registry (\<open>route/registry.rs\<close>)\<close>

record upstream_target =
  ut_name :: str
  host :: str
  port :: nat
  base_path :: str
  tls :: bool
  is_local :: bool
  key_env :: str
  key_hdr :: str
  key_pfx :: str

definition UPSTREAMS :: "upstream_target list" where
  "UPSTREAMS =
     [\<lparr>ut_name = ''openai'', host = ''api.openai.com'', port = 443, base_path = ''/v1'', tls = True,
       is_local = False, key_env = ''OPENAI_API_KEY'', key_hdr = ''Authorization'', key_pfx = ''Bearer ''\<rparr>,
      \<lparr>ut_name = ''anthropic'', host = ''api.anthropic.com'', port = 443, base_path = ''/v1'', tls = True,
       is_local = False, key_env = ''ANTHROPIC_API_KEY'', key_hdr = ''x-api-key'', key_pfx = ''''\<rparr>,
      \<lparr>ut_name = ''ollama'', host = ''127.0.0.1'', port = 11434, base_path = ''/api'', tls = False,
       is_local = True, key_env = '''', key_hdr = '''', key_pfx = ''''\<rparr>,
      \<lparr>ut_name = ''local'', host = ''127.0.0.1'', port = 8001, base_path = ''/v1'', tls = False,
       is_local = True, key_env = '''', key_hdr = '''', key_pfx = ''''\<rparr>]"

definition MODEL_ROUTES :: "(str \<times> str) list" where
  "MODEL_ROUTES =
     [(''gpt-'', ''openai''), (''o1-'', ''openai''), (''o3-'', ''openai''), (''text-'', ''openai''),
      (''claude-'', ''anthropic''), (''llama'', ''ollama''), (''mistral'', ''ollama''),
      (''qwen'', ''ollama''), (''gemma'', ''ollama''), (''phi'', ''ollama''), (''local/'', ''local'')]"

definition find_target :: "str \<Rightarrow> upstream_target option" where
  "find_target name = find (\<lambda>t. ut_name t = name) UPSTREAMS"

fun first_route :: "str \<Rightarrow> (str \<times> str) list \<Rightarrow> upstream_target option" where
  "first_route lower [] = None"
| "first_route lower ((pfx, name) # rs) =
     (if starts_with lower pfx
      then (case find_target name of Some t \<Rightarrow> Some t | None \<Rightarrow> first_route lower rs)
      else first_route lower rs)"

definition resolve_upstream :: "unicode \<Rightarrow> str \<Rightarrow> upstream_target" where
  "resolve_upstream u m =
     (case first_route (lowercase u m) MODEL_ROUTES of
        Some t \<Rightarrow> t
      | None \<Rightarrow> the (find_target ''openai''))"

definition resolve_named :: "str \<Rightarrow> upstream_target option" where
  "resolve_named name = find_target name"

definition build_auth_headers :: "(str \<Rightarrow> str option) \<Rightarrow> upstream_target \<Rightarrow> (str \<times> str) list" where
  "build_auth_headers env t =
     (if key_env t = [] then []
      else let key = (case env (key_env t) of Some k \<Rightarrow> k | None \<Rightarrow> [])
           in if key = [] then [] else [(key_hdr t, key_pfx t @ key)])"

definition all_upstreams :: "upstream_target list" where
  "all_upstreams = UPSTREAMS"

lemma find_target_simps:
  "find_target ''openai'' = Some (UPSTREAMS ! 0)" "find_target ''anthropic'' = Some (UPSTREAMS ! 1)"
  "find_target ''ollama'' = Some (UPSTREAMS ! 2)" "find_target ''local'' = Some (UPSTREAMS ! 3)"
  by (simp_all add: find_target_def UPSTREAMS_def)

lemma first_route_in: "first_route l rs = Some t \<Longrightarrow> t \<in> set UPSTREAMS"
  by (induction l rs rule: first_route.induct)
     (auto split: if_splits option.splits simp: find_target_def find_Some_iff)

lemma resolve_upstream_in: "resolve_upstream u m \<in> set UPSTREAMS"
  by (auto simp: resolve_upstream_def find_target_simps UPSTREAMS_def split: option.splits dest: first_route_in)

text \<open>
  Credentials: an upstream on this host gets no authentication header, and a header
  sent to a remote upstream carries the key of that upstream's own variable.
\<close>

lemma auth_headers_sound:
  assumes "t \<in> set UPSTREAMS" and "(h, v) \<in> set (build_auth_headers env t)"
  shows "\<not> is_local t \<and> tls t \<and> h = key_hdr t \<and> (\<exists>k. k \<noteq> [] \<and> env (key_env t) = Some k \<and> v = key_pfx t @ k)"
  using assms by (auto simp: build_auth_headers_def UPSTREAMS_def Let_def split: if_splits option.splits)

subsection \<open>The balancer (\<open>route/balancer.rs\<close>)\<close>

record addr_slot =
  slot_host :: str
  slot_port :: nat
  healthy :: bool

definition new_slot :: "str \<Rightarrow> nat \<Rightarrow> addr_slot" where
  "new_slot h p = \<lparr>slot_host = h, slot_port = p, healthy = True\<rparr>"

text \<open>The counter is a \<open>usize\<close>; \<open>fetch_add\<close> wraps.\<close>

record load_balancer =
  slots :: "addr_slot list"
  next_idx :: "64 word"

definition new_balancer :: "(str \<times> nat) list \<Rightarrow> load_balancer" where
  "new_balancer addrs = \<lparr>slots = map (\<lambda>(h, p). new_slot h p) addrs, next_idx = 0\<rparr>"

fun lb_try :: "nat \<Rightarrow> addr_slot list \<Rightarrow> 64 word \<Rightarrow> 64 word \<times> addr_slot option" where
  "lb_try 0 ss i = (i, None)"
| "lb_try (Suc n) ss i =
     (let slot = ss ! (unat i mod length ss)
      in if healthy slot then (i + 1, Some slot) else lb_try n ss (i + 1))"

definition lb_next :: "load_balancer \<Rightarrow> load_balancer \<times> addr_slot option" where
  "lb_next lb =
     (if slots lb = [] then (lb, None)
      else let (i, r) = lb_try (length (slots lb)) (slots lb) (next_idx lb)
           in (lb\<lparr>next_idx := i\<rparr>, r))"

fun set_health :: "bool \<Rightarrow> str \<Rightarrow> nat \<Rightarrow> addr_slot list \<Rightarrow> addr_slot list" where
  "set_health b h p [] = []"
| "set_health b h p (s # ss) =
     (if slot_host s = h \<and> slot_port s = p then s\<lparr>healthy := b\<rparr> # ss else s # set_health b h p ss)"

definition lb_mark_unhealthy :: "load_balancer \<Rightarrow> str \<Rightarrow> nat \<Rightarrow> load_balancer" where
  "lb_mark_unhealthy lb h p = lb\<lparr>slots := set_health False h p (slots lb)\<rparr>"

definition lb_mark_healthy :: "load_balancer \<Rightarrow> str \<Rightarrow> nat \<Rightarrow> load_balancer" where
  "lb_mark_healthy lb h p = lb\<lparr>slots := set_health True h p (slots lb)\<rparr>"

definition healthy_count :: "load_balancer \<Rightarrow> nat" where
  "healthy_count lb = length (filter healthy (slots lb))"

type_synonym balancer_registry = "(str \<times> load_balancer) list"

definition new_registry :: balancer_registry where
  "new_registry = map (\<lambda>t. (ut_name t, new_balancer [(host t, port t)])) all_upstreams"

text \<open>The first entry of that name is used; the others keep their state.\<close>

fun update_first :: "str \<Rightarrow> (load_balancer \<Rightarrow> load_balancer) \<Rightarrow> balancer_registry \<Rightarrow> balancer_registry" where
  "update_first n f [] = []"
| "update_first n f ((k, lb) # es) = (if k = n then (k, f lb) # es else (k, lb) # update_first n f es)"

definition next_for :: "balancer_registry \<Rightarrow> str \<Rightarrow> balancer_registry \<times> (str \<times> nat) option" where
  "next_for reg n =
     (case map_of reg n of
        None \<Rightarrow> (reg, None)
      | Some lb \<Rightarrow> (update_first n (fst \<circ> lb_next) reg,
                    map_option (\<lambda>s. (slot_host s, slot_port s)) (snd (lb_next lb))))"

definition reg_mark_unhealthy :: "balancer_registry \<Rightarrow> str \<Rightarrow> str \<Rightarrow> nat \<Rightarrow> balancer_registry" where
  "reg_mark_unhealthy reg n h p = update_first n (\<lambda>lb. lb_mark_unhealthy lb h p) reg"

definition reg_mark_healthy :: "balancer_registry \<Rightarrow> str \<Rightarrow> str \<Rightarrow> nat \<Rightarrow> balancer_registry" where
  "reg_mark_healthy reg n h p = update_first n (\<lambda>lb. lb_mark_healthy lb h p) reg"

subsection \<open>Round robin finds a healthy slot\<close>

abbreviation nth_cyclic :: "addr_slot list \<Rightarrow> 64 word \<Rightarrow> nat \<Rightarrow> addr_slot" where
  "nth_cyclic ss i k \<equiv> ss ! ((unat i + k) mod length ss)"

lemma unat_inc: "unat i + Suc n \<le> 2 ^ 64 \<Longrightarrow> 0 < n \<Longrightarrow> unat (i + 1 :: 64 word) = Suc (unat i)"
  by (simp add: unat_word_ariths)

lemma lb_try_cases:
  assumes "unat i + n \<le> 2 ^ 64"
  shows "(\<exists>k<n. healthy (nth_cyclic ss i k) \<and> (\<forall>j<k. \<not> healthy (nth_cyclic ss i j))
            \<and> lb_try n ss i = (i + word_of_nat (Suc k), Some (nth_cyclic ss i k)))
       \<or> (\<forall>j<n. \<not> healthy (nth_cyclic ss i j)) \<and> snd (lb_try n ss i) = None"
  using assms
proof (induction n arbitrary: i)
  case (Suc n)
  show ?case
  proof (cases "healthy (nth_cyclic ss i 0) \<or> n = 0")
    case True
    then show ?thesis by (auto simp: Let_def intro!: exI [of _ 0])
  next
    case False
    with unat_inc [OF Suc.prems] have u: "unat (i + 1) = Suc (unat i)" by simp
    with Suc.prems have "unat (i + 1) + n \<le> 2 ^ 64" by simp
    from Suc.IH [OF this] show ?thesis
    proof
      assume "\<exists>k<n. healthy (nth_cyclic ss (i + 1) k) \<and> (\<forall>j<k. \<not> healthy (nth_cyclic ss (i + 1) j))
          \<and> lb_try n ss (i + 1) = (i + 1 + word_of_nat (Suc k), Some (nth_cyclic ss (i + 1) k))"
      then obtain k where k: "k < n" "healthy (nth_cyclic ss i (Suc k))"
          "\<forall>j<k. \<not> healthy (nth_cyclic ss i (Suc j))"
          "lb_try n ss (i + 1) = (i + 1 + word_of_nat (Suc k), Some (nth_cyclic ss i (Suc k)))"
        by (auto simp: u)
      moreover from k(3) False have "\<forall>j<Suc k. \<not> healthy (nth_cyclic ss i j)"
        by (metis less_Suc_eq_0_disj)
      ultimately show ?thesis
        using False by (auto simp: Let_def ac_simps intro!: exI [of _ "Suc k"])
    next
      assume "(\<forall>j<n. \<not> healthy (nth_cyclic ss (i + 1) j)) \<and> snd (lb_try n ss (i + 1)) = None"
      then have "\<forall>j<n. \<not> healthy (nth_cyclic ss i (Suc j))" "snd (lb_try n ss (i + 1)) = None"
        by (auto simp: u)
      with False have "\<forall>j<Suc n. \<not> healthy (nth_cyclic ss i j)"
        by (metis less_Suc_eq_0_disj)
      with False \<open>snd (lb_try n ss (i + 1)) = None\<close> show ?thesis by (simp add: Let_def)
    qed
  qed
qed simp

lemma cyclic_covers:
  assumes "x \<in> set ss"
  shows "\<exists>k<length ss. nth_cyclic ss i k = x"
proof -
  from assms obtain m where m: "m < length ss" "ss ! m = x" by (auto simp: in_set_conv_nth)
  let ?n = "length ss" and ?a = "unat i mod length ss"
  have a: "?a < ?n" using m by (auto intro: mod_less_divisor)
  let ?k = "if ?a \<le> m then m - ?a else m + ?n - ?a"
  have "?k < ?n" using m a by auto
  moreover have "(?a + ?k) mod ?n = m" using m a by auto
  then have "(unat i + ?k) mod ?n = m" by (metis mod_add_left_eq)
  ultimately show ?thesis using m by metis
qed

text \<open>
  C9: as long as the counter does not wrap, \<open>next\<close> answers with an address exactly
  when some slot is healthy, and it is the first healthy slot in cyclic order from
  the counter, which moves just past it.
\<close>

theorem balancer_finds_healthy:
  assumes "unat (next_idx lb) + length (slots lb) \<le> 2 ^ 64"
  shows "((\<exists>s\<in>set (slots lb). healthy s) \<longleftrightarrow> snd (lb_next lb) \<noteq> None)
    \<and> (case lb_next lb of
         (lb', Some s) \<Rightarrow> \<exists>k<length (slots lb).
            s = nth_cyclic (slots lb) (next_idx lb) k \<and> healthy s
            \<and> (\<forall>j<k. \<not> healthy (nth_cyclic (slots lb) (next_idx lb) j))
            \<and> lb' = lb\<lparr>next_idx := next_idx lb + word_of_nat (Suc k)\<rparr>
       | (lb', None) \<Rightarrow> slots lb' = slots lb)"
proof (cases "slots lb = []")
  case False
  from lb_try_cases [OF assms, of "slots lb"] show ?thesis
  proof
    assume "\<exists>k<length (slots lb). healthy (nth_cyclic (slots lb) (next_idx lb) k)
        \<and> (\<forall>j<k. \<not> healthy (nth_cyclic (slots lb) (next_idx lb) j))
        \<and> lb_try (length (slots lb)) (slots lb) (next_idx lb)
            = (next_idx lb + word_of_nat (Suc k), Some (nth_cyclic (slots lb) (next_idx lb) k))"
    then obtain k where k: "k < length (slots lb)" "healthy (nth_cyclic (slots lb) (next_idx lb) k)"
        "\<forall>j<k. \<not> healthy (nth_cyclic (slots lb) (next_idx lb) j)"
        "lb_next lb = (lb\<lparr>next_idx := next_idx lb + word_of_nat (Suc k)\<rparr>,
           Some (nth_cyclic (slots lb) (next_idx lb) k))"
      using False by (auto simp: lb_next_def)
    moreover have "nth_cyclic (slots lb) (next_idx lb) k \<in> set (slots lb)"
      using False by (simp add: mod_less_divisor)
    ultimately show ?thesis by auto
  next
    assume "(\<forall>j<length (slots lb). \<not> healthy (nth_cyclic (slots lb) (next_idx lb) j))
        \<and> snd (lb_try (length (slots lb)) (slots lb) (next_idx lb)) = None"
    moreover from this have "\<not> healthy s" if "s \<in> set (slots lb)" for s
      using cyclic_covers [OF that, of "next_idx lb"] by auto
    ultimately show ?thesis
      using False by (auto simp: lb_next_def split: prod.splits)
  qed
qed (simp add: lb_next_def)

theorem balancer_finds_healthy_witness:
  "snd (lb_next \<lparr>slots = [\<lparr>slot_host = ''a'', slot_port = 1, healthy = False\<rparr>,
      \<lparr>slot_host = ''b'', slot_port = 2, healthy = True\<rparr>], next_idx = 4\<rparr>) \<noteq> None"
  using balancer_finds_healthy [of "\<lparr>slots = [\<lparr>slot_host = ''a'', slot_port = 1, healthy = False\<rparr>,
      \<lparr>slot_host = ''b'', slot_port = 2, healthy = True\<rparr>], next_idx = 4\<rparr>"]
  by simp

subsection \<open>The health checker (\<open>pool/health.rs\<close>)\<close>

text \<open>
  \<open>SocketAddr::from_str\<close>: four decimal octets without leading zeros, a colon and a
  port; a text that opens with a bracket is left to the IPv6 parser, a parameter.
  Host names are not addresses.
\<close>

datatype socket_addr = V4 "nat list" nat | V6 str

definition parse_octet :: "str \<Rightarrow> nat option" where
  "parse_octet s =
     (if s = [] \<or> 3 < length s \<or> (1 < length s \<and> hd s = CHR ''0'') then None
      else case parse_digits s 0 of Some n \<Rightarrow> if n \<le> 255 then Some n else None | None \<Rightarrow> None)"

definition parse_port :: "str \<Rightarrow> nat option" where
  "parse_port s =
     (if s = [] then None
      else case parse_digits s 0 of Some n \<Rightarrow> if n \<le> 65535 then Some n else None | None \<Rightarrow> None)"

definition parse_socket_addr :: "(str \<Rightarrow> socket_addr option) \<Rightarrow> str \<Rightarrow> socket_addr option" where
  "parse_socket_addr parse_v6 s =
     (if starts_with s ''['' then parse_v6 s
      else case split_on (CHR '':'') s of
        [a, p] \<Rightarrow>
          (let os = map parse_octet (split_on (CHR ''.'') a)
           in if length os = 4 \<and> None \<notin> set os
              then map_option (V4 (map the os)) (parse_port p) else None)
      | _ \<Rightarrow> None)"

definition probe_addr :: "(str \<Rightarrow> socket_addr option) \<Rightarrow> upstream_target \<Rightarrow> socket_addr" where
  "probe_addr parse_v6 t =
     (case parse_socket_addr parse_v6 (host t @ '':'' @ dec_digits (port t)) of
        Some a \<Rightarrow> a
      | None \<Rightarrow> V4 [127, 0, 0, 1] 80)"

definition health_target ::
  "(str \<Rightarrow> socket_addr option) \<Rightarrow> (socket_addr \<Rightarrow> bool) \<Rightarrow> balancer_registry \<Rightarrow> upstream_target \<Rightarrow> balancer_registry" where
  "health_target parse_v6 connect reg t =
     (if is_local t then reg
      else if connect (probe_addr parse_v6 t)
           then reg_mark_healthy reg (ut_name t) (host t) (port t)
           else reg_mark_unhealthy reg (ut_name t) (host t) (port t))"

text \<open>One round of \<open>health_loop\<close>, between two sleeps.\<close>

definition health_round ::
  "(str \<Rightarrow> socket_addr option) \<Rightarrow> (socket_addr \<Rightarrow> bool) \<Rightarrow> balancer_registry \<Rightarrow> balancer_registry" where
  "health_round parse_v6 connect reg = foldl (health_target parse_v6 connect) reg all_upstreams"

lemma dec_443 [simp]: "dec_digits 443 = ''443''"
  by (simp add: dec_digits.simps [of 443] dec_digits.simps [of 44] dec_digits.simps [of 4] char_of_def bit_iff_odd)

lemma probe_addr_remote:
  assumes "t \<in> set UPSTREAMS" and "\<not> is_local t"
  shows "probe_addr parse_v6 t = V4 [127, 0, 0, 1] 80"
proof -
  have "parse_socket_addr parse_v6 (host t @ '':443'') = None"
    using assms by (auto simp: UPSTREAMS_def parse_socket_addr_def starts_with_def Let_def)
  moreover have "host t @ '':'' @ dec_digits (port t) = host t @ '':443''"
    using assms by (auto simp: UPSTREAMS_def)
  ultimately show ?thesis unfolding probe_addr_def by simp
qed

text \<open>
  The remote upstreams are given by host name, which is not a socket address,
  so the checker connects to port 80 of this machine instead. When nothing listens
  there, one round marks both cloud upstreams unhealthy, whether or not they can be
  reached, and the balancer has no address for them.
\<close>

lemma health_checks_loopback:
  assumes "\<not> connect (V4 [127, 0, 0, 1] 80)"
  shows "snd (next_for (health_round parse_v6 connect new_registry) ''openai'') = None
       \<and> snd (next_for (health_round parse_v6 connect new_registry) ''anthropic'') = None
       \<and> snd (next_for new_registry ''openai'') = Some (''api.openai.com'', 443)"
proof -
  have probe: "probe_addr parse_v6 (UPSTREAMS ! 0) = V4 [127, 0, 0, 1] 80"
    "probe_addr parse_v6 (UPSTREAMS ! 1) = V4 [127, 0, 0, 1] 80"
    by (rule probe_addr_remote; simp add: UPSTREAMS_def)+
  have "health_round parse_v6 connect new_registry =
      reg_mark_unhealthy (reg_mark_unhealthy new_registry ''openai'' ''api.openai.com'' 443)
        ''anthropic'' ''api.anthropic.com'' 443"
    using assms probe by (simp add: health_round_def all_upstreams_def UPSTREAMS_def health_target_def)
  then show ?thesis
    by (simp add: next_for_def reg_mark_unhealthy_def lb_mark_unhealthy_def new_registry_def
        all_upstreams_def UPSTREAMS_def new_balancer_def new_slot_def lb_next_def Let_def)
qed

end
