(* ===== verification/Pool.thy ===== *)
theory Pool
  imports Circuit Registry
begin

text \<open>
  The upstream connection pool of \<open>pool/connection.rs\<close>: idle stacks and circuit
  breakers per upstream, the guard of a checked-out connection and its \<open>drop\<close>.
  TCP connect and the TLS handshake are parameters; closing a descriptor is
  recorded in a log. The clock is read once per phase of an operation.
\<close>

definition MAX_IDLE :: int where "MAX_IDLE = 30 * 10 ^ 9"

record traffic_keys =
  tk_key :: bytes
  tk_iv :: bytes

record app_keys =
  ak_client :: traffic_keys
  ak_server :: traffic_keys
  ak_master :: bytes

record pooled_conn =
  fd :: int
  conn_keys :: app_keys
  upstream :: str
  expiry :: instant
  h2 :: bool

definition new_conn :: "instant \<Rightarrow> int \<Rightarrow> app_keys \<Rightarrow> str \<Rightarrow> bool \<Rightarrow> pooled_conn" where
  "new_conn now f keys up http2 = \<lparr>fd = f, conn_keys = keys, upstream = up, expiry = now + MAX_IDLE, h2 = http2\<rparr>"

definition is_expired :: "instant \<Rightarrow> pooled_conn \<Rightarrow> bool" where
  "is_expired now c = (now \<ge> expiry c)"

definition refresh :: "instant \<Rightarrow> pooled_conn \<Rightarrow> pooled_conn" where
  "refresh now c = c\<lparr>expiry := now + MAX_IDLE\<rparr>"

record conn_guard =
  inner :: "pooled_conn option"
  g_healthy :: bool

definition mark_unhealthy :: "conn_guard \<Rightarrow> conn_guard" where
  "mark_unhealthy g = g\<lparr>g_healthy := False\<rparr>"

definition guard_fd :: "conn_guard \<Rightarrow> int" where
  "guard_fd g = (case inner g of Some c \<Rightarrow> fd c | None \<Rightarrow> -1)"

definition is_h2 :: "conn_guard \<Rightarrow> bool" where
  "is_h2 g = (case inner g of Some c \<Rightarrow> h2 c | None \<Rightarrow> False)"

definition has_tls :: "conn_guard \<Rightarrow> bool" where
  "has_tls g = (case inner g of Some c \<Rightarrow> list_ex (\<lambda>b. b \<noteq> 0) (tk_key (ak_client (conn_keys c))) | None \<Rightarrow> False)"

datatype pool_error = ConnectFailed str | TlsFailed str | NoHealthySlot

fun pool_error_display :: "pool_error \<Rightarrow> str" where
  "pool_error_display (ConnectFailed e) = ''TCP connect failed: '' @ e"
| "pool_error_display (TlsFailed s) = ''TLS handshake failed: '' @ s"
| "pool_error_display NoHealthySlot = ''no healthy upstream slot''"

text \<open>
  Besides the two tables the record holds the counters of the metrics registry that
  the pool advances and the log of closed descriptors.
\<close>

record conn_pool =
  idle :: "(str \<times> pooled_conn list) list"
  max_idle :: nat
  circuits :: "(str \<times> cb_state) list"
  circuit_blocked :: nat
  pool_connections :: nat
  closed_log :: "int list"

definition new_pool :: "nat \<Rightarrow> conn_pool" where
  "new_pool m = \<lparr>idle = [], max_idle = m, circuits = [], circuit_blocked = 0, pool_connections = 0, closed_log = []\<rparr>"

definition circuit_state :: "conn_pool \<Rightarrow> str \<Rightarrow> str" where
  "circuit_state p up = (case map_of (circuits p) up of Some cb \<Rightarrow> state_name cb | None \<Rightarrow> ''closed'')"

definition queue_of :: "conn_pool \<Rightarrow> str \<Rightarrow> pooled_conn list" where
  "queue_of p up = (case map_of (idle p) up of Some q \<Rightarrow> q | None \<Rightarrow> [])"

definition idle_count :: "conn_pool \<Rightarrow> str \<Rightarrow> nat" where
  "idle_count p up = length (queue_of p up)"

definition close_conns :: "pooled_conn list \<Rightarrow> conn_pool \<Rightarrow> conn_pool" where
  "close_conns cs p = p\<lparr>closed_log := closed_log p @ map fd cs\<rparr>"

text \<open>\<open>circuits.lock().get(name).map(|cb| cb.record(outcome))\<close>.\<close>

definition record_circuit :: "instant \<Rightarrow> str \<Rightarrow> outcome \<Rightarrow> conn_pool \<Rightarrow> conn_pool" where
  "record_circuit now up oc p =
     (case map_of (circuits p) up of
        None \<Rightarrow> p
      | Some cb \<Rightarrow> p\<lparr>circuits := AList.update up (record_outcome now cb oc) (circuits p)\<rparr>)"

definition dummy_app_keys :: app_keys where
  "dummy_app_keys =
     \<lparr>ak_client = \<lparr>tk_key = replicate 16 0, tk_iv = replicate 12 0\<rparr>,
      ak_server = \<lparr>tk_key = replicate 16 0, tk_iv = replicate 12 0\<rparr>,
      ak_master = replicate 32 0\<rparr>"

record net =
  tcp_connect :: "str \<Rightarrow> nat \<Rightarrow> str + int"
  tls_handshake :: "int \<Rightarrow> str \<Rightarrow> str + app_keys"

definition open_connection ::
  "net \<Rightarrow> instant \<Rightarrow> conn_pool \<Rightarrow> upstream_target \<Rightarrow> conn_pool \<times> (pool_error + conn_guard)" where
  "open_connection w now p t =
     (case tcp_connect w (host t) (port t) of
        Inl e \<Rightarrow> (p, Inl (ConnectFailed e))
      | Inr f \<Rightarrow>
          (let p1 = p\<lparr>pool_connections := pool_connections p + 1\<rparr>
           in if \<not> tls t
              then (p1, Inr \<lparr>inner = Some (new_conn now f dummy_app_keys (ut_name t) False), g_healthy = True\<rparr>)
              else (case tls_handshake w f (host t) of
                      Inl e \<Rightarrow> (p1\<lparr>closed_log := closed_log p1 @ [f]\<rparr>, Inl (TlsFailed e))
                    | Inr keys \<Rightarrow>
                        (p1, Inr \<lparr>inner = Some (new_conn now f keys (ut_name t) False), g_healthy = True\<rparr>))))"

definition drain_expired :: "instant \<Rightarrow> pooled_conn list \<Rightarrow> pooled_conn list \<times> pooled_conn list" where
  "drain_expired now q = (takeWhile (is_expired now) (rev q), rev (dropWhile (is_expired now) (rev q)))"

definition acquire ::
  "net \<Rightarrow> instant \<Rightarrow> conn_pool \<Rightarrow> upstream_target \<Rightarrow> conn_pool \<times> (pool_error + conn_guard)" where
  "acquire w now p t =
     (let cb = (case map_of (circuits p) (ut_name t) of Some cb \<Rightarrow> cb | None \<Rightarrow> new_breaker);
          p0 = p\<lparr>circuits := AList.update (ut_name t) (fst (check now cb)) (circuits p)\<rparr>
      in case snd (check now cb) of
           Reject reason \<Rightarrow> (p0\<lparr>circuit_blocked := circuit_blocked p0 + 1\<rparr>, Inl NoHealthySlot)
         | Allowed \<Rightarrow>
             (let (dead, q) = drain_expired now (queue_of p0 (ut_name t));
                  p1 = close_conns dead (p0\<lparr>idle := AList.update (ut_name t) q (idle p0)\<rparr>)
              in if q \<noteq> []
                 then (record_circuit now (ut_name t) Success
                         (p1\<lparr>idle := AList.update (ut_name t) (butlast q) (idle p1)\<rparr>),
                       Inr \<lparr>inner = Some (last q), g_healthy = True\<rparr>)
                 else (case open_connection w now p1 t of
                         (p2, Inr g) \<Rightarrow> (record_circuit now (ut_name t) Success p2, Inr g)
                       | (p2, Inl e) \<Rightarrow> (record_circuit now (ut_name t) Failure p2, Inl e))))"

definition return_conn :: "conn_pool \<Rightarrow> pooled_conn \<Rightarrow> conn_pool" where
  "return_conn p c =
     (let q = queue_of p (upstream c);
          p1 = p\<lparr>idle := AList.update (upstream c) q (idle p)\<rparr>
      in if length q < max_idle p then p1\<lparr>idle := AList.update (upstream c) (q @ [c]) (idle p1)\<rparr>
         else close_conns [c] p1)"

definition drop_guard :: "instant \<Rightarrow> conn_pool \<Rightarrow> conn_guard \<Rightarrow> conn_pool" where
  "drop_guard now p g =
     (case inner g of
        None \<Rightarrow> p
      | Some c \<Rightarrow>
          if \<not> g_healthy g then close_conns [c] (record_circuit now (upstream c) Failure p)
          else return_conn p (refresh now c))"

subsection \<open>Runs of the pool and its clients\<close>

text \<open>
  A client holds guards; \<open>opened\<close> collects every descriptor that a connect
  returned. Dropping removes the guard from the client.
\<close>

record pool_sys =
  sys_pool :: conn_pool
  guards :: "conn_guard list"
  opened :: "int list"

datatype pool_op = Acquire net instant upstream_target | MarkUnhealthy nat | Drop instant nat

definition connected :: "net \<Rightarrow> conn_pool \<Rightarrow> conn_pool \<Rightarrow> upstream_target \<Rightarrow> int list" where
  "connected w p p' t =
     (if pool_connections p' = pool_connections p then []
      else case tcp_connect w (host t) (port t) of Inr f \<Rightarrow> [f] | Inl _ \<Rightarrow> [])"

fun pool_step :: "pool_sys \<Rightarrow> pool_op \<Rightarrow> pool_sys" where
  "pool_step s (Acquire w now t) =
     (case acquire w now (sys_pool s) t of
        (p', r) \<Rightarrow> \<lparr>sys_pool = p',
                     guards = (case r of Inr g \<Rightarrow> guards s @ [g] | Inl _ \<Rightarrow> guards s),
                     opened = opened s @ connected w (sys_pool s) p' t\<rparr>)"
| "pool_step s (MarkUnhealthy i) =
     (if i < length (guards s) then s\<lparr>guards := (guards s)[i := mark_unhealthy (guards s ! i)]\<rparr> else s)"
| "pool_step s (Drop now i) =
     (if i < length (guards s)
      then s\<lparr>sys_pool := drop_guard now (sys_pool s) (guards s ! i),
             guards := take i (guards s) @ drop (Suc i) (guards s)\<rparr>
      else s)"

definition new_sys :: "nat \<Rightarrow> pool_sys" where
  "new_sys m = \<lparr>sys_pool = new_pool m, guards = [], opened = []\<rparr>"

subsection \<open>Descriptors are conserved\<close>

definition idle_fds :: "(str \<times> pooled_conn list) list \<Rightarrow> int multiset" where
  "idle_fds al = (\<Sum>(k, q)\<leftarrow>al. mset (map fd q))"

definition guard_fds :: "conn_guard \<Rightarrow> int multiset" where
  "guard_fds g = (case inner g of Some c \<Rightarrow> {#fd c#} | None \<Rightarrow> {#})"

definition lookup_queue :: "(str \<times> pooled_conn list) list \<Rightarrow> str \<Rightarrow> pooled_conn list" where
  "lookup_queue al up = (case map_of al up of Some q \<Rightarrow> q | None \<Rightarrow> [])"

lemma queue_of_lookup: "queue_of p up = lookup_queue (idle p) up"
  by (simp add: queue_of_def lookup_queue_def)

lemma lookup_queue_update [simp]:
  "lookup_queue (AList.update k q al) up = (if up = k then q else lookup_queue al up)"
  by (simp add: lookup_queue_def update_conv')

lemma idle_fds_update:
  "idle_fds (AList.update k q al) + mset (map fd (lookup_queue al k)) = idle_fds al + mset (map fd q)"
  by (induction al) (auto simp: idle_fds_def lookup_queue_def ac_simps)

lemma record_circuit_frame [simp]:
  "idle (record_circuit now up oc p) = idle p"
  "closed_log (record_circuit now up oc p) = closed_log p"
  "max_idle (record_circuit now up oc p) = max_idle p"
  "pool_connections (record_circuit now up oc p) = pool_connections p"
  by (simp_all add: record_circuit_def split: option.splits)

lemma close_conns_frame [simp]:
  "idle (close_conns cs p) = idle p" "circuits (close_conns cs p) = circuits p"
  "max_idle (close_conns cs p) = max_idle p" "pool_connections (close_conns cs p) = pool_connections p"
  "closed_log (close_conns cs p) = closed_log p @ map fd cs"
  by (simp_all add: close_conns_def)

lemma drain_expired_mset:
  assumes "drain_expired now q = (dead, live)"
  shows "mset (map fd dead) + mset (map fd live) = mset (map fd q)"
proof -
  have "mset (takeWhile (is_expired now) (rev q)) + mset (dropWhile (is_expired now) (rev q)) = mset q"
    by (metis mset_append mset_rev takeWhile_dropWhile_id)
  with assms show ?thesis
    by (auto simp: drain_expired_def simp flip: image_mset_union)
qed

lemma idle_fds_drain:
  assumes "drain_expired now (lookup_queue al k) = (dead, live)"
  shows "idle_fds (AList.update k live al) + mset (map fd dead) = idle_fds al"
proof -
  have "idle_fds (AList.update k live al) + mset (map fd dead) + mset (map fd live)
      = idle_fds al + mset (map fd live)"
    using idle_fds_update [of k live al] drain_expired_mset [OF assms] by (simp add: add.assoc)
  then show ?thesis by simp
qed

lemma idle_fds_pop:
  assumes "lookup_queue al k = q" and "q \<noteq> []"
  shows "idle_fds (AList.update k (butlast q) al) + {#fd (last q)#} = idle_fds al"
proof -
  have "mset (map fd q) = mset (map fd (butlast q @ [last q]))" using assms(2) by simp
  then have "idle_fds (AList.update k (butlast q) al) + {#fd (last q)#} + mset (map fd (butlast q))
      = idle_fds al + mset (map fd (butlast q))"
    using idle_fds_update [of k "butlast q" al] assms(1) by (simp add: add.assoc)
  then show ?thesis by simp
qed

definition fds_of :: "conn_pool \<Rightarrow> int multiset" where
  "fds_of p = mset (closed_log p) + idle_fds (idle p)"

lemma open_connection_fds:
  assumes "open_connection w now p t = (p', r)"
  shows "fds_of p' + (case r of Inr g \<Rightarrow> guard_fds g | Inl _ \<Rightarrow> {#}) = fds_of p + mset (connected w p p' t)"
  using assms
  by (auto simp: open_connection_def fds_of_def connected_def guard_fds_def new_conn_def Let_def
      split: sum.splits if_splits)

definition breaker_of :: "conn_pool \<Rightarrow> str \<Rightarrow> cb_state" where
  "breaker_of p up = (case map_of (circuits p) up of Some cb \<Rightarrow> cb | None \<Rightarrow> new_breaker)"

definition drained :: "instant \<Rightarrow> conn_pool \<Rightarrow> str \<Rightarrow> conn_pool" where
  "drained now p k =
     close_conns (fst (drain_expired now (lookup_queue (idle p) k)))
       (p\<lparr>circuits := AList.update k (fst (check now (breaker_of p k))) (circuits p),
          idle := AList.update k (snd (drain_expired now (lookup_queue (idle p) k))) (idle p)\<rparr>)"

lemma acquire_cases:
  "acquire w now p t =
     (let p1 = drained now p (ut_name t); q = lookup_queue (idle p1) (ut_name t)
      in case snd (check now (breaker_of p (ut_name t))) of
           Reject reason \<Rightarrow>
             (p\<lparr>circuits := AList.update (ut_name t) (fst (check now (breaker_of p (ut_name t)))) (circuits p),
                circuit_blocked := circuit_blocked p + 1\<rparr>, Inl NoHealthySlot)
         | Allowed \<Rightarrow>
             if q \<noteq> []
             then (record_circuit now (ut_name t) Success (p1\<lparr>idle := AList.update (ut_name t) (butlast q) (idle p1)\<rparr>),
                   Inr \<lparr>inner = Some (last q), g_healthy = True\<rparr>)
             else (case open_connection w now p1 t of
                     (p2, Inr g) \<Rightarrow> (record_circuit now (ut_name t) Success p2, Inr g)
                   | (p2, Inl e) \<Rightarrow> (record_circuit now (ut_name t) Failure p2, Inl e)))"
  unfolding acquire_def breaker_of_def [symmetric] drained_def Let_def queue_of_lookup
  by (simp add: case_prod_unfold split: circuit_decision.split)

lemma drained_fds: "fds_of (drained now p k) = fds_of p"
  using idle_fds_drain [of now "idle p" k "fst (drain_expired now (lookup_queue (idle p) k))"
      "snd (drain_expired now (lookup_queue (idle p) k))"]
  by (simp add: drained_def fds_of_def ac_simps)

lemma drained_frame [simp]:
  "pool_connections (drained now p k) = pool_connections p"
  "max_idle (drained now p k) = max_idle p"
  by (simp_all add: drained_def)

lemma fds_of_record [simp]: "fds_of (record_circuit now up oc p) = fds_of p"
  by (simp add: fds_of_def)

lemma acquire_fds:
  assumes "acquire w now p t = (p', r)"
  shows "fds_of p' + (case r of Inr g \<Rightarrow> guard_fds g | Inl _ \<Rightarrow> {#}) = fds_of p + mset (connected w p p' t)"
proof (cases "snd (check now (breaker_of p (ut_name t)))")
  case (Reject reason)
  with assms show ?thesis by (auto simp: acquire_cases fds_of_def connected_def)
next
  case Allowed
  define p1 where "p1 = drained now p (ut_name t)"
  have p1: "fds_of p1 = fds_of p" "pool_connections p1 = pool_connections p"
    by (simp_all add: p1_def drained_fds)
  show ?thesis
  proof (cases "lookup_queue (idle p1) (ut_name t) = []")
    case True
    obtain p2 r2 where o: "open_connection w now p1 t = (p2, r2)" by fastforce
    with assms Allowed True have "fds_of p' = fds_of p2" "r = r2" "pool_connections p' = pool_connections p2"
      by (auto simp: acquire_cases Let_def p1_def split: sum.splits)
    with open_connection_fds [OF o] p1 show ?thesis by (simp add: connected_def)
  next
    case False
    with assms Allowed p1 idle_fds_pop [of "idle p1" "ut_name t", OF refl False] show ?thesis
      by (auto simp: acquire_cases Let_def p1_def [symmetric] fds_of_def connected_def guard_fds_def ac_simps)
  qed
qed

lemma return_conn_fds: "fds_of (return_conn p c) = fds_of p + {#fd c#}"
proof -
  have same: "idle_fds (AList.update (upstream c) (lookup_queue (idle p) (upstream c)) (idle p)) = idle_fds (idle p)"
    using idle_fds_update [of "upstream c" "lookup_queue (idle p) (upstream c)" "idle p"] by simp
  have "idle_fds (AList.update (upstream c) (lookup_queue (idle p) (upstream c) @ [c]) (idle p))
      = idle_fds (idle p) + {#fd c#}"
    using idle_fds_update [of "upstream c" "lookup_queue (idle p) (upstream c) @ [c]" "idle p"]
    by simp
  with same show ?thesis
    by (simp add: return_conn_def Let_def fds_of_def queue_of_lookup)
qed

lemma drop_guard_fds: "fds_of (drop_guard now p g) = fds_of p + guard_fds g"
proof (cases "inner g")
  case (Some c)
  then show ?thesis
    using return_conn_fds [of p "refresh now c"]
    by (simp add: drop_guard_def guard_fds_def refresh_def fds_of_def)
qed (simp add: drop_guard_def guard_fds_def)

subsection \<open>The invariant\<close>

text \<open>
  Idle connections lie under their own upstream, no stack is longer than the
  limit, and between operations no breaker waits for the outcome of a probe.
\<close>

fun settled :: "cb_state \<Rightarrow> bool" where
  "settled (HalfOpen _ _ inflight) = (\<not> inflight)"
| "settled _ = True"

definition pool_ok :: "conn_pool \<Rightarrow> bool" where
  "pool_ok p = ((\<forall>k. length (lookup_queue (idle p) k) \<le> max_idle p
                   \<and> (\<forall>c\<in>set (lookup_queue (idle p) k). upstream c = k))
              \<and> (\<forall>k. settled (breaker_of p k) \<and> cb_ok (breaker_of p k)))"

lemma settled_record: "settled (record_outcome now cb oc)"
  by (cases cb; cases oc) simp_all

lemma settled_reject: "snd (check now cb) = Reject r \<Longrightarrow> settled cb \<Longrightarrow> settled (fst (check now cb))"
  by (cases cb) (auto split: if_splits)

lemma breaker_of_update [simp]:
  "breaker_of (p\<lparr>circuits := AList.update k cb (circuits p)\<rparr>) k' = (if k' = k then cb else breaker_of p k')"
  by (simp add: breaker_of_def update_conv')

lemma breaker_of_frame [simp]:
  "breaker_of (p\<lparr>idle := x\<rparr>) k = breaker_of p k" "breaker_of (close_conns cs p) k = breaker_of p k"
  "breaker_of (p\<lparr>pool_connections := n\<rparr>) k = breaker_of p k" "breaker_of (p\<lparr>circuit_blocked := n\<rparr>) k = breaker_of p k"
  "breaker_of (p\<lparr>closed_log := l\<rparr>) k = breaker_of p k"
  by (simp_all add: breaker_of_def)

lemma breaker_of_record:
  "breaker_of (record_circuit now up oc p) k =
     (if k = up \<and> map_of (circuits p) up \<noteq> None then record_outcome now (breaker_of p k) oc else breaker_of p k)"
  by (auto simp: record_circuit_def breaker_of_def update_conv' split: option.splits)

lemma open_connection_frame:
  "open_connection w now p t = (p', r) \<Longrightarrow> idle p' = idle p \<and> max_idle p' = max_idle p \<and> circuits p' = circuits p"
  by (auto simp: open_connection_def Let_def split: sum.splits if_splits)

lemma drained_queue: "lookup_queue (idle (drained now p k)) k' =
    (if k' = k then rev (dropWhile (is_expired now) (rev (lookup_queue (idle p) k))) else lookup_queue (idle p) k')"
  by (simp add: drained_def drain_expired_def)

lemma drained_circuits: "circuits (drained now p k) = AList.update k (fst (check now (breaker_of p k))) (circuits p)"
  by (simp add: drained_def)

lemma set_rev_dropWhile: "x \<in> set (rev (dropWhile P (rev xs))) \<Longrightarrow> x \<in> set xs"
  using set_dropWhileD by fastforce

lemma length_rev_dropWhile: "length (rev (dropWhile P (rev xs))) \<le> length xs"
  using length_dropWhile_le [of P "rev xs"] by simp

lemma acquire_idle:
  assumes "acquire w now p t = (p', r)"
  shows "max_idle p' = max_idle p
    \<and> length (lookup_queue (idle p') k) \<le> length (lookup_queue (idle p) k)
    \<and> set (lookup_queue (idle p') k) \<subseteq> set (lookup_queue (idle p) k)"
proof (cases "snd (check now (breaker_of p (ut_name t)))")
  case (Reject reason)
  with assms show ?thesis by (auto simp: acquire_cases)
next
  case Allowed
  define q where "q = rev (dropWhile (is_expired now) (rev (lookup_queue (idle p) (ut_name t))))"
  have q: "length q \<le> length (lookup_queue (idle p) (ut_name t))" "set q \<subseteq> set (lookup_queue (idle p) (ut_name t))"
    unfolding q_def by (rule length_rev_dropWhile, blast dest: set_rev_dropWhile)
  obtain p2 r2 where o: "open_connection w now (drained now p (ut_name t)) t = (p2, r2)" by fastforce
  show ?thesis
  proof (cases "q = []")
    case True
    with assms Allowed o open_connection_frame [OF o] have "idle p' = idle (drained now p (ut_name t))" "max_idle p' = max_idle p"
      by (auto simp: acquire_cases Let_def drained_queue q_def split: sum.splits)
    with True show ?thesis by (simp add: drained_queue q_def [symmetric])
  next
    case False
    with assms Allowed have "idle p' = AList.update (ut_name t) (butlast q) (idle (drained now p (ut_name t)))"
        "max_idle p' = max_idle p"
      by (auto simp: acquire_cases Let_def drained_queue q_def [symmetric])
    with q show ?thesis
      by (auto simp: drained_queue intro: in_set_butlastD order_trans [OF _ q(1)] dest: in_set_butlastD)
  qed
qed

lemma acquire_breakers:
  assumes "acquire w now p t = (p', r)" and "\<forall>k. settled (breaker_of p k) \<and> cb_ok (breaker_of p k)"
  shows "settled (breaker_of p' k) \<and> cb_ok (breaker_of p' k)"
proof (cases "snd (check now (breaker_of p (ut_name t)))")
  case (Reject reason)
  with assms show ?thesis by (auto simp: acquire_cases settled_reject)
next
  case Allowed
  define p1 where "p1 = drained now p (ut_name t)"
  have p1: "map_of (circuits p1) (ut_name t) \<noteq> None"
    "breaker_of p1 k = (if k = ut_name t then fst (check now (breaker_of p k)) else breaker_of p k)"
    by (simp_all add: p1_def drained_circuits update_conv' breaker_of_def)
  obtain p2 r2 where o: "open_connection w now p1 t = (p2, r2)" by fastforce
  have "\<exists>p2 oc. circuits p2 = circuits p1 \<and> p' = record_circuit now (ut_name t) oc p2"
  proof (cases "lookup_queue (idle p1) (ut_name t) = []")
    case True
    with assms(1) Allowed o have "\<exists>oc. p' = record_circuit now (ut_name t) oc p2"
      by (auto simp: acquire_cases Let_def p1_def [symmetric] split: sum.splits)
    with open_connection_frame [OF o] show ?thesis by blast
  next
    case False
    with assms(1) Allowed show ?thesis
      by (auto simp: acquire_cases Let_def p1_def [symmetric]
          intro!: exI [of _ "p1\<lparr>idle := AList.update (ut_name t) (butlast (lookup_queue (idle p1) (ut_name t))) (idle p1)\<rparr>"])
  qed
  then obtain p2 oc where p2: "circuits p2 = circuits p1" "p' = record_circuit now (ut_name t) oc p2" by blast
  then have "breaker_of p2 k = breaker_of p1 k" by (simp add: breaker_of_def)
  moreover have "cb_ok (fst (check now (breaker_of p k)))" using assms(2) by simp
  ultimately show ?thesis
    using p2 p1 assms(2) by (cases "k = ut_name t") (simp_all add: breaker_of_record settled_record)
qed

lemma pool_ok_acquire: "acquire w now p t = (p', r) \<Longrightarrow> pool_ok p \<Longrightarrow> pool_ok p'"
  using acquire_idle [of w now p t p' r] acquire_breakers [of w now p t p' r]
  unfolding pool_ok_def by (metis order_trans subsetD)

lemma pool_ok_drop:
  assumes "pool_ok p"
  shows "pool_ok (drop_guard now p g)"
proof (cases "inner g")
  case (Some c)
  have "pool_ok (return_conn p c)" for c
    using assms by (auto simp: pool_ok_def return_conn_def Let_def queue_of_lookup)
  moreover have "pool_ok (close_conns [c] (record_circuit now (upstream c) Failure p))"
    using assms by (auto simp: pool_ok_def breaker_of_record settled_record)
  ultimately show ?thesis using Some by (simp add: drop_guard_def)
qed (use assms in \<open>simp add: drop_guard_def\<close>)

definition held_fds :: "pool_sys \<Rightarrow> int multiset" where
  "held_fds s = (\<Sum>g\<leftarrow>guards s. guard_fds g)"

definition sys_ok :: "pool_sys \<Rightarrow> bool" where
  "sys_ok s = (pool_ok (sys_pool s) \<and> mset (opened s) = fds_of (sys_pool s) + held_fds s)"

lemma held_mark [simp]:
  "i < length gs \<Longrightarrow> (\<Sum>g\<leftarrow>gs[i := mark_unhealthy (gs ! i)]. guard_fds g) = (\<Sum>g\<leftarrow>gs. guard_fds g)"
  by (metis (no_types, lifting) guard_fds_def list_update_id map_update mark_unhealthy_def
      conn_guard.select_convs(1) conn_guard.surjective conn_guard.update_convs(2))

lemma held_drop:
  "i < length gs \<Longrightarrow>
   (\<Sum>g\<leftarrow>gs. guard_fds g) = guard_fds (gs ! i) + (\<Sum>g\<leftarrow>take i gs @ drop (Suc i) gs. guard_fds g)"
  by (subst id_take_nth_drop) (simp_all add: ac_simps)

interpretation pool: invariant_machine "new_sys m" pool_step sys_ok
proof
  show "sys_ok (new_sys m)"
    by (simp add: sys_ok_def new_sys_def new_pool_def pool_ok_def fds_of_def held_fds_def idle_fds_def
        lookup_queue_def breaker_of_def new_breaker_def FAILURE_THRESHOLD_def)
next
  fix s a
  assume ok: "sys_ok s"
  show "sys_ok (pool_step s a)"
  proof (cases a)
    case (Acquire w now t)
    obtain p' r where acq: "acquire w now (sys_pool s) t = (p', r)" by fastforce
    with ok Acquire pool_ok_acquire [OF acq] acquire_fds [OF acq] show ?thesis
      by (auto simp: sys_ok_def held_fds_def ac_simps split: sum.splits)
  next
    case (MarkUnhealthy i)
    with ok show ?thesis by (simp add: sys_ok_def held_fds_def)
  next
    case (Drop now i)
    with ok pool_ok_drop [of "sys_pool s" now "guards s ! i"] held_drop [of i "guards s"] show ?thesis
      by (auto simp: sys_ok_def held_fds_def drop_guard_fds ac_simps)
  qed
qed

text \<open>
  C10: for every sequence of acquisitions, health marks and drops, every descriptor a
  connect returned is accounted for exactly once: it was closed, lies idle in the
  pool, or is held by a guard, so none leaks and none is closed twice. No idle stack
  exceeds the limit, its connections belong to its upstream, and no breaker is left
  waiting for a probe.
\<close>

theorem pool_conserves_descriptors:
  "let s = foldl pool_step (new_sys m) ops; p = sys_pool s in
     mset (opened s) = mset (closed_log p) + idle_fds (idle p) + held_fds s
   \<and> idle_count p up \<le> max_idle p
   \<and> list_all (\<lambda>c. upstream c = up) (queue_of p up)
   \<and> settled (breaker_of p up)"
  using pool.run_inv [of m ops]
  by (simp add: Let_def sys_ok_def pool_ok_def fds_of_def idle_count_def queue_of_lookup list_all_iff)

subsection \<open>A connectable upstream that fails every request\<close>

text \<open>One request on the upstream that fails after the connection was acquired.\<close>

definition failing_request :: "net \<Rightarrow> upstream_target \<Rightarrow> conn_pool \<Rightarrow> instant \<Rightarrow> conn_pool" where
  "failing_request w t p now =
     (case acquire w now p t of
        (p', Inr g) \<Rightarrow> drop_guard now p' (mark_unhealthy g)
      | (p', Inl _) \<Rightarrow> p')"

lemma open_connection_ok:
  assumes "tcp_connect w (host t) (port t) = Inr f" and "tls_handshake w f (host t) = Inr keys"
  shows "\<exists>p' c. open_connection w now p t = (p', Inr \<lparr>inner = Some c, g_healthy = True\<rparr>) \<and> upstream c = ut_name t
     \<and> circuits p' = circuits p \<and> idle p' = idle p \<and> max_idle p' = max_idle p"
  using assms by (simp add: open_connection_def Let_def new_conn_def)

lemma failing_request_closed:
  assumes "tcp_connect w (host t) (port t) = Inr f" and "tls_handshake w f (host t) = Inr keys"
    and "pool_ok p" and "is_healthy (breaker_of p (ut_name t))"
  shows "pool_ok (failing_request w t p now) \<and> breaker_of (failing_request w t p now) (ut_name t) = Closed 1"
proof -
  let ?k = "ut_name t"
  from assms(4) obtain n where n: "breaker_of p ?k = Closed n" by (cases "breaker_of p ?k") auto
  define p1 where "p1 = drained now p ?k"
  have c1: "map_of (circuits p1) ?k = Some (Closed n)"
    by (simp add: p1_def drained_circuits n update_conv')
  have "\<exists>p2 c. acquire w now p t = (record_circuit now ?k Success p2, Inr \<lparr>inner = Some c, g_healthy = True\<rparr>)
      \<and> circuits p2 = circuits p1 \<and> upstream c = ?k"
  proof (cases "lookup_queue (idle p1) ?k = []")
    case True
    with n open_connection_ok [OF assms(1,2), of now p1] show ?thesis
      by (auto simp: acquire_cases Let_def p1_def [symmetric])
  next
    case False
    have "last (lookup_queue (idle p1) ?k) \<in> set (lookup_queue (idle p) ?k)"
      using False by (metis drained_queue last_in_set p1_def set_rev_dropWhile)
    with assms(3) have "upstream (last (lookup_queue (idle p1) ?k)) = ?k" by (auto simp: pool_ok_def)
    with n False show ?thesis
      by (auto simp: acquire_cases Let_def p1_def [symmetric]
          intro!: exI [of _ "p1\<lparr>idle := AList.update ?k (butlast (lookup_queue (idle p1) ?k)) (idle p1)\<rparr>"])
  qed
  then obtain p2 c where a: "acquire w now p t = (record_circuit now ?k Success p2, Inr \<lparr>inner = Some c, g_healthy = True\<rparr>)"
    "map_of (circuits p2) ?k = Some (Closed n)" "upstream c = ?k"
    using c1 by metis
  have "pool_ok (failing_request w t p now)"
    using pool_ok_acquire [OF a(1) assms(3)] by (simp add: failing_request_def a(1) pool_ok_drop)
  moreover have "breaker_of (failing_request w t p now) ?k = Closed 1"
    using a by (simp add: failing_request_def mark_unhealthy_def drop_guard_def breaker_of_record
        record_circuit_def update_conv' breaker_of_def FAILURE_THRESHOLD_def word_le_nat_alt)
  ultimately show ?thesis ..
qed

text \<open>
  The breaker never trips for an upstream that accepts connections and then
  fails every request. Acquiring records a success, which resets the failure count
  before the failed request records its failure, so after any number of failed
  requests the state is closed with a count of one.
\<close>

lemma failing_upstream_never_trips:
  assumes "tcp_connect w (host t) (port t) = Inr f" and "tls_handshake w f (host t) = Inr keys"
    and "instants \<noteq> []"
  shows "breaker_of (foldl (failing_request w t) (new_pool m) instants) (ut_name t) = Closed 1"
proof -
  have new: "pool_ok (new_pool m)" "is_healthy (breaker_of (new_pool m) (ut_name t))"
    by (simp_all add: pool_ok_def new_pool_def lookup_queue_def breaker_of_def new_breaker_def FAILURE_THRESHOLD_def)
  have "ts \<noteq> [] \<Longrightarrow> pool_ok (foldl (failing_request w t) (new_pool m) ts)
      \<and> breaker_of (foldl (failing_request w t) (new_pool m) ts) (ut_name t) = Closed 1" for ts
  proof (induction ts rule: rev_induct)
    case (snoc x ts)
    then show ?case
      using failing_request_closed [OF assms(1,2), of "foldl (failing_request w t) (new_pool m) ts" x] new
      by (cases "ts = []") auto
  qed simp
  with assms(3) show ?thesis by blast
qed

subsection \<open>TLS records and handshake messages\<close>

text \<open>
  \<open>read_tls_record\<close> on the bytes that arrive before the peer closes: the outer type
  and the whole record, or an error.
\<close>

definition MAX_TLS_RECORD :: nat where "MAX_TLS_RECORD = 16640"

definition read_tls_record :: "bytes \<Rightarrow> (str + byte \<times> bytes) \<times> bytes" where
  "read_tls_record input =
     (if length input < 5 then (Inl ''UnexpectedEof'', [])
      else let payload_len = unat (input ! 3) * 256 + unat (input ! 4)
           in if MAX_TLS_RECORD < payload_len then (Inl ''TLS record payload too large'', drop 5 input)
              else if length input < 5 + payload_len then (Inl ''UnexpectedEof'', [])
              else (Inr (input ! 0, take (5 + payload_len) input), drop (5 + payload_len) input))"

function has_finished_msg :: "bytes \<Rightarrow> bool" where
  "has_finished_msg data =
     (if length data < 4 then False
      else if data ! 0 = 20 then True
      else has_finished_msg (drop (4 + (unat (data ! 1) * 65536 + unat (data ! 2) * 256 + unat (data ! 3))) data))"
  by auto
termination by (relation "measure length") auto

declare has_finished_msg.simps [simp del]

text \<open>The wire form of a handshake message: type, 24-bit length, body.\<close>

definition hs_msg :: "byte \<times> bytes \<Rightarrow> bytes" where
  "hs_msg m = (case m of (ty, body) \<Rightarrow>
     ty # word_of_nat (length body div 65536) # word_of_nat (length body div 256) # word_of_nat (length body) # body)"

lemma len24: "n < 2 ^ 24 \<Longrightarrow>
    unat (word_of_nat (n div 65536) :: byte) * 65536 + unat (word_of_nat (n div 256) :: byte) * 256
      + unat (word_of_nat n :: byte) = n"
proof -
  assume n: "n < 2 ^ 24"
  have "n div 65536 < 256" using n by (simp add: less_mult_imp_div_less)
  then have "unat (word_of_nat (n div 65536) :: byte) = n div 65536"
    by (simp add: unat_of_nat take_bit_nat_eq_self)
  moreover have "unat (word_of_nat (n div 256) :: byte) = n div 256 mod 256"
    "unat (word_of_nat n :: byte) = n mod 256"
    by (simp_all add: unat_of_nat take_bit_eq_mod)
  moreover have "n div 65536 = n div 256 div 256" by (simp only: div_mult2_eq [symmetric]) simp
  then have "n div 65536 * 65536 + n div 256 mod 256 * 256 + n mod 256 = n"
    using div_mult_mod_eq [of n 256] div_mult_mod_eq [of "n div 256" 256] by linarith
  ultimately show ?thesis by simp
qed

lemma drop_4: "drop (4 + k) (a # b # c # d # xs) = drop k xs"
  by (simp add: eval_nat_numeral)

lemma has_finished_msg_Cons:
  assumes "length body < 2 ^ 24"
  shows "has_finished_msg (hs_msg (ty, body) @ rest) = (ty = 20 \<or> has_finished_msg rest)"
  using len24 [OF assms] by (subst has_finished_msg.simps) (simp add: hs_msg_def drop_4)

text \<open>
  On a flight of complete handshake messages the scan for the Finished message
  follows the message boundaries: it finds one exactly when some message has type 20,
  whatever bytes the bodies hold, and it always ends.
\<close>

lemma finished_scan_exact:
  assumes "\<forall>m\<in>set msgs. length (snd m) < 2 ^ 24"
  shows "has_finished_msg (concat (map hs_msg msgs)) \<longleftrightarrow> 20 \<in> fst ` set msgs"
  using assms
proof (induction msgs)
  case Nil
  then show ?case by (simp add: has_finished_msg.simps)
next
  case (Cons m msgs)
  obtain ty body where "m = (ty, body)" by fastforce
  with Cons show ?case by (auto simp: has_finished_msg_Cons)
qed

end
