(* ===== verification/AiReq.thy ===== *)
theory AiReq
  imports Json Utf8
begin

text \<open>
  The AI request formats: \<open>ai/openai.rs\<close>, \<open>ai/anthropic.rs\<close> and the union of the two
  in \<open>ai/mod.rs\<close>. The derived serializers are functions between the records and
  \<^typ>\<open>json\<close>; parsing and printing JSON text are parameters.
\<close>

subsection \<open>Derived deserialization\<close>

text \<open>
  A struct is read from an object in which no known field occurs twice, or from an
  array with one element per field. An \<open>Option\<close> field may be absent or null.
\<close>

definition unique_fields :: "str list \<Rightarrow> (str \<times> json) list \<Rightarrow> bool" where
  "unique_fields names ms = list_all (\<lambda>k. length (filter (\<lambda>m. fst m = k) ms) \<le> 1) names"

fun as_struct :: "str list \<Rightarrow> json \<Rightarrow> (str \<times> json) list option" where
  "as_struct names (JObj ms) = (if unique_fields names ms then Some ms else None)"
| "as_struct names (JArr xs) = (if length xs = length names then Some (zip names xs) else None)"
| "as_struct names _ = None"

definition req_field :: "(json \<Rightarrow> 'a option) \<Rightarrow> (str \<times> json) list \<Rightarrow> str \<Rightarrow> 'a option" where
  "req_field f ms k = Option.bind (map_of ms k) f"

definition opt_field :: "(json \<Rightarrow> 'a option) \<Rightarrow> (str \<times> json) list \<Rightarrow> str \<Rightarrow> 'a option option" where
  "opt_field f ms k =
     (case map_of ms k of
        None \<Rightarrow> Some None
      | Some v \<Rightarrow> if v = JNull then Some None else map_option Some (f v))"

fun as_u32 :: "json \<Rightarrow> nat option" where
  "as_u32 (JInt i) = (if 0 \<le> i \<and> i < 2 ^ 32 then Some (nat i) else None)"
| "as_u32 _ = None"

fun traverse :: "('a \<Rightarrow> 'b option) \<Rightarrow> 'a list \<Rightarrow> 'b list option" where
  "traverse f [] = Some []"
| "traverse f (x # xs) = Option.bind (f x) (\<lambda>y. map_option ((#) y) (traverse f xs))"

definition as_vec :: "(json \<Rightarrow> 'a option) \<Rightarrow> json \<Rightarrow> 'a list option" where
  "as_vec f v = Option.bind (as_array v) (traverse f)"

text \<open>The flattened map keeps the members that are not fields, the last of equal keys.\<close>

definition flatten_extra :: "str list \<Rightarrow> (str \<times> json) list \<Rightarrow> (str \<times> json) list" where
  "flatten_extra names ms =
     foldl (\<lambda>acc (k, v). AList.update k v acc) [] (filter (\<lambda>m. fst m \<notin> set names) ms)"

subsection \<open>Derived serialization\<close>

definition opt_member :: "str \<Rightarrow> ('a \<Rightarrow> json) \<Rightarrow> 'a option \<Rightarrow> (str \<times> json) list" where
  "opt_member k f v = (case v of None \<Rightarrow> [] | Some x \<Rightarrow> [(k, f x)])"

fun json_f64 :: "f64 \<Rightarrow> json" where
  "json_f64 (Fin x) = JFloat x"
| "json_f64 _ = JNull"

definition json_u32 :: "nat \<Rightarrow> json" where
  "json_u32 n = JInt (int n)"

subsection \<open>OpenAI requests (\<open>ai/openai.rs\<close>)\<close>

record content_part =
  part_type :: str
  part_text :: "str option"
  image_url :: "json option"

datatype message_content = CText str | CParts "content_part list"

record chat_message =
  msg_role :: str
  msg_content :: message_content
  msg_name :: "str option"

record chat_request =
  cr_model :: str
  messages :: "chat_message list"
  temperature :: "f64 option"
  max_tokens :: "nat option"
  stream :: "bool option"
  top_p :: "f64 option"
  frequency_penalty :: "f64 option"
  presence_penalty :: "f64 option"
  stop :: "json option"
  cr_user :: "str option"
  extra :: "(str \<times> json) list"

definition part_fields :: "str list" where "part_fields = [''type'', ''text'', ''image_url'']"
definition message_fields :: "str list" where "message_fields = [''role'', ''content'', ''name'']"
definition chat_fields :: "str list" where
  "chat_fields = [''model'', ''messages'', ''temperature'', ''max_tokens'', ''stream'', ''top_p'',
     ''frequency_penalty'', ''presence_penalty'', ''stop'', ''user'']"

definition part_from_json :: "json \<Rightarrow> content_part option" where
  "part_from_json v =
     Option.bind (as_struct part_fields v) (\<lambda>ms.
     Option.bind (req_field as_str ms ''type'') (\<lambda>t.
     Option.bind (opt_field as_str ms ''text'') (\<lambda>x.
     Option.bind (opt_field Some ms ''image_url'') (\<lambda>i.
       Some \<lparr>part_type = t, part_text = x, image_url = i\<rparr>))))"

definition content_from_json :: "json \<Rightarrow> message_content option" where
  "content_from_json v =
     (case as_str v of Some s \<Rightarrow> Some (CText s) | None \<Rightarrow> map_option CParts (as_vec part_from_json v))"

definition message_from_json :: "json \<Rightarrow> chat_message option" where
  "message_from_json v =
     Option.bind (as_struct message_fields v) (\<lambda>ms.
     Option.bind (req_field as_str ms ''role'') (\<lambda>r.
     Option.bind (req_field content_from_json ms ''content'') (\<lambda>c.
     Option.bind (opt_field as_str ms ''name'') (\<lambda>n.
       Some \<lparr>msg_role = r, msg_content = c, msg_name = n\<rparr>))))"

fun chat_from_json :: "json \<Rightarrow> chat_request option" where
  "chat_from_json (JObj ms) =
     (if \<not> unique_fields chat_fields ms then None
      else Option.bind (req_field as_str ms ''model'') (\<lambda>m.
           Option.bind (req_field (as_vec message_from_json) ms ''messages'') (\<lambda>msgs.
           Option.bind (opt_field as_f64 ms ''temperature'') (\<lambda>temp.
           Option.bind (opt_field as_u32 ms ''max_tokens'') (\<lambda>mt.
           Option.bind (opt_field as_bool ms ''stream'') (\<lambda>st.
           Option.bind (opt_field as_f64 ms ''top_p'') (\<lambda>tp.
           Option.bind (opt_field as_f64 ms ''frequency_penalty'') (\<lambda>fp.
           Option.bind (opt_field as_f64 ms ''presence_penalty'') (\<lambda>pp.
           Option.bind (opt_field Some ms ''stop'') (\<lambda>sp.
           Option.bind (opt_field as_str ms ''user'') (\<lambda>us.
             Some \<lparr>cr_model = m, messages = msgs, temperature = temp, max_tokens = mt, stream = st,
               top_p = tp, frequency_penalty = fp, presence_penalty = pp, stop = sp, cr_user = us,
               extra = flatten_extra chat_fields ms\<rparr>)))))))))))"
| "chat_from_json _ = None"

definition part_to_json :: "content_part \<Rightarrow> json" where
  "part_to_json p = JObj ((''type'', JStr (part_type p)) # opt_member ''text'' JStr (part_text p)
     @ opt_member ''image_url'' id (image_url p))"

fun content_to_json :: "message_content \<Rightarrow> json" where
  "content_to_json (CText s) = JStr s"
| "content_to_json (CParts ps) = JArr (map part_to_json ps)"

definition message_to_json :: "chat_message \<Rightarrow> json" where
  "message_to_json m = JObj ((''role'', JStr (msg_role m)) # (''content'', content_to_json (msg_content m))
     # opt_member ''name'' JStr (msg_name m))"

definition chat_to_json :: "chat_request \<Rightarrow> json" where
  "chat_to_json r = JObj ((''model'', JStr (cr_model r)) # (''messages'', JArr (map message_to_json (messages r)))
     # opt_member ''temperature'' json_f64 (temperature r) @ opt_member ''max_tokens'' json_u32 (max_tokens r)
     @ opt_member ''stream'' JBool (stream r) @ opt_member ''top_p'' json_f64 (top_p r)
     @ opt_member ''frequency_penalty'' json_f64 (frequency_penalty r)
     @ opt_member ''presence_penalty'' json_f64 (presence_penalty r)
     @ opt_member ''stop'' id (stop r) @ opt_member ''user'' JStr (cr_user r) @ extra r)"

text \<open>\<open>from_bytes\<close> and \<open>to_bytes\<close> over the JSON parser and printer.\<close>

definition chat_from_bytes :: "(str \<Rightarrow> json option) \<Rightarrow> str \<Rightarrow> chat_request option" where
  "chat_from_bytes parse s = Option.bind (parse s) chat_from_json"

definition chat_to_bytes :: "(json \<Rightarrow> str option) \<Rightarrow> chat_request \<Rightarrow> str" where
  "chat_to_bytes print r = (case print (chat_to_json r) of Some s \<Rightarrow> s | None \<Rightarrow> [])"

definition scanned_role :: "str \<Rightarrow> bool" where
  "scanned_role r = (r = ''user'' \<or> r = ''system'')"

fun content_text :: "message_content \<Rightarrow> str" where
  "content_text (CText s) = s"
| "content_text (CParts ps) = join_with '' '' (List.map_filter part_text ps)"

definition chat_user_text :: "chat_request \<Rightarrow> str" where
  "chat_user_text r =
     join_with [CHR 0x0A] (map (\<lambda>m. content_text (msg_content m)) (filter (\<lambda>m. scanned_role (msg_role m)) (messages r)))"

fun redact_messages :: "bool \<Rightarrow> str \<Rightarrow> chat_message list \<Rightarrow> chat_message list" where
  "redact_messages first redacted_text [] = []"
| "redact_messages first redacted_text (m # ms) =
     (if scanned_role (msg_role m)
      then m\<lparr>msg_content := CText (if first then redacted_text else ''[redacted]'')\<rparr> # redact_messages False redacted_text ms
      else m # redact_messages first redacted_text ms)"

definition chat_with_redacted_content :: "chat_request \<Rightarrow> str \<Rightarrow> chat_request" where
  "chat_with_redacted_content r redacted_text = r\<lparr>messages := redact_messages True redacted_text (messages r)\<rparr>"

definition chat_is_streaming :: "chat_request \<Rightarrow> bool" where
  "chat_is_streaming r = (stream r = Some True)"

definition openai_error_response :: "str \<Rightarrow> str \<Rightarrow> nat \<Rightarrow> json" where
  "openai_error_response code message status =
     JObj [(''error'', JObj [(''message'', JStr message), (''type'', JStr ''tsm_policy_error''),
       (''code'', JStr code), (''status'', JInt (int status))])]"

definition severity_label :: "f64 \<Rightarrow> str" where
  "severity_label risk = (if fge risk (Fin 80) then ''critical'' else if fge risk (Fin 60) then ''high'' else ''medium'')"

definition remediation :: "str list \<Rightarrow> str" where
  "remediation types =
     (if list_ex (\<lambda>t. ends_with t ''_KEY'' \<or> ends_with t ''_TOKEN'' \<or> t = ''PRIVATE_KEY'') types
      then ''Remove API keys and secrets from message content. Use environment variables or a secrets manager.''
      else if list_ex (\<lambda>t. t = ''SSN'' \<or> t = ''CREDIT_CARD'') types
      then ''Do not include personal financial identifiers in AI prompts.''
      else if list_ex (\<lambda>t. t = ''EMAIL'' \<or> t = ''PHONE'') types
      then ''Consider anonymizing or pseudonymizing personal contact information.''
      else if list_ex (\<lambda>t. t = ''JAILBREAK'') types
      then ''Request contains content that violates usage policy.''
      else ''Review message content and remove sensitive information before retrying.'')"

text \<open>\<open>risk_score as u64\<close> truncates and saturates; a NaN becomes 0.\<close>

fun f64_as_u64 :: "f64 \<Rightarrow> int" where
  "f64_as_u64 (Fin x) = (if x < 0 then 0 else if x \<ge> 2 ^ 64 then 2 ^ 64 - 1 else \<lfloor>x\<rfloor>)"
| "f64_as_u64 PInf = 2 ^ 64 - 1"
| "f64_as_u64 _ = 0"

type_synonym span = "nat \<times> nat \<times> str"

definition span_json :: "span \<Rightarrow> json" where
  "span_json sp = (case sp of (s, e, t) \<Rightarrow> JObj [(''start'', JInt (int s)), (''end'', JInt (int e)), (''type'', JStr t)])"

definition tsm_json :: "str list \<Rightarrow> f64 \<Rightarrow> str \<Rightarrow> span list \<Rightarrow> json" where
  "tsm_json types risk rule spans =
     JObj [(''rule'', JStr rule), (''risk_score'', JInt (f64_as_u64 risk)), (''severity'', JStr (severity_label risk)),
       (''detected'', JArr (map JStr types)), (''spans'', JArr (map span_json spans)),
       (''remediation'', JStr (remediation types))]"

definition openai_blocked_response :: "str list \<Rightarrow> f64 \<Rightarrow> str \<Rightarrow> span list \<Rightarrow> json" where
  "openai_blocked_response types risk rule spans =
     JObj [(''error'', JObj [(''message'', JStr ''Request blocked by TSM security policy''),
       (''type'', JStr ''content_policy_violation''), (''code'', JStr ''tsm_policy_block''), (''param'', JNull),
       (''tsm'', tsm_json types risk rule spans)])]"

subsection \<open>Anthropic requests (\<open>ai/anthropic.rs\<close>)\<close>

record content_block =
  block_type :: str
  block_text :: "str option"
  source :: "json option"
  block_id :: "str option"
  block_name :: "str option"
  input :: "json option"
  block_content :: "json option"

datatype anthropic_content = AText str | ABlocks "content_block list"
datatype system_content = SText str | SBlocks "content_block list"

record anthropic_message =
  am_role :: str
  am_content :: anthropic_content

record messages_request =
  mr_model :: str
  mr_messages :: "anthropic_message list"
  mr_max_tokens :: nat
  system :: "system_content option"
  mr_temperature :: "f64 option"
  mr_stream :: "bool option"
  mr_top_p :: "f64 option"
  top_k :: "nat option"
  stop_sequences :: "str list option"
  tools :: "json option"
  mr_extra :: "(str \<times> json) list"

definition block_fields :: "str list" where
  "block_fields = [''type'', ''text'', ''source'', ''id'', ''name'', ''input'', ''content'']"
definition am_fields :: "str list" where "am_fields = [''role'', ''content'']"
definition mr_fields :: "str list" where
  "mr_fields = [''model'', ''messages'', ''max_tokens'', ''system'', ''temperature'', ''stream'', ''top_p'',
     ''top_k'', ''stop_sequences'', ''tools'']"

definition block_from_json :: "json \<Rightarrow> content_block option" where
  "block_from_json v =
     Option.bind (as_struct block_fields v) (\<lambda>ms.
     Option.bind (req_field as_str ms ''type'') (\<lambda>t.
     Option.bind (opt_field as_str ms ''text'') (\<lambda>x.
     Option.bind (opt_field Some ms ''source'') (\<lambda>s.
     Option.bind (opt_field as_str ms ''id'') (\<lambda>i.
     Option.bind (opt_field as_str ms ''name'') (\<lambda>n.
     Option.bind (opt_field Some ms ''input'') (\<lambda>inp.
     Option.bind (opt_field Some ms ''content'') (\<lambda>c.
       Some \<lparr>block_type = t, block_text = x, source = s, block_id = i, block_name = n, input = inp,
         block_content = c\<rparr>))))))))"

definition acontent_from_json :: "json \<Rightarrow> anthropic_content option" where
  "acontent_from_json v =
     (case as_str v of Some s \<Rightarrow> Some (AText s) | None \<Rightarrow> map_option ABlocks (as_vec block_from_json v))"

definition system_from_json :: "json \<Rightarrow> system_content option" where
  "system_from_json v =
     (case as_str v of Some s \<Rightarrow> Some (SText s) | None \<Rightarrow> map_option SBlocks (as_vec block_from_json v))"

definition am_from_json :: "json \<Rightarrow> anthropic_message option" where
  "am_from_json v =
     Option.bind (as_struct am_fields v) (\<lambda>ms.
     Option.bind (req_field as_str ms ''role'') (\<lambda>r.
     Option.bind (req_field acontent_from_json ms ''content'') (\<lambda>c.
       Some \<lparr>am_role = r, am_content = c\<rparr>)))"

fun mr_from_json :: "json \<Rightarrow> messages_request option" where
  "mr_from_json (JObj ms) =
     (if \<not> unique_fields mr_fields ms then None
      else Option.bind (req_field as_str ms ''model'') (\<lambda>m.
           Option.bind (req_field (as_vec am_from_json) ms ''messages'') (\<lambda>msgs.
           Option.bind (req_field as_u32 ms ''max_tokens'') (\<lambda>mt.
           Option.bind (opt_field system_from_json ms ''system'') (\<lambda>sys.
           Option.bind (opt_field as_f64 ms ''temperature'') (\<lambda>temp.
           Option.bind (opt_field as_bool ms ''stream'') (\<lambda>st.
           Option.bind (opt_field as_f64 ms ''top_p'') (\<lambda>tp.
           Option.bind (opt_field as_u32 ms ''top_k'') (\<lambda>tk.
           Option.bind (opt_field (as_vec as_str) ms ''stop_sequences'') (\<lambda>ss.
           Option.bind (opt_field Some ms ''tools'') (\<lambda>tl.
             Some \<lparr>mr_model = m, mr_messages = msgs, mr_max_tokens = mt, system = sys, mr_temperature = temp,
               mr_stream = st, mr_top_p = tp, top_k = tk, stop_sequences = ss, tools = tl,
               mr_extra = flatten_extra mr_fields ms\<rparr>)))))))))))"
| "mr_from_json _ = None"

definition text_blocks :: "content_block list \<Rightarrow> str" where
  "text_blocks bs = join_with '' '' (List.map_filter block_text (filter (\<lambda>b. block_type b = ''text'') bs))"

fun extract_content :: "anthropic_content \<Rightarrow> str" where
  "extract_content (AText s) = s"
| "extract_content (ABlocks bs) = text_blocks bs"

fun extract_system :: "system_content \<Rightarrow> str" where
  "extract_system (SText s) = s"
| "extract_system (SBlocks bs) = text_blocks bs"

definition mr_user_text :: "messages_request \<Rightarrow> str" where
  "mr_user_text r =
     join_with [CHR 0x0A] ((case system r of Some sys \<Rightarrow> [extract_system sys] | None \<Rightarrow> [])
       @ map (\<lambda>m. extract_content (am_content m)) (filter (\<lambda>m. am_role m = ''user'') (mr_messages r)))"

fun redact_am :: "bool \<Rightarrow> str \<Rightarrow> anthropic_message list \<Rightarrow> bool \<times> anthropic_message list" where
  "redact_am first redacted_text [] = (first, [])"
| "redact_am first redacted_text (m # ms) =
     (if am_role m \<noteq> ''user''
      then (case redact_am first redacted_text ms of (f, ms') \<Rightarrow> (f, m # ms'))
      else (case redact_am False redacted_text ms of
              (f, ms') \<Rightarrow> (f, m\<lparr>am_content := AText (if first then redacted_text else ''[redacted]'')\<rparr> # ms')))"

definition mr_with_redacted_content :: "messages_request \<Rightarrow> str \<Rightarrow> messages_request" where
  "mr_with_redacted_content r redacted_text =
     (case redact_am True redacted_text (mr_messages r) of
        (first, ms) \<Rightarrow>
          r\<lparr>mr_messages := ms,
             system := (if system r \<noteq> None \<and> \<not> first then Some (SText ''[redacted]'') else system r)\<rparr>)"

definition mr_is_streaming :: "messages_request \<Rightarrow> bool" where
  "mr_is_streaming r = (mr_stream r = Some True)"

definition anthropic_error_response :: "str \<Rightarrow> str \<Rightarrow> json" where
  "anthropic_error_response error_type message =
     JObj [(''type'', JStr ''error''), (''error'', JObj [(''type'', JStr error_type), (''message'', JStr message)])]"

definition anthropic_blocked_response :: "str list \<Rightarrow> f64 \<Rightarrow> str \<Rightarrow> span list \<Rightarrow> json" where
  "anthropic_blocked_response types risk rule spans =
     JObj [(''type'', JStr ''error''),
       (''error'', JObj [(''type'', JStr ''permission_error''), (''message'', JStr ''Request blocked by TSM security policy''),
         (''tsm'', tsm_json types risk rule spans)])]"

definition block_to_json :: "content_block \<Rightarrow> json" where
  "block_to_json b = JObj ((''type'', JStr (block_type b)) # opt_member ''text'' JStr (block_text b)
     @ opt_member ''source'' id (source b) @ opt_member ''id'' JStr (block_id b) @ opt_member ''name'' JStr (block_name b)
     @ opt_member ''input'' id (input b) @ opt_member ''content'' id (block_content b))"

fun acontent_to_json :: "anthropic_content \<Rightarrow> json" where
  "acontent_to_json (AText s) = JStr s"
| "acontent_to_json (ABlocks bs) = JArr (map block_to_json bs)"

fun system_to_json :: "system_content \<Rightarrow> json" where
  "system_to_json (SText s) = JStr s"
| "system_to_json (SBlocks bs) = JArr (map block_to_json bs)"

definition am_to_json :: "anthropic_message \<Rightarrow> json" where
  "am_to_json m = JObj [(''role'', JStr (am_role m)), (''content'', acontent_to_json (am_content m))]"

definition mr_to_json :: "messages_request \<Rightarrow> json" where
  "mr_to_json r = JObj ((''model'', JStr (mr_model r)) # (''messages'', JArr (map am_to_json (mr_messages r)))
     # (''max_tokens'', json_u32 (mr_max_tokens r))
     # opt_member ''system'' system_to_json (system r) @ opt_member ''temperature'' json_f64 (mr_temperature r)
     @ opt_member ''stream'' JBool (mr_stream r) @ opt_member ''top_p'' json_f64 (mr_top_p r)
     @ opt_member ''top_k'' json_u32 (top_k r)
     @ opt_member ''stop_sequences'' (\<lambda>ss. JArr (map JStr ss)) (stop_sequences r)
     @ opt_member ''tools'' id (tools r) @ mr_extra r)"

definition mr_from_bytes :: "(str \<Rightarrow> json option) \<Rightarrow> str \<Rightarrow> messages_request option" where
  "mr_from_bytes parse s = Option.bind (parse s) mr_from_json"

definition mr_to_bytes :: "(json \<Rightarrow> str option) \<Rightarrow> messages_request \<Rightarrow> str" where
  "mr_to_bytes print r = (case print (mr_to_json r) of Some s \<Rightarrow> s | None \<Rightarrow> [])"

subsection \<open>The union of the two formats (\<open>ai/mod.rs\<close>)\<close>

datatype ai_protocol = OpenAI | Anthropic

datatype ai_request = OpenAIReq chat_request | AnthropicReq messages_request

text \<open>\<open>std::str::from_utf8(path).unwrap_or("")\<close>: an ill-formed path is treated as OpenAI.\<close>

definition from_path_and_body :: "(str \<Rightarrow> json option) \<Rightarrow> str \<Rightarrow> str \<Rightarrow> ai_request option" where
  "from_path_and_body parse path body =
     (let path_str = (case from_utf8 path of Some p \<Rightarrow> p | None \<Rightarrow> [])
      in if contains path_str ''/v1/messages'' \<or> contains path_str ''/anthropic''
         then map_option AnthropicReq (mr_from_bytes parse body)
         else map_option OpenAIReq (chat_from_bytes parse body))"

fun user_text :: "ai_request \<Rightarrow> str" where
  "user_text (OpenAIReq r) = chat_user_text r"
| "user_text (AnthropicReq r) = mr_user_text r"

fun req_model :: "ai_request \<Rightarrow> str" where
  "req_model (OpenAIReq r) = cr_model r"
| "req_model (AnthropicReq r) = mr_model r"

fun redacted_json :: "ai_request \<Rightarrow> str \<Rightarrow> json" where
  "redacted_json (OpenAIReq r) txt = chat_to_json (chat_with_redacted_content r txt)"
| "redacted_json (AnthropicReq r) txt = mr_to_json (mr_with_redacted_content r txt)"

definition redacted_bytes :: "(json \<Rightarrow> str option) \<Rightarrow> ai_request \<Rightarrow> str \<Rightarrow> str" where
  "redacted_bytes print r txt = (case print (redacted_json r txt) of Some s \<Rightarrow> s | None \<Rightarrow> [])"

fun is_streaming :: "ai_request \<Rightarrow> bool" where
  "is_streaming (OpenAIReq r) = chat_is_streaming r"
| "is_streaming (AnthropicReq r) = mr_is_streaming r"

fun protocol :: "ai_request \<Rightarrow> ai_protocol" where
  "protocol (OpenAIReq _) = OpenAI"
| "protocol (AnthropicReq _) = Anthropic"

fun build_block_response :: "ai_request \<Rightarrow> str list \<Rightarrow> f64 \<Rightarrow> str \<Rightarrow> span list \<Rightarrow> json" where
  "build_block_response (OpenAIReq _) types risk rule spans = openai_blocked_response types risk rule spans"
| "build_block_response (AnthropicReq _) types risk rule spans = anthropic_blocked_response types risk rule spans"

subsection \<open>Round trip of the serializers\<close>

lemma map_of_opt_member [simp]:
  "map_of (opt_member k f v) k' = (if k' = k then map_option f v else None)"
  by (simp add: opt_member_def split: option.splits)

lemma map_add_opt_member:
  "(m ++ map_of (opt_member k f v)) k' = (if k' = k \<and> v \<noteq> None then map_option f v else m k')"
  by (auto simp: map_add_def split: option.splits)

lemma if_map_option: "(if v \<noteq> None then map_option f v else None) = map_option f v"
  by simp

lemmas member_lookup = map_of_append map_add_opt_member if_map_option

lemma filter_opt_member [simp]:
  "filter P (opt_member k f v) = (case v of Some x \<Rightarrow> if P (k, f x) then [(k, f x)] else [] | None \<Rightarrow> [])"
  by (simp add: opt_member_def split: option.splits)

lemma traverse_map: "(\<And>x. x \<in> set xs \<Longrightarrow> f (g x) = Some x) \<Longrightarrow> traverse f (map g xs) = Some xs"
  by (induction xs) auto

lemma as_vec_map: "(\<And>x. x \<in> set xs \<Longrightarrow> f (g x) = Some x) \<Longrightarrow> as_vec f (JArr (map g xs)) = Some xs"
  by (simp add: as_vec_def traverse_map)

lemma update_fresh: "k \<notin> fst ` set acc \<Longrightarrow> AList.update k v acc = acc @ [(k, v)]"
  by (induction acc) auto

lemma foldl_update_distinct:
  "distinct (map fst (acc @ xs)) \<Longrightarrow> foldl (\<lambda>acc (k, v). AList.update k v acc) acc xs = acc @ xs"
proof (induction xs arbitrary: acc)
  case (Cons x xs)
  obtain k v where x: "x = (k, v)" by fastforce
  with Cons.prems have "k \<notin> fst ` set acc" by auto
  with Cons x show ?case by (simp add: update_fresh)
qed simp

lemma as_u32_json [simp]: "n < 2 ^ 32 \<Longrightarrow> as_u32 (json_u32 n) = Some n"
  by (simp add: json_u32_def)

definition finite_f64 :: "f64 option \<Rightarrow> bool" where
  "finite_f64 v = (case v of Some (Fin _) \<Rightarrow> True | None \<Rightarrow> True | _ \<Rightarrow> False)"

definition non_null :: "json option \<Rightarrow> bool" where
  "non_null v = (v \<noteq> Some JNull)"

definition small :: "nat option \<Rightarrow> bool" where
  "small v = (case v of Some n \<Rightarrow> n < 2 ^ 32 | None \<Rightarrow> True)"

lemma finite_f64_cases: "finite_f64 v \<Longrightarrow> v = None \<or> (\<exists>x. v = Some (Fin x))"
  by (auto simp: finite_f64_def split: option.splits f64.splits)

text \<open>How each kind of optional member is read back from the members of its object.\<close>

lemma opt_field_back:
  "map_of ms k = map_option JStr s \<Longrightarrow> opt_field as_str ms k = Some s"
  "map_of ms k = map_option JBool b \<Longrightarrow> opt_field as_bool ms k = Some b"
  "map_of ms k = map_option json_f64 x \<Longrightarrow> finite_f64 x \<Longrightarrow> opt_field as_f64 ms k = Some x"
  "map_of ms k = map_option json_u32 n \<Longrightarrow> small n \<Longrightarrow> opt_field as_u32 ms k = Some n"
  "map_of ms k = j \<Longrightarrow> non_null j \<Longrightarrow> opt_field Some ms k = Some j"
  by (auto simp: opt_field_def small_def non_null_def json_u32_def split: option.splits dest!: finite_f64_cases)

lemma part_roundtrip: "non_null (image_url p) \<Longrightarrow> part_from_json (part_to_json p) = Some p"
proof -
  assume nn: "non_null (image_url p)"
  let ?ms = "(''type'', JStr (part_type p)) # opt_member ''text'' JStr (part_text p) @ opt_member ''image_url'' id (image_url p)"
  have "unique_fields part_fields ?ms"
    by (simp add: unique_fields_def part_fields_def split: option.splits)
  moreover have "opt_field as_str ?ms ''text'' = Some (part_text p)"
    by (rule opt_field_back) (simp add: member_lookup option.map_id)
  moreover have "opt_field Some ?ms ''image_url'' = Some (image_url p)"
    by (rule opt_field_back(5) [OF _ nn]) (simp add: member_lookup option.map_id)
  ultimately show ?thesis
    unfolding part_from_json_def part_to_json_def by (simp add: req_field_def)
qed

definition content_wf :: "message_content \<Rightarrow> bool" where
  "content_wf c = (case c of CText _ \<Rightarrow> True | CParts ps \<Rightarrow> list_all (\<lambda>p. non_null (image_url p)) ps)"

lemma content_roundtrip: "content_wf c \<Longrightarrow> content_from_json (content_to_json c) = Some c"
  by (cases c) (auto simp: content_from_json_def content_wf_def list_all_iff intro!: as_vec_map part_roundtrip)

lemma message_roundtrip: "content_wf (msg_content m) \<Longrightarrow> message_from_json (message_to_json m) = Some m"
proof -
  assume wf: "content_wf (msg_content m)"
  let ?ms = "(''role'', JStr (msg_role m)) # (''content'', content_to_json (msg_content m)) # opt_member ''name'' JStr (msg_name m)"
  have "unique_fields message_fields ?ms"
    by (simp add: unique_fields_def message_fields_def split: option.splits)
  moreover have "opt_field as_str ?ms ''name'' = Some (msg_name m)"
    by (rule opt_field_back) (simp add: member_lookup)
  ultimately show ?thesis
    unfolding message_from_json_def message_to_json_def by (simp add: req_field_def content_roundtrip [OF wf])
qed

definition extra_wf :: "str list \<Rightarrow> (str \<times> json) list \<Rightarrow> bool" where
  "extra_wf names ex = (distinct (map fst ex) \<and> list_all (\<lambda>m. fst m \<notin> set names) ex)"

lemma extra_lookup: "extra_wf names ex \<Longrightarrow> k \<in> set names \<Longrightarrow> map_of ex k = None"
  by (auto simp: extra_wf_def list_all_iff map_of_eq_None_iff)

lemma extra_unique: "extra_wf names ex \<Longrightarrow> k \<in> set names \<Longrightarrow> filter (\<lambda>m. fst m = k) ex = []"
  by (auto simp: extra_wf_def list_all_iff filter_empty_conv)

lemma flatten_extra_back:
  assumes "extra_wf names ex" and "list_all (\<lambda>m. fst m \<in> set names) ms"
  shows "flatten_extra names (ms @ ex) = ex"
proof -
  have "filter (\<lambda>m. fst m \<notin> set names) (ms @ ex) = ex"
    using assms by (auto simp: extra_wf_def list_all_iff filter_empty_conv filter_id_conv)
  then show ?thesis
    using assms(1) foldl_update_distinct [of "[]" ex] by (simp add: flatten_extra_def extra_wf_def)
qed

definition chat_members :: "chat_request \<Rightarrow> (str \<times> json) list" where
  "chat_members r = (''model'', JStr (cr_model r)) # (''messages'', JArr (map message_to_json (messages r)))
     # opt_member ''temperature'' json_f64 (temperature r) @ opt_member ''max_tokens'' json_u32 (max_tokens r)
     @ opt_member ''stream'' JBool (stream r) @ opt_member ''top_p'' json_f64 (top_p r)
     @ opt_member ''frequency_penalty'' json_f64 (frequency_penalty r)
     @ opt_member ''presence_penalty'' json_f64 (presence_penalty r)
     @ opt_member ''stop'' id (stop r) @ opt_member ''user'' JStr (cr_user r)"

definition chat_wf :: "chat_request \<Rightarrow> bool" where
  "chat_wf r = (list_all (\<lambda>m. content_wf (msg_content m)) (messages r) \<and> finite_f64 (temperature r) \<and> small (max_tokens r)
     \<and> finite_f64 (top_p r) \<and> finite_f64 (frequency_penalty r) \<and> finite_f64 (presence_penalty r)
     \<and> non_null (stop r) \<and> extra_wf chat_fields (extra r))"

lemma chat_to_json_members: "chat_to_json r = JObj (chat_members r @ extra r)"
  by (simp add: chat_to_json_def chat_members_def)

lemma list_all_opt_member [simp]: "list_all P (opt_member k f v) = (case v of Some x \<Rightarrow> P (k, f x) | None \<Rightarrow> True)"
  by (simp add: opt_member_def split: option.splits)

lemma chat_members_known: "list_all (\<lambda>m. fst m \<in> set chat_fields) (chat_members r)"
  by (simp add: chat_members_def chat_fields_def split: option.splits)

lemma filter_key_opt_member:
  "filter (\<lambda>m. fst m = k') (opt_member k f v) = (if k = k' then opt_member k f v else [])"
  by (simp add: opt_member_def split: option.splits)

lemma length_opt_member: "length (opt_member k f v) \<le> Suc 0"
  by (simp add: opt_member_def split: option.splits)

lemma chat_members_unique: "list_all (\<lambda>k. length (filter (\<lambda>m. fst m = k) (chat_members r)) \<le> 1) chat_fields"
  by (simp add: chat_members_def chat_fields_def filter_key_opt_member length_opt_member del: filter_opt_member)

lemma chat_lookups:
  assumes "extra_wf chat_fields (extra r)"
  shows "map_of (chat_members r @ extra r) ''model'' = Some (JStr (cr_model r))"
    "map_of (chat_members r @ extra r) ''messages'' = Some (JArr (map message_to_json (messages r)))"
    "map_of (chat_members r @ extra r) ''temperature'' = map_option json_f64 (temperature r)"
    "map_of (chat_members r @ extra r) ''max_tokens'' = map_option json_u32 (max_tokens r)"
    "map_of (chat_members r @ extra r) ''stream'' = map_option JBool (stream r)"
    "map_of (chat_members r @ extra r) ''top_p'' = map_option json_f64 (top_p r)"
    "map_of (chat_members r @ extra r) ''frequency_penalty'' = map_option json_f64 (frequency_penalty r)"
    "map_of (chat_members r @ extra r) ''presence_penalty'' = map_option json_f64 (presence_penalty r)"
    "map_of (chat_members r @ extra r) ''stop'' = stop r"
    "map_of (chat_members r @ extra r) ''user'' = map_option JStr (cr_user r)"
  using extra_lookup [OF assms]
  by (simp_all add: chat_members_def chat_fields_def map_add_opt_member option.map_id)

lemma chat_roundtrip:
  assumes "chat_wf r"
  shows "chat_from_json (chat_to_json r) = Some r"
proof -
  from assms have ex: "extra_wf chat_fields (extra r)" by (simp add: chat_wf_def)
  have uniq: "unique_fields chat_fields (chat_members r @ extra r)"
    unfolding unique_fields_def list_all_iff filter_append
    using chat_members_unique [of r] extra_unique [OF ex] by (simp add: list_all_iff)
  have msgs: "as_vec message_from_json (JArr (map message_to_json (messages r))) = Some (messages r)"
    by (rule as_vec_map) (use assms in \<open>auto simp: chat_wf_def list_all_iff intro: message_roundtrip\<close>)
  show ?thesis
    unfolding chat_to_json_members chat_from_json.simps
    using uniq msgs assms
    by (simp add: req_field_def chat_lookups [OF ex, unfolded map_of_append] chat_wf_def
        flatten_extra_back [OF ex chat_members_known]
        opt_field_back(1) [OF chat_lookups(10) [OF ex]] opt_field_back(2) [OF chat_lookups(5) [OF ex]]
        opt_field_back(3) [OF chat_lookups(3) [OF ex]] opt_field_back(3) [OF chat_lookups(6) [OF ex]]
        opt_field_back(3) [OF chat_lookups(7) [OF ex]] opt_field_back(3) [OF chat_lookups(8) [OF ex]]
        opt_field_back(4) [OF chat_lookups(4) [OF ex]] opt_field_back(5) [OF chat_lookups(9) [OF ex]])
qed


definition sample_request :: chat_request where
  "sample_request = \<lparr>cr_model = ''gpt-4'',
     messages = [\<lparr>msg_role = ''user'', msg_content = CText ''hi'', msg_name = None\<rparr>],
     temperature = Some (Fin 1), max_tokens = Some 5, stream = None, top_p = None, frequency_penalty = None,
     presence_penalty = None, stop = None, cr_user = Some ''u'', extra = [(''seed'', JInt 3)]\<rparr>"


subsection \<open>Redacted requests\<close>

text \<open>Forgetting the content that is scanned: user and system messages, and the system prompt.\<close>

definition erase_message :: "chat_message \<Rightarrow> chat_message" where
  "erase_message m = (if scanned_role (msg_role m) then m\<lparr>msg_content := CText []\<rparr> else m)"

definition erase_am :: "anthropic_message \<Rightarrow> anthropic_message" where
  "erase_am m = (if am_role m = ''user'' then m\<lparr>am_content := AText []\<rparr> else m)"

fun erase_scanned :: "ai_request \<Rightarrow> ai_request" where
  "erase_scanned (OpenAIReq r) = OpenAIReq (r\<lparr>messages := map erase_message (messages r)\<rparr>)"
| "erase_scanned (AnthropicReq r) =
     AnthropicReq (r\<lparr>mr_messages := map erase_am (mr_messages r), system := map_option (\<lambda>_. SText []) (system r)\<rparr>)"

lemma redact_messages_erase: "redact_messages first t (map erase_message ms) = redact_messages first t ms"
  by (induction ms arbitrary: first) (auto simp: erase_message_def)

lemma redact_am_erase: "redact_am first t (map erase_am ms) = redact_am first t ms"
proof (induction ms arbitrary: first)
  case (Cons m ms)
  then show ?case by (cases "am_role m = ''user''") (simp_all add: erase_am_def)
qed simp

lemma redact_am_first: "fst (redact_am first t ms) = (first \<and> (\<forall>m\<in>set ms. am_role m \<noteq> ''user''))"
proof (induction ms arbitrary: first)
  case (Cons m ms)
  then show ?case by (cases "am_role m = ''user''") (simp_all add: case_prod_unfold)
qed simp

lemma redact_am_no_user: "\<forall>m\<in>set ms. am_role m \<noteq> ''user'' \<Longrightarrow> redact_am first t ms = (first, ms)"
  by (induction ms) auto

fun redactable :: "ai_request \<Rightarrow> bool" where
  "redactable (OpenAIReq _) = True"
| "redactable (AnthropicReq r) = (system r = None \<or> list_ex (\<lambda>m. am_role m = ''user'') (mr_messages r))"

lemma erase_am_role [simp]: "am_role (erase_am m) = am_role m"
  by (simp add: erase_am_def)

lemma redacted_erase: "redactable r \<Longrightarrow> redacted_json (erase_scanned r) t = redacted_json r t"
proof (cases r)
  case (OpenAIReq c)
  then show ?thesis by (simp add: chat_with_redacted_content_def redact_messages_erase)
next
  case (AnthropicReq c)
  assume red: "redactable r"
  obtain f ms where rm: "redact_am True t (mr_messages c) = (f, ms)" by fastforce
  from red AnthropicReq redact_am_first [of True t "mr_messages c"] rm have "system c = None \<or> \<not> f"
    by (auto simp: list_ex_iff)
  with AnthropicReq rm show ?thesis
    by (cases c) (auto simp: mr_with_redacted_content_def redact_am_erase)
qed

text \<open>
  Confidentiality of the rewritten request. Two requests that differ only in the
  content of user and system messages are forwarded as the same JSON once redacted
  to the same text: nothing of the original content survives next to the redacted
  text. For the Anthropic format this needs a user message or no system prompt.
\<close>

lemma redacted_request_noninterference:
  assumes "erase_scanned r = erase_scanned r'" and "redactable r" and "redactable r'"
  shows "redacted_json r t = redacted_json r' t"
  using redacted_erase [OF assms(2), of t] redacted_erase [OF assms(3), of t] assms(1) by simp

text \<open>
  An Anthropic request whose messages are all assistant turns is forwarded
  unchanged by redaction although its system prompt is the text that was scanned:
  the prompt is cleared only when some user message was replaced before.
\<close>

lemma system_prompt_survives_redaction:
  assumes "system r = Some sys" and "\<forall>m\<in>set (mr_messages r). am_role m \<noteq> ''user''"
  shows "user_text (AnthropicReq r) = extract_system sys
       \<and> redacted_json (AnthropicReq r) t = mr_to_json r"
proof -
  have "filter (\<lambda>m. am_role m = ''user'') (mr_messages r) = []"
    using assms(2) by (simp add: filter_empty_conv)
  then show ?thesis
    using assms redact_am_no_user [OF assms(2), of True t]
    by (cases r) (simp add: mr_user_text_def mr_with_redacted_content_def)
qed

end
