(* ===== verification/H1.thy ===== *)
theory H1
  imports Utf8
begin

text \<open>
  The HTTP/1.1 parser and response builder of \<open>http/h1.rs\<close>. A byte slice is a
  \<^typ>\<open>string\<close>; positions in the chunked decoder are 64-bit words that wrap, as they
  do in the release profile.
\<close>

definition crlf :: str where "crlf = [CHR 0x0D, CHR 0x0A]"

abbreviation CR :: char where "CR \<equiv> CHR 0x0D"
abbreviation LF :: char where "LF \<equiv> CHR 0x0A"

subsection \<open>Requests, responses and headers\<close>

type_synonym h1_header = "str \<times> str"

record h1_request =
  req_method :: str
  req_path :: str
  version_minor :: nat
  req_headers :: "h1_header list"
  req_body :: str

record h1_response =
  resp_status :: nat
  resp_headers :: "h1_header list"
  resp_body :: str
  resp_chunked :: bool

definition name_eq :: "h1_header \<Rightarrow> str \<Rightarrow> bool" where
  "name_eq h other = (to_lowercase (fst h) = to_lowercase other)"

definition value_str :: "h1_header \<Rightarrow> str" where
  "value_str h = (case from_utf8 (snd h) of Some s \<Rightarrow> s | None \<Rightarrow> [])"

definition find_header :: "h1_header list \<Rightarrow> str \<Rightarrow> h1_header option" where
  "find_header hs name = find (\<lambda>h. name_eq h name) hs"

definition header_usize :: "h1_header list \<Rightarrow> nat option" where
  "header_usize hs =
     Option.bind (find_header hs ''content-length'') (\<lambda>h.
     Option.bind (from_utf8 (snd h)) (\<lambda>v. parse_uint 64 (trim v)))"

definition content_length :: "h1_request \<Rightarrow> nat option" where
  "content_length r = header_usize (req_headers r)"

definition is_chunked :: "unicode \<Rightarrow> h1_request \<Rightarrow> bool" where
  "is_chunked u r =
     (case find_header (req_headers r) ''transfer-encoding'' of
        Some h \<Rightarrow> contains (lowercase u (value_str h)) ''chunked'' | None \<Rightarrow> False)"

definition keep_alive :: "unicode \<Rightarrow> h1_request \<Rightarrow> bool" where
  "keep_alive u r =
     (version_minor r = 1 \<and>
      \<not> (case find_header (req_headers r) ''connection'' of
           Some h \<Rightarrow> contains (lowercase u (value_str h)) ''close'' | None \<Rightarrow> False))"

subsection \<open>Lines\<close>

definition find_crlf :: "str \<Rightarrow> nat option" where
  "find_crlf buf = find_sub buf crlf"

definition find_double_crlf :: "str \<Rightarrow> nat option" where
  "find_double_crlf buf = find_sub buf (crlf @ crlf)"

definition parse_request_line :: "str \<Rightarrow> (str \<times> str \<times> nat \<times> nat) option" where
  "parse_request_line buf =
     Option.bind (find_crlf buf) (\<lambda>line_end.
     let line = take line_end buf in
     Option.bind (position (\<lambda>b. b = CHR '' '') line) (\<lambda>sp1.
     let rest = drop (sp1 + 1) line in
     Option.bind (position (\<lambda>b. b = CHR '' '') rest) (\<lambda>sp2.
       Some (take sp1 line, take sp2 rest, if ends_with (drop (sp2 + 1) rest) ''1.1'' then 1 else 0, line_end))))"

definition parse_status_line :: "str \<Rightarrow> (nat \<times> nat) option" where
  "parse_status_line buf =
     Option.bind (find_crlf buf) (\<lambda>line_end.
     let line = take line_end buf in
     Option.bind (position (\<lambda>b. b = CHR '' '') line) (\<lambda>sp1.
     let rest = drop (sp1 + 1) line;
         sp2 = (case position (\<lambda>b. b = CHR '' '') rest of Some i \<Rightarrow> i | None \<Rightarrow> length rest) in
     Option.bind (from_utf8 (take sp2 rest)) (\<lambda>code.
     Option.bind (parse_uint 16 (trim code)) (\<lambda>n. Some (n, line_end)))))"

definition ascii_space :: "char \<Rightarrow> bool" where
  "ascii_space c = (c = CHR '' '' \<or> c = CHR 0x09 \<or> c = LF \<or> c = CHR 0x0C \<or> c = CR)"

definition parse_header_line :: "str \<Rightarrow> (str \<times> str \<times> nat) option" where
  "parse_header_line buf =
     (if starts_with buf crlf then None
      else Option.bind (find_crlf buf) (\<lambda>line_end.
           let line = take line_end buf in
           Option.bind (position (\<lambda>b. b = CHR '':'') line) (\<lambda>colon.
             Some (take colon line, dropWhile ascii_space (drop (colon + 1) line), line_end))))"

text \<open>The header loop on the rest of the buffer, with the header bytes left.\<close>

function parse_headers :: "str \<Rightarrow> nat \<Rightarrow> h1_header list" where
  "parse_headers rest n =
     (if n = 0 then []
      else case parse_header_line rest of
        None \<Rightarrow> []
      | Some (name, value, consumed) \<Rightarrow>
          (name, value) # parse_headers (drop (consumed + 2) rest) (n - (consumed + 2)))"
  by auto
termination by (relation "measure snd") auto

declare parse_headers.simps [simp del]

subsection \<open>Chunked bodies\<close>

definition hex_value :: "char \<Rightarrow> nat option" where
  "hex_value c =
     (let n = of_char c in
      if 48 \<le> n \<and> n \<le> 57 then Some (n - 48)
      else if 97 \<le> n \<and> n \<le> 102 then Some (n - 87)
      else if 65 \<le> n \<and> n \<le> 70 then Some (n - 55) else None)"

fun hex_digits :: "str \<Rightarrow> nat \<Rightarrow> nat option" where
  "hex_digits [] n = Some n"
| "hex_digits (c # cs) n = Option.bind (hex_value c) (\<lambda>d. hex_digits cs (16 * n + d))"

text \<open>\<open>usize::from_str_radix(s, 16)\<close>.\<close>

definition parse_hex :: "str \<Rightarrow> nat option" where
  "parse_hex s =
     (let ds = (case s of c # cs \<Rightarrow> if c = CHR ''+'' then cs else s | [] \<Rightarrow> [])
      in if ds = [] then None
         else case hex_digits ds 0 of Some n \<Rightarrow> if n < 2 ^ 64 then Some n else None | None \<Rightarrow> None)"

datatype chunk_result = Decoded "64 word" "64 word" | Incomplete | Panicked

definition chunk_size_at :: "str \<Rightarrow> nat \<Rightarrow> (nat \<times> 64 word) option" where
  "chunk_size_at buf pos =
     Option.bind (find_crlf (drop pos buf)) (\<lambda>line_end.
     Option.bind (from_utf8 (take line_end (drop pos buf))) (\<lambda>line.
     Option.bind (parse_hex (trim (hd (split_on (CHR '';'') line)))) (\<lambda>n.
       Some (line_end, word_of_nat n))))"

text \<open>The loop of \<open>decode_chunked\<close>; \<open>None\<close> means that it has not returned within the fuel.\<close>

fun decode_chunked :: "nat \<Rightarrow> str \<Rightarrow> 64 word \<Rightarrow> 64 word \<Rightarrow> chunk_result option" where
  "decode_chunked 0 buf pos decoded = None"
| "decode_chunked (Suc fuel) buf pos decoded =
     (if length buf < unat pos then Some Panicked
      else case chunk_size_at buf (unat pos) of
        None \<Rightarrow> Some Incomplete
      | Some (line_end, chunk_size) \<Rightarrow>
          (let pos1 = pos + word_of_nat (line_end + 2)
           in if chunk_size = 0
              then Some (Decoded (pos1 + word_of_nat ((case find_crlf (drop (unat pos1) buf) of Some k \<Rightarrow> k | None \<Rightarrow> 0) + 2)) decoded)
              else if word_of_nat (length buf) < pos1 + chunk_size + 2 then Some Incomplete
              else decode_chunked fuel buf (pos1 + chunk_size + 2) (decoded + chunk_size)))"

subsection \<open>Whole messages\<close>

datatype parse_result = Complete h1_request "64 word" | NeedMore | ParseError str | Diverges | Aborts

definition chunked_header :: "unicode \<Rightarrow> h1_header list \<Rightarrow> bool" where
  "chunked_header u hs =
     list_ex (\<lambda>h. name_eq h ''transfer-encoding'' \<and> contains (lowercase u (value_str h)) ''chunked'') hs"

text \<open>\<open>fuel\<close> bounds the chunked decoder only.\<close>

definition parse_request :: "nat \<Rightarrow> unicode \<Rightarrow> str \<Rightarrow> parse_result" where
  "parse_request fuel u buf =
     (case find_double_crlf buf of
        None \<Rightarrow> NeedMore
      | Some header_end \<Rightarrow>
          (let header_section = take header_end buf; after_headers = header_end + 4
           in case parse_request_line header_section of
                None \<Rightarrow> ParseError ''malformed request line''
              | Some (m, path, minor, line_end) \<Rightarrow>
                  (let headers = parse_headers (drop (line_end + 2) buf) (header_end - (line_end + 2));
                       mk = (\<lambda>b. \<lparr>req_method = m, req_path = path, version_minor = minor,
                                   req_headers = headers, req_body = b\<rparr>)
                   in if chunked_header u headers
                      then (case decode_chunked fuel (drop after_headers buf) 0 0 of
                              None \<Rightarrow> Diverges
                            | Some (Decoded p _) \<Rightarrow> Complete (mk []) (word_of_nat after_headers + p)
                            | Some Incomplete \<Rightarrow> NeedMore
                            | Some Panicked \<Rightarrow> Aborts)
                      else (let cl = (case header_usize headers of Some n \<Rightarrow> n | None \<Rightarrow> 0);
                                total = word_of_nat after_headers + word_of_nat cl
                            in if word_of_nat (length buf) < total then NeedMore
                               else if unat total < after_headers then Aborts
                               else Complete (mk (sub_slice after_headers (unat total) buf)) total))))"

datatype response_result = RComplete h1_response "64 word" | RNeedMore | RError str | RDiverges | RAborts

definition parse_response :: "nat \<Rightarrow> unicode \<Rightarrow> str \<Rightarrow> response_result" where
  "parse_response fuel u buf =
     (case find_double_crlf buf of
        None \<Rightarrow> RNeedMore
      | Some header_end \<Rightarrow>
          (let header_section = take header_end buf; after_headers = header_end + 4
           in case parse_status_line header_section of
                None \<Rightarrow> RError ''malformed status line''
              | Some (status, line_end) \<Rightarrow>
                  (let headers = parse_headers (drop (line_end + 2) buf) (header_end - (line_end + 2));
                       chunked = chunked_header u headers;
                       mk = (\<lambda>b. \<lparr>resp_status = status, resp_headers = headers, resp_body = b, resp_chunked = chunked\<rparr>)
                   in if chunked
                      then (case decode_chunked fuel (drop after_headers buf) 0 0 of
                              None \<Rightarrow> RDiverges
                            | Some (Decoded p _) \<Rightarrow> RComplete (mk []) (word_of_nat after_headers + p)
                            | Some Incomplete \<Rightarrow> RNeedMore
                            | Some Panicked \<Rightarrow> RAborts)
                      else (let cl = (case header_usize headers of Some n \<Rightarrow> n | None \<Rightarrow> 0);
                                total = word_of_nat after_headers + word_of_nat cl
                            in if word_of_nat (length buf) < total then RNeedMore
                               else if unat total < after_headers then RAborts
                               else RComplete (mk (sub_slice after_headers (unat total) buf)) total))))"

definition build_response :: "nat \<Rightarrow> str \<Rightarrow> str \<Rightarrow> str \<Rightarrow> str" where
  "build_response status reason content_type body =
     ''HTTP/1.1 '' @ dec_digits status @ '' '' @ reason @ crlf @ ''Content-Type: '' @ content_type
     @ crlf @ ''Content-Length: '' @ dec_digits (length body) @ crlf @ ''Connection: keep-alive'' @ crlf @ crlf @ body"

subsection \<open>Searching line ends\<close>

lemma find_sub_skip: "CR \<notin> set l \<Longrightarrow> find_sub (l @ rest) (CR # p) = map_option ((+) (length l)) (find_sub rest (CR # p))"
proof (induction l)
  case Nil
  show ?case by (cases "find_sub rest (CR # p)") simp_all
next
  case (Cons c l)
  then have "c \<noteq> CR" by auto
  with Cons show ?case by (cases "find_sub rest (CR # p)") (simp_all add: starts_with_def)
qed

lemma find_crlf_line: "CR \<notin> set l \<Longrightarrow> find_crlf (l @ crlf @ rest) = Some (length l)"
  by (simp add: find_crlf_def crlf_def find_sub_skip starts_with_def)

definition header_lines :: "str list \<Rightarrow> str" where
  "header_lines ls = concat (map (\<lambda>l. l @ crlf) ls)"

definition line_ok :: "str \<Rightarrow> bool" where
  "line_ok l = (l \<noteq> [] \<and> CR \<notin> set l)"

lemma header_lines_simps [simp]:
  "header_lines [] = []" "header_lines (l # ls) = l @ crlf @ header_lines ls"
  by (simp_all add: header_lines_def)

lemma starts_with_dcrlf:
  "starts_with (CR # LF # c # cs) (crlf @ crlf) \<Longrightarrow> c = CR"
  by (simp add: starts_with_def crlf_def)

lemma find_double_crlf_lines:
  assumes "ls \<noteq> []" and "list_all line_ok ls"
  shows "find_double_crlf (header_lines ls @ crlf @ rest) = Some (length (header_lines ls) - 2)"
  using assms
proof (induction ls)
  case (Cons l ls)
  then have l: "CR \<notin> set l" by (simp add: line_ok_def)
  have skip: "find_double_crlf (l @ crlf @ t) = map_option ((+) (length l)) (find_double_crlf (crlf @ t))" for t
    using find_sub_skip [OF l, of "crlf @ t" "LF # crlf"] by (simp add: find_double_crlf_def crlf_def)
  show ?case
  proof (cases ls)
    case Nil
    then show ?thesis using skip [of "crlf @ rest"]
      by (simp add: find_double_crlf_def crlf_def starts_with_def)
  next
    case (Cons m ms)
    then obtain c cs where m: "m = c # cs" "c \<noteq> CR"
      using Cons.prems(2) by (cases m) (auto simp: line_ok_def)
    define t where "t = header_lines ls @ crlf @ rest"
    have t: "\<exists>ts. t = c # ts" using Cons m by (simp add: t_def)
    have "find_double_crlf (crlf @ t) = map_option ((+) 2) (find_double_crlf t)"
      using t m(2) by (auto simp: find_double_crlf_def crlf_def starts_with_def option.map_comp comp_def)
    moreover have "find_double_crlf t = Some (length (header_lines ls) - 2)"
      unfolding t_def using Cons.IH Cons Cons.prems by simp
    moreover have "2 \<le> length (header_lines ls)" using Cons by (simp add: crlf_def)
    ultimately show ?thesis
      using skip [of t] by (simp add: t_def crlf_def)
  qed
qed simp

text \<open>The header loop reads back a block of well-formed lines.\<close>

definition header_line :: "h1_header \<Rightarrow> str" where
  "header_line h = fst h @ '': '' @ snd h"

definition header_ok :: "h1_header \<Rightarrow> bool" where
  "header_ok h = (CHR '':'' \<notin> set (fst h) \<and> CR \<notin> set (fst h) \<and> CR \<notin> set (snd h)
     \<and> (snd h \<noteq> [] \<longrightarrow> \<not> ascii_space (hd (snd h))))"

lemma header_ok_line: "header_ok h \<Longrightarrow> line_ok (header_line h)"
  by (auto simp: header_ok_def header_line_def line_ok_def)

lemma position_append_sep: "d \<notin> set xs \<Longrightarrow> position (\<lambda>b. b = d) (xs @ d # ys) = Some (length xs)"
  by (induction xs) auto

lemma parse_header_line_back:
  assumes "header_ok h"
  shows "parse_header_line (header_line h @ crlf @ rest) = Some (fst h, snd h, length (header_line h))"
proof -
  from assms have ok: "line_ok (header_line h)" by (rule header_ok_line)
  then have "\<not> starts_with (header_line h @ crlf @ rest) crlf"
    by (cases "header_line h") (auto simp: line_ok_def starts_with_def crlf_def)
  moreover have "find_crlf (header_line h @ crlf @ rest) = Some (length (header_line h))"
    using ok by (simp add: find_crlf_line line_ok_def)
  moreover have "position (\<lambda>b. b = CHR '':'') (header_line h) = Some (length (fst h))"
    using assms position_append_sep [of "CHR '':''" "fst h" "CHR '' '' # snd h"]
    by (simp add: header_line_def header_ok_def)
  moreover have "dropWhile ascii_space (CHR '' '' # snd h) = snd h"
    using assms by (auto simp: ascii_space_def header_ok_def intro!: dropWhile_id)
  ultimately show ?thesis
    by (simp add: parse_header_line_def header_line_def)
qed

lemma parse_headers_back:
  assumes "list_all header_ok hs" and "hs \<noteq> []"
  shows "parse_headers (header_lines (map header_line hs) @ rest) (length (header_lines (map header_line hs)) - 2) = hs"
  using assms
proof (induction hs)
  case (Cons h hs)
  let ?tl = "header_lines (map header_line hs) @ rest"
  have "header_line h \<noteq> []" by (simp add: header_line_def)
  then have pos: "length (header_lines (map header_line (h # hs))) - 2 \<noteq> 0"
    by (cases "header_line h") (simp_all add: crlf_def)
  have step: "parse_headers (header_lines (map header_line (h # hs)) @ rest)
      (length (header_lines (map header_line (h # hs))) - 2)
    = h # parse_headers ?tl (length (header_lines (map header_line hs)) - 2)"
    using Cons.prems(1) parse_header_line_back [of h ?tl] pos
    by (subst parse_headers.simps) (simp add: crlf_def)
  show ?case
  proof (cases "hs = []")
    case True
    with step show ?thesis by (simp add: parse_headers.simps)
  next
    case False
    with step Cons show ?thesis by simp
  qed
qed simp

lemma drop_length_append: "drop (length xs) (xs @ ys) = ys"
  by simp

lemma sub_slice_mid: "sub_slice (length a) (length a + length b) (a @ b @ c) = b"
  by (simp add: sub_slice_def)

lemma unat_small: "n < 2 ^ 64 \<Longrightarrow> unat (word_of_nat n :: 64 word) = n"
  by (simp add: unat_of_nat take_bit_nat_eq_self)

text \<open>A message head: a start line, header lines and the empty line.\<close>

definition message_head :: "str \<Rightarrow> h1_header list \<Rightarrow> str" where
  "message_head line hs = header_lines (line # map header_line hs) @ crlf"

lemma head_layout:
  assumes "line_ok line" and "list_all header_ok hs" and "hs \<noteq> []"
  shows "find_double_crlf (message_head line hs @ rest) = Some (length (message_head line hs) - 4)"
    and "\<exists>x. take (length (message_head line hs) - 4) (message_head line hs @ rest) = line @ crlf @ x"
    and "parse_headers (drop (length line + 2) (message_head line hs @ rest))
           (length (message_head line hs) - 4 - (length line + 2)) = hs"
    and "length (message_head line hs) - 4 + 4 = length (message_head line hs)"
proof -
  let ?B = "header_lines (map header_line hs)"
  have lines: "list_all line_ok (line # map header_line hs)"
    using assms header_ok_line by (auto simp: list_all_iff)
  have len: "length (message_head line hs) = length line + 2 + length ?B + 2"
    by (simp add: message_head_def crlf_def)
  have B2: "2 \<le> length ?B" using assms(3) by (cases hs) (simp_all add: crlf_def)
  show "find_double_crlf (message_head line hs @ rest) = Some (length (message_head line hs) - 4)"
    using find_double_crlf_lines [OF _ lines, of rest] by (simp add: message_head_def crlf_def)
  have b: "message_head line hs @ rest = (line @ crlf) @ ?B @ crlf @ rest"
    by (simp add: message_head_def)
  have "length (message_head line hs) - 4 = length (line @ crlf) + (length ?B - 2)"
    using len B2 by (simp add: crlf_def)
  then have "take (length (message_head line hs) - 4) (message_head line hs @ rest)
      = line @ crlf @ take (length ?B - 2) ?B"
    unfolding b by (simp only: take_append) simp
  then show "\<exists>x. take (length (message_head line hs) - 4) (message_head line hs @ rest) = line @ crlf @ x"
    by blast
  have "length line + 2 = length (line @ crlf)" by (simp add: crlf_def)
  then have "drop (length line + 2) (message_head line hs @ rest) = ?B @ crlf @ rest"
    unfolding b by (simp only: drop_length_append)
  then show "parse_headers (drop (length line + 2) (message_head line hs @ rest))
           (length (message_head line hs) - 4 - (length line + 2)) = hs"
    using parse_headers_back [OF assms(2,3), of "crlf @ rest"] len by simp
  show "length (message_head line hs) - 4 + 4 = length (message_head line hs)"
    using len B2 by simp
qed

subsection \<open>Reading back a built response\<close>

definition built_headers :: "str \<Rightarrow> str \<Rightarrow> h1_header list" where
  "built_headers content_type body =
     [(''Content-Type'', content_type), (''Content-Length'', dec_digits (length body)), (''Connection'', ''keep-alive'')]"

lemma build_response_lines:
  "build_response status reason ct body =
     message_head (''HTTP/1.1 '' @ dec_digits status @ '' '' @ reason) (built_headers ct body) @ body"
  by (simp add: build_response_def built_headers_def header_line_def message_head_def)

lemma digits_no_cr: "CR \<notin> set (dec_digits n)" "CHR '' '' \<notin> set (dec_digits n)"
  using dec_digits_digits [of _ n] by (fastforce simp: ascii_digitp_def)+

lemma digits_no_space: "\<not> ascii_space (hd (dec_digits n))"
proof -
  have "hd (dec_digits n) \<in> set (dec_digits n)" by simp
  then have "ascii_digitp (hd (dec_digits n))" by (rule dec_digits_digits)
  then show ?thesis by (auto simp: ascii_digitp_def ascii_space_def)
qed

definition ct_ok :: "str \<Rightarrow> bool" where
  "ct_ok ct = (CR \<notin> set ct \<and> (ct \<noteq> [] \<longrightarrow> \<not> ascii_space (hd ct)))"

lemma built_headers_ok: "ct_ok ct \<Longrightarrow> list_all header_ok (built_headers ct body)"
  by (simp add: built_headers_def header_ok_def ct_ok_def digits_no_cr digits_no_space)
     (simp add: ascii_space_def)

lemma parse_status_line_back:
  assumes "CR \<notin> set reason" and "status < 2 ^ 16"
  shows "parse_status_line ((''HTTP/1.1 '' @ dec_digits status @ '' '' @ reason) @ crlf @ rest)
     = Some (status, length (''HTTP/1.1 '' @ dec_digits status @ '' '' @ reason))"
proof -
  let ?l = "''HTTP/1.1 '' @ dec_digits status @ '' '' @ reason"
  have "find_crlf (?l @ crlf @ rest) = Some (length ?l)"
    by (rule find_crlf_line) (use assms in \<open>simp add: digits_no_cr\<close>)
  moreover have "position (\<lambda>b. b = CHR '' '') (dec_digits status @ CHR '' '' # reason) = Some (length (dec_digits status))"
    by (rule position_append_sep) (simp add: digits_no_cr)
  ultimately show ?thesis
    using assms(2) by (simp add: parse_status_line_def Let_def from_utf8_ascii)
qed

lemma name_eq_simps:
  "name_eq (''Content-Type'', v) ''content-length'' = False" "name_eq (''Content-Length'', v) ''content-length'' = True"
  "name_eq (''Content-Type'', v) ''transfer-encoding'' = False" "name_eq (''Content-Length'', v) ''transfer-encoding'' = False"
  "name_eq (''Connection'', v) ''transfer-encoding'' = False"
  by (simp_all add: name_eq_def to_lowercase_def char_lower_def ascii_upperp_def char_of_def bit_iff_odd)

lemma built_headers_length: "length body < 2 ^ 64 \<Longrightarrow> header_usize (built_headers ct body) = Some (length body)"
  by (simp add: header_usize_def built_headers_def find_header_def name_eq_simps from_utf8_ascii)

lemma built_headers_plain: "\<not> chunked_header u (built_headers ct body)"
  by (simp add: chunked_header_def built_headers_def name_eq_simps)

lemma parse_response_sized:
  assumes "CR \<notin> set reason" and "status < 2 ^ 16" and "list_all header_ok hs" and "hs \<noteq> []"
    and "\<not> chunked_header u hs" and "header_usize hs = Some (length body)"
    and "length (message_head (''HTTP/1.1 '' @ dec_digits status @ '' '' @ reason) hs @ body @ tail) < 2 ^ 64"
  shows "parse_response fuel u (message_head (''HTTP/1.1 '' @ dec_digits status @ '' '' @ reason) hs @ body @ tail) =
     RComplete \<lparr>resp_status = status, resp_headers = hs, resp_body = body, resp_chunked = False\<rparr>
       (word_of_nat (length (message_head (''HTTP/1.1 '' @ dec_digits status @ '' '' @ reason) hs @ body)))"
proof -
  let ?line = "''HTTP/1.1 '' @ dec_digits status @ '' '' @ reason"
  let ?H = "message_head ?line hs"
  have line: "line_ok ?line" using assms(1) by (simp add: line_ok_def digits_no_cr)
  note layout = head_layout(1-3) [OF line assms(3,4), of "body @ tail"] head_layout(4) [OF line assms(3,4)]
  obtain x where "take (length ?H - 4) (?H @ body @ tail) = ?line @ crlf @ x" using layout(2) by blast
  then have st: "parse_status_line (take (length ?H - 4) (?H @ body @ tail)) = Some (status, length ?line)"
    using parse_status_line_back [OF assms(1,2)] by simp
  have small: "length ?H + length body + length tail < 2 ^ 64" using assms(7) by (simp add: add.assoc)
  have total: "word_of_nat (length ?H) + word_of_nat (length body) = (word_of_nat (length ?H + length body) :: 64 word)"
    by (simp only: of_nat_add)
  have un: "unat (word_of_nat (length ?H + length body) :: 64 word) = length ?H + length body"
    using small by (intro unat_small) simp
  have cmp: "\<not> (word_of_nat (length (?H @ body @ tail)) :: 64 word) < word_of_nat (length ?H + length body)"
    using un unat_small [of "length (?H @ body @ tail)"] small by (simp add: word_less_nat_alt)
  show ?thesis
    unfolding parse_response_def layout(1) option.case Let_def st prod.case layout(3,4)
    using cmp un sub_slice_mid [of ?H body tail] assms(5,6)
    by (simp only: if_False option.case total) (simp add: not_less)
qed

text \<open>
  A response built by the proxy is parsed back with the same status, headers and
  body, and the parser consumes exactly the built bytes, for every status code, body
  and content type and whatever follows in the buffer.
\<close>

lemma response_roundtrip:
  assumes "CR \<notin> set reason" and "ct_ok ct" and "status < 2 ^ 16"
    and "length (build_response status reason ct body @ tail) < 2 ^ 64"
  shows "parse_response fuel u (build_response status reason ct body @ tail) =
     RComplete \<lparr>resp_status = status, resp_headers = built_headers ct body, resp_body = body, resp_chunked = False\<rparr>
       (word_of_nat (length (build_response status reason ct body)))"
proof -
  have "header_usize (built_headers ct body) = Some (length body)"
    using assms(4) by (intro built_headers_length) (simp add: build_response_lines)
  then show ?thesis
    using parse_response_sized [OF assms(1,3) built_headers_ok [OF assms(2)] _ built_headers_plain] assms(4)
    by (simp add: build_response_lines built_headers_def)
qed

subsection \<open>Requests\<close>

lemma request_line_back:
  assumes "CHR '' '' \<notin> set m" and "CHR '' '' \<notin> set path" and "CR \<notin> set m" and "CR \<notin> set path"
  shows "parse_request_line ((m @ '' '' @ path @ '' HTTP/1.1'') @ crlf @ rest)
     = Some (m, path, 1, length (m @ '' '' @ path @ '' HTTP/1.1''))"
proof -
  define l r where "l = m @ '' '' @ path @ '' HTTP/1.1''" and "r = path @ CHR '' '' # ''HTTP/1.1''"
  have "find_crlf (l @ crlf @ rest) = Some (length l)"
    by (rule find_crlf_line) (use assms in \<open>simp add: l_def\<close>)
  moreover have "position (\<lambda>b. b = CHR '' '') l = Some (length m)"
    using position_append_sep [OF assms(1), of "path @ '' HTTP/1.1''"] by (simp add: l_def)
  moreover have "position (\<lambda>b. b = CHR '' '') r = Some (length path)"
    unfolding r_def by (rule position_append_sep [OF assms(2)])
  moreover have "take (length m) l = m" "drop (Suc (length m)) l = r" "take (length path) r = path"
    "ends_with (drop (Suc (length path)) r) ''1.1''"
    by (simp_all add: l_def r_def ends_with_def)
  moreover have "take (length l) (l @ crlf @ rest) = l" by simp
  ultimately show ?thesis
    unfolding l_def [symmetric]
    by (simp add: parse_request_line_def del: take_append take_take drop_drop)
qed

text \<open>What the request parser does on any well-formed head.\<close>

lemma parse_request_head:
  assumes "CHR '' '' \<notin> set m" and "CHR '' '' \<notin> set path" and "CR \<notin> set m" and "CR \<notin> set path"
    and "list_all header_ok hs" and "hs \<noteq> []"
  shows "parse_request fuel u (message_head (m @ '' '' @ path @ '' HTTP/1.1'') hs @ rest) =
    (let H = message_head (m @ '' '' @ path @ '' HTTP/1.1'') hs;
         mk = (\<lambda>b. \<lparr>req_method = m, req_path = path, version_minor = 1, req_headers = hs, req_body = b\<rparr>)
     in if chunked_header u hs
        then (case decode_chunked fuel rest 0 0 of
                None \<Rightarrow> Diverges
              | Some (Decoded p _) \<Rightarrow> Complete (mk []) (word_of_nat (length H) + p)
              | Some Incomplete \<Rightarrow> NeedMore
              | Some Panicked \<Rightarrow> Aborts)
        else (let total = word_of_nat (length H) + word_of_nat (case header_usize hs of Some n \<Rightarrow> n | None \<Rightarrow> 0)
              in if word_of_nat (length (H @ rest)) < total then NeedMore
                 else if unat total < length H then Aborts
                 else Complete (mk (sub_slice (length H) (unat total) (H @ rest))) total))"
proof -
  let ?line = "m @ '' '' @ path @ '' HTTP/1.1''"
  let ?H = "message_head ?line hs"
  have line: "line_ok ?line" using assms by (simp add: line_ok_def)
  note layout = head_layout(1-3) [OF line assms(5,6), of rest] head_layout(4) [OF line assms(5,6)]
  obtain x where "take (length ?H - 4) (?H @ rest) = ?line @ crlf @ x" using layout(2) by blast
  then have rl: "parse_request_line (take (length ?H - 4) (?H @ rest)) = Some (m, path, 1, length ?line)"
    using request_line_back [OF assms(1-4)] by simp
  show ?thesis
    unfolding parse_request_def layout(1) option.case Let_def rl prod.case layout(3,4) drop_length_append
    by (rule refl)
qed

text \<open>The length of the request and of the body must fit in 64 bits, as every buffer does.\<close>

lemma parse_request_sized:
  assumes "CHR '' '' \<notin> set m" and "CHR '' '' \<notin> set path" and "CR \<notin> set m" and "CR \<notin> set path"
    and "list_all header_ok hs" and "hs \<noteq> []"
    and "\<not> chunked_header u hs" and "header_usize hs = Some (length body)"
    and "length (message_head (m @ '' '' @ path @ '' HTTP/1.1'') hs @ body @ tail) < 2 ^ 64"
  shows "parse_request fuel u (message_head (m @ '' '' @ path @ '' HTTP/1.1'') hs @ body @ tail) =
     Complete \<lparr>req_method = m, req_path = path, version_minor = 1, req_headers = hs, req_body = body\<rparr>
       (word_of_nat (length (message_head (m @ '' '' @ path @ '' HTTP/1.1'') hs @ body)))"
proof -
  let ?H = "message_head (m @ '' '' @ path @ '' HTTP/1.1'') hs"
  have small: "length ?H + length body + length tail < 2 ^ 64" using assms(9) by (simp add: add.assoc)
  have total: "word_of_nat (length ?H) + word_of_nat (length body) = (word_of_nat (length ?H + length body) :: 64 word)"
    by (simp only: of_nat_add)
  have un: "unat (word_of_nat (length ?H + length body) :: 64 word) = length ?H + length body"
    using small by (intro unat_small) simp
  have cmp: "\<not> (word_of_nat (length (?H @ body @ tail)) :: 64 word) < word_of_nat (length ?H + length body)"
    using un unat_small [of "length (?H @ body @ tail)"] small by (simp add: word_less_nat_alt)
  show ?thesis
    unfolding parse_request_head [OF assms(1-6)] Let_def
    using cmp un sub_slice_mid [of ?H body tail] assms(7,8)
    by (simp only: if_False option.case total) (simp add: not_less)
qed

subsection \<open>Wrap-around in the parser\<close>

definition evil_chunk :: str where
  "evil_chunk = ''ffffffffffffffec'' @ crlf"

lemma evil_chunk_size: "chunk_size_at evil_chunk 0 = Some (16, - 20)"
proof -
  have "find_crlf evil_chunk = Some 16"
    using find_crlf_line [of "''ffffffffffffffec''" "[]"] by (simp add: evil_chunk_def)
  moreover have "take 16 evil_chunk = ''ffffffffffffffec''" by (simp add: evil_chunk_def)
  moreover have "trim ''ffffffffffffffec'' = ''ffffffffffffffec''"
    by (rule trim_id) (simp_all add: is_whitespace_def)
  moreover have "parse_hex ''ffffffffffffffec'' = Some 18446744073709551596"
    by (simp add: parse_hex_def hex_value_def)
  moreover have "(word_of_nat 18446744073709551596 :: 64 word) = - 20" by simp
  ultimately show ?thesis
    by (simp add: chunk_size_at_def from_utf8_ascii)
qed

lemma evil_chunk_loops: "decode_chunked fuel evil_chunk 0 decoded = None"
proof (induction fuel arbitrary: decoded)
  case (Suc fuel)
  then show ?case by (simp add: evil_chunk_size Let_def evil_chunk_def [symmetric])
qed simp

text \<open>
  C13: the chunked decoder adds the chunk size to its position without an overflow
  check, so a request whose chunk size is chosen to bring the position back to zero
  keeps the parser in its loop for ever: no amount of fuel makes it return. The whole
  request is sixty-six bytes.
\<close>

theorem chunk_overflow_diverges:
  "parse_request fuel u (message_head ''POST / HTTP/1.1'' [(''Transfer-Encoding'', ''chunked'')] @ evil_chunk) = Diverges"
proof -
  have "chunked_header u [(''Transfer-Encoding'', ''chunked'')]"
    by (simp add: chunked_header_def name_eq_def to_lowercase_def char_lower_def ascii_upperp_def char_of_def bit_iff_odd
        value_str_def from_utf8_ascii lowercase_def starts_with_def)
  moreover have "list_all header_ok [(''Transfer-Encoding'', ''chunked'')]"
    by (simp add: header_ok_def ascii_space_def)
  ultimately show ?thesis
    using parse_request_head [of "''POST''" "''/''" "[(''Transfer-Encoding'', ''chunked'')]" fuel u evil_chunk]
    by (simp add: evil_chunk_loops)
qed

definition huge_length_head :: str where
  "huge_length_head = message_head ''POST / HTTP/1.1''
     [(''X'', [CHR 0xFF]), (''Content-Length'', ''18446744073709551615'')]"

text \<open>
  The end of the body is computed as the header length plus the declared length
  without an overflow check. A request of two header lines that declares the largest
  64-bit length makes the sum wrap below the start of the body, and slicing the
  buffer there aborts the process.
\<close>

lemma huge_length_aborts:
  "parse_request fuel u huge_length_head = Aborts"
proof -
  let ?hs = "[(''X'', [CHR 0xFF]), (''Content-Length'', ''18446744073709551615'')]"
  have n: "\<not> name_eq (''X'', v) ''content-length''" "\<not> name_eq (''X'', v) ''transfer-encoding''" for v
    by (simp_all add: name_eq_def to_lowercase_def char_lower_def ascii_upperp_def)
  have "trim ''18446744073709551615'' = ''18446744073709551615''"
    by (rule trim_id) (simp_all add: is_whitespace_def)
  then have cl: "header_usize ?hs = Some 18446744073709551615"
    by (simp add: header_usize_def find_header_def n name_eq_simps from_utf8_ascii parse_uint_def ascii_digitp_def)
  have ch: "\<not> chunked_header u ?hs" by (simp add: chunked_header_def n name_eq_simps)
  have ok: "list_all header_ok ?hs" by (simp add: header_ok_def ascii_space_def)
  have len: "length (message_head ''POST / HTTP/1.1'' ?hs) = 63"
    by (simp add: message_head_def header_line_def crlf_def)
  show ?thesis
    using parse_request_head [of "''POST''" "''/''" ?hs fuel u "[]"] ok ch cl
    by (simp add: huge_length_head_def len)
qed

subsection \<open>Well-formed chunked bodies\<close>

text \<open>A chunk as a peer writes it: size line, data, line end.\<close>

definition hex_size :: "str \<Rightarrow> nat \<Rightarrow> bool" where
  "hex_size s n = (s \<noteq> [] \<and> is_ascii s \<and> CR \<notin> set s \<and> CHR '';'' \<notin> set s \<and> trim s = s \<and> parse_hex s = Some n)"

fun chunks :: "(str \<times> str) list \<Rightarrow> str" where
  "chunks [] = []"
| "chunks ((sz, data) # cs) = sz @ crlf @ data @ crlf @ chunks cs"

definition chunk_ok :: "str \<times> str \<Rightarrow> bool" where
  "chunk_ok c = (hex_size (fst c) (length (snd c)) \<and> snd c \<noteq> [])"

definition body_length :: "(str \<times> str) list \<Rightarrow> nat" where
  "body_length cs = sum_list (map (\<lambda>c. length (snd c)) cs)"

lemma chunk_size_at_line:
  assumes "hex_size sz n"
  shows "chunk_size_at (before @ sz @ crlf @ rest) (length before) = Some (length sz, word_of_nat n)"
proof -
  have "find_crlf (drop (length before) (before @ sz @ crlf @ rest)) = Some (length sz)"
    using assms find_crlf_line [of sz rest] by (simp add: hex_size_def)
  moreover have "take (length sz) (drop (length before) (before @ sz @ crlf @ rest)) = sz" by simp
  ultimately show ?thesis
    using assms by (simp add: chunk_size_at_def hex_size_def from_utf8_ascii split_on_no_sep)
qed

lemma decode_chunked_step:
  assumes "chunk_size_at buf (unat pos) = Some (line_end, n)" and "n \<noteq> 0" and "unat pos \<le> length buf"
    and "pos + word_of_nat (line_end + 2) + n + 2 = pos'" and "\<not> word_of_nat (length buf) < pos'"
  shows "decode_chunked (Suc fuel) buf pos d = decode_chunked fuel buf pos' (d + n)"
  using assms by (auto simp: Let_def)

lemma decode_chunks:
  assumes "list_all chunk_ok cs" and "hex_size zero 0"
    and "length (before @ chunks cs @ zero @ crlf @ crlf @ tail) < 2 ^ 63"
  shows "decode_chunked (Suc (length cs)) (before @ chunks cs @ zero @ crlf @ crlf @ tail) (word_of_nat (length before)) d =
     Some (Decoded (word_of_nat (length (before @ chunks cs @ zero @ crlf @ crlf))) (d + word_of_nat (body_length cs)))"
  using assms
proof (induction cs arbitrary: before d)
  case Nil
  let ?buf = "before @ zero @ crlf @ crlf @ tail"
  have u: "unat (word_of_nat (length before) :: 64 word) = length before"
    "unat (word_of_nat (length before + (length zero + 2)) :: 64 word) = length before + (length zero + 2)"
    using Nil by (intro unat_small; simp add: crlf_def)+
  have drop_eq: "drop (length before + (length zero + 2)) ?buf = crlf @ tail"
    by (simp add: crlf_def)
  have "find_crlf (crlf @ tail) = Some 0" using find_crlf_line [of "[]" tail] by simp
  then show ?case
    using chunk_size_at_line [OF Nil.prems(2), of before "crlf @ tail"] u drop_eq
    by (simp add: body_length_def crlf_def ac_simps)
next
  case (Cons c cs)
  obtain sz data where c: "c = (sz, data)" by fastforce
  let ?rest = "chunks cs @ zero @ crlf @ crlf @ tail"
  let ?b' = "before @ sz @ crlf @ data @ crlf"
  have buf: "before @ chunks (c # cs) @ zero @ crlf @ crlf @ tail = before @ sz @ crlf @ data @ crlf @ ?rest"
    by (simp add: c)
  have ok: "hex_size sz (length data)" "data \<noteq> []" using Cons.prems(1) c by (simp_all add: chunk_ok_def)
  have small: "length before + length sz + 2 + length data + 2 + length ?rest < 2 ^ 63"
    using Cons.prems(3) by (simp add: c crlf_def)
  have u: "unat (word_of_nat (length before) :: 64 word) = length before"
    "unat (word_of_nat (length ?b') :: 64 word) = length ?b'"
    "unat (word_of_nat (length (?b' @ ?rest)) :: 64 word) = length (?b' @ ?rest)"
    using small by (intro unat_small; simp add: crlf_def)+
  have pos: "word_of_nat (length before) + word_of_nat (length sz + 2) + word_of_nat (length data) + 2
      = (word_of_nat (length ?b') :: 64 word)"
    by (simp add: crlf_def)
  have nz: "(word_of_nat (length data) :: 64 word) \<noteq> 0"
  proof
    assume "(word_of_nat (length data) :: 64 word) = 0"
    moreover have "unat (word_of_nat (length data) :: 64 word) = length data" using small by (intro unat_small) simp
    ultimately show False using ok(2) by simp
  qed
  have fits: "\<not> (word_of_nat (length (?b' @ ?rest)) :: 64 word) < word_of_nat (length ?b')"
    unfolding word_less_nat_alt u by simp
  have "decode_chunked (Suc (length (c # cs))) (before @ sz @ crlf @ data @ crlf @ ?rest) (word_of_nat (length before)) d
      = decode_chunked (Suc (length cs)) (?b' @ ?rest) (word_of_nat (length ?b')) (d + word_of_nat (length data))"
  proof -
    have b: "before @ sz @ crlf @ data @ crlf @ ?rest = ?b' @ ?rest" by simp
    have "chunk_size_at (?b' @ ?rest) (unat (word_of_nat (length before) :: 64 word)) = Some (length sz, word_of_nat (length data))"
      using chunk_size_at_line [OF ok(1), of before "data @ crlf @ ?rest"] u(1) by simp
    from decode_chunked_step [OF this nz _ pos fits] show ?thesis unfolding b u(1) by simp
  qed
  then show ?case
    unfolding buf using Cons.IH [of ?b' "d + word_of_nat (length data)"] Cons.prems
    by (simp add: c body_length_def ac_simps)
qed

text \<open>
  C12: on a well-formed chunked body of less than 2^63 bytes the decoder returns after
  one round per chunk; it consumes the chunks, the terminal chunk and its empty
  trailer and nothing else, and the decoded length is the sum of the chunk sizes.
\<close>

theorem chunked_body_decoded:
  assumes "list_all chunk_ok cs" and "hex_size zero 0"
    and "length (chunks cs @ zero @ crlf @ crlf @ tail) < 2 ^ 63"
  shows "decode_chunked (Suc (length cs)) (chunks cs @ zero @ crlf @ crlf @ tail) 0 0 =
     Some (Decoded (word_of_nat (length (chunks cs @ zero @ crlf @ crlf))) (word_of_nat (body_length cs)))"
  using decode_chunks [of cs zero "[]" tail 0] assms by simp

theorem chunked_body_decoded_witness:
  "decode_chunked (Suc (length [(''2'', ''hi'')])) (chunks [(''2'', ''hi'')] @ ''0'' @ crlf @ crlf @ ''x'') 0 0 =
     Some (Decoded (word_of_nat (length (chunks [(''2'', ''hi'')] @ ''0'' @ crlf @ crlf))) (word_of_nat (body_length [(''2'', ''hi'')])))"
proof (rule chunked_body_decoded)
  have t: "trim ''2'' = ''2''" "trim ''0'' = ''0''"
    by (rule trim_id; simp add: is_whitespace_def)+
  show "list_all chunk_ok [(''2'', ''hi'')]" "hex_size ''0'' 0"
    by (simp_all add: chunk_ok_def hex_size_def t parse_hex_def hex_value_def)
qed (simp_all add: crlf_def)

end
