(* ===== verification/Sse.thy ===== *)
theory Sse
  imports Detector Json
begin

text \<open>
  Streaming responses (\<open>ai/sse.rs\<close>): the event parser and encoder, delta extraction
  and the sliding-window redaction buffer. JSON parsing and printing are parameters.
\<close>

subsection \<open>Events\<close>

record sse_event =
  ev_event :: "str option"
  ev_data :: str
  ev_id :: "str option"
  ev_retry :: "nat option"

definition is_done :: "sse_event \<Rightarrow> bool" where
  "is_done ev = (trim (ev_data ev) = ''[DONE]'')"

text \<open>\<open>str::lines\<close>: no line after a final line feed; a carriage return before a line feed is dropped.\<close>

fun str_lines :: "str list \<Rightarrow> str list" where
  "str_lines [] = []"
| "str_lines [l] = (if l = [] then [] else [l])"
| "str_lines (l # m # ls) = (if ends_with l [CHR 0x0D] then butlast l else l) # str_lines (m # ls)"

definition field_out :: "str \<Rightarrow> str \<Rightarrow> str" where
  "field_out name value = name @ '': '' @ value @ [CHR 0x0A]"

definition encode :: "sse_event \<Rightarrow> str" where
  "encode ev =
     (case ev_id ev of Some i \<Rightarrow> field_out ''id'' i | None \<Rightarrow> [])
     @ (case ev_event ev of Some e \<Rightarrow> field_out ''event'' e | None \<Rightarrow> [])
     @ concat (map (field_out ''data'') (str_lines (split_on (CHR 0x0A) (ev_data ev))))
     @ (if ev_data ev = [] then field_out ''data'' [] else [])
     @ [CHR 0x0A]"

record event_builder =
  b_data :: str
  b_event :: "str option"
  b_id :: "str option"
  b_retry :: "nat option"
  has_data :: bool

definition default_builder :: event_builder where
  "default_builder = \<lparr>b_data = [], b_event = None, b_id = None, b_retry = None, has_data = False\<rparr>"

definition build_event :: "event_builder \<Rightarrow> sse_event" where
  "build_event b = \<lparr>ev_event = b_event b, ev_data = b_data b, ev_id = b_id b, ev_retry = b_retry b\<rparr>"

definition find_newline :: "str \<Rightarrow> (nat \<times> nat) option" where
  "find_newline buf =
     (case position (\<lambda>c. c = CHR 0x0A) buf of
        None \<Rightarrow> None
      | Some i \<Rightarrow> Some (if 0 < i \<and> buf ! (i - 1) = CHR 0x0D then i - 1 else i, i + 1))"

definition field_line :: "event_builder \<Rightarrow> str \<Rightarrow> event_builder" where
  "field_line b line =
     (case position (\<lambda>c. c = CHR '':'') line of
        Some colon \<Rightarrow>
          (let field = take colon line; value = dropWhile (\<lambda>c. c = CHR '' '') (drop (colon + 1) line)
           in if field = ''data'' then b\<lparr>b_data := b_data b @ value, has_data := True\<rparr>
              else if field = ''event'' then b\<lparr>b_event := Some value\<rparr>
              else if field = ''id'' then b\<lparr>b_id := Some value\<rparr>
              else if field = ''retry'' then b\<lparr>b_retry := parse_uint 64 value\<rparr>
              else b)
      | None \<Rightarrow> if line = ''data'' then b\<lparr>has_data := True\<rparr> else b)"

function parse_loop ::
  "str \<Rightarrow> nat \<Rightarrow> event_builder \<Rightarrow> sse_event list \<Rightarrow> nat \<Rightarrow> sse_event list \<times> nat" where
  "parse_loop rest pos cur events consumed =
     (case find_newline rest of
        None \<Rightarrow> (events, consumed)
      | Some (line_end, next_start) \<Rightarrow>
          (let line = take line_end rest; pos' = pos + next_start
           in if line = []
              then if has_data cur
                   then parse_loop (drop next_start rest) pos' default_builder (events @ [build_event cur]) pos'
                   else parse_loop (drop next_start rest) pos' cur events pos'
              else parse_loop (drop next_start rest) pos' (field_line cur line) events consumed))"
  by auto
termination
proof (relation "measure (\<lambda>(rest, _). length rest)")
  fix rest :: str and pos and cur and events and consumed and x and le ns and line and pos'
  assume "find_newline rest = Some x" "(le, ns) = x"
  then have "ns > 0 \<and> ns \<le> length rest"
    by (auto simp: find_newline_def split: option.splits dest!: position_SomeD)
  then show "((drop ns rest, pos', default_builder, events @ [build_event cur], pos'), rest, pos, cur, events, consumed)
      \<in> measure (\<lambda>(rest, _). length rest)"
    "((drop ns rest, pos', cur, events, pos'), rest, pos, cur, events, consumed) \<in> measure (\<lambda>(rest, _). length rest)"
    "((drop ns rest, pos', field_line cur line, events, consumed), rest, pos, cur, events, consumed)
      \<in> measure (\<lambda>(rest, _). length rest)"
    by auto
qed simp

declare parse_loop.simps [simp del]

definition parse_events :: "str \<Rightarrow> sse_event list \<times> nat" where
  "parse_events buf =
     (case from_utf8 buf of
        None \<Rightarrow> ([], 0)
      | Some txt \<Rightarrow> parse_loop txt 0 default_builder [] 0)"

subsection \<open>Deltas\<close>

definition jindex :: "json \<Rightarrow> str \<Rightarrow> json" where
  "jindex v k = (case jget v k of Some w \<Rightarrow> w | None \<Rightarrow> JNull)"

fun jfirst :: "json \<Rightarrow> json" where
  "jfirst (JArr (x # _)) = x"
| "jfirst _ = JNull"

definition openai_chunk_text :: "(str \<Rightarrow> json option) \<Rightarrow> sse_event \<Rightarrow> str option" where
  "openai_chunk_text parse ev =
     (if is_done ev then None
      else Option.bind (parse (ev_data ev)) (\<lambda>v.
             as_str (jindex (jindex (jfirst (jindex v ''choices'')) ''delta'') ''content'')))"

definition anthropic_chunk_text :: "(str \<Rightarrow> json option) \<Rightarrow> sse_event \<Rightarrow> str option" where
  "anthropic_chunk_text parse ev =
     (if is_done ev then None
      else Option.bind (parse (ev_data ev)) (\<lambda>v.
             Option.bind (as_str (jindex v ''type'')) (\<lambda>t.
               if t = ''content_block_delta'' then as_str (jindex (jindex v ''delta'') ''text'') else None)))"

datatype upstream_kind = KOpenAI | KAnthropic

fun chunk_text :: "(str \<Rightarrow> json option) \<Rightarrow> upstream_kind \<Rightarrow> sse_event \<Rightarrow> str" where
  "chunk_text parse KOpenAI ev = (case openai_chunk_text parse ev of Some s \<Rightarrow> s | None \<Rightarrow> [])"
| "chunk_text parse KAnthropic ev = (case anthropic_chunk_text parse ev of Some s \<Rightarrow> s | None \<Rightarrow> [])"

text \<open>Assignment through \<open>IndexMut\<close> on paths that exist.\<close>

fun jset :: "json \<Rightarrow> str \<Rightarrow> json \<Rightarrow> json" where
  "jset (JObj ms) k v = JObj (AList.update k v ms)"
| "jset w k v = w"

fun jset_first :: "json \<Rightarrow> json \<Rightarrow> json" where
  "jset_first (JArr (x # xs)) v = JArr (v # xs)"
| "jset_first w v = w"

definition set_openai_delta :: "json \<Rightarrow> str \<Rightarrow> json" where
  "set_openai_delta v s =
     (let choices = jindex v ''choices''; c0 = jfirst choices; delta = jindex c0 ''delta''
      in jset v ''choices'' (jset_first choices (jset c0 ''delta'' (jset delta ''content'' (JStr s)))))"

definition set_anthropic_delta :: "json \<Rightarrow> str \<Rightarrow> json" where
  "set_anthropic_delta v s = jset v ''delta'' (jset (jindex v ''delta'') ''text'' (JStr s))"

definition is_string :: "json \<Rightarrow> bool" where
  "is_string v = (as_str v \<noteq> None)"

definition patch_event_delta ::
  "(str \<Rightarrow> json option) \<Rightarrow> (json \<Rightarrow> str option) \<Rightarrow> sse_event \<Rightarrow> str \<Rightarrow> str \<Rightarrow> sse_event" where
  "patch_event_delta parse print ev old_delta new_delta =
     (if old_delta = new_delta then ev
      else case parse (ev_data ev) of
        None \<Rightarrow> ev
      | Some v \<Rightarrow>
          (let v1 = (if is_string (jindex (jindex (jfirst (jindex v ''choices'')) ''delta'') ''content'')
                     then set_openai_delta v new_delta else v)
           in case (if is_string (jindex (jindex (jfirst (jindex v ''choices'')) ''delta'') ''content'') then print v1 else None) of
                Some new_data \<Rightarrow> ev\<lparr>ev_data := new_data\<rparr>
              | None \<Rightarrow>
                  (if is_string (jindex (jindex v1 ''delta'') ''text'')
                   then (case print (set_anthropic_delta v1 new_delta) of
                           Some new_data \<Rightarrow> ev\<lparr>ev_data := new_data\<rparr>
                         | None \<Rightarrow> ev)
                   else ev)))"

subsection \<open>The redaction buffer\<close>

definition STREAM_LOOKAHEAD :: nat where "STREAM_LOOKAHEAD = 200"

record redact_buffer =
  rb_text :: str
  pending :: "(sse_event \<times> str \<times> nat) list"
  forwarded_text_end :: nat

definition new_buffer :: redact_buffer where
  "new_buffer = \<lparr>rb_text = [], pending = [], forwarded_text_end = 0\<rparr>"

definition drain_safe_window :: "redact_buffer \<Rightarrow> redact_buffer \<times> sse_event list" where
  "drain_safe_window b =
     (let safe_up_to = length (rb_text b) - STREAM_LOOKAHEAD;
          drained = takeWhile (\<lambda>(_, _, end_off). end_off \<le> safe_up_to) (pending b)
      in if drained = [] then (b, [])
         else (b\<lparr>pending := drop (length drained) (pending b), forwarded_text_end := snd (snd (List.last drained))\<rparr>,
               map fst drained))"

definition push :: "(str \<Rightarrow> json option) \<Rightarrow> upstream_kind \<Rightarrow> redact_buffer \<Rightarrow> sse_event \<Rightarrow> redact_buffer \<times> sse_event list" where
  "push parse k b ev =
     (let delta = chunk_text parse k ev;
          text_end = length (rb_text b) + length delta
      in drain_safe_window (b\<lparr>rb_text := rb_text b @ delta, pending := pending b @ [(ev, delta, text_end)]\<rparr>))"

text \<open>
  \<open>rebuild_events_redacted\<close>: the position where the texts diverge, and for every
  buffered delta its replacement.
\<close>

fun diverge :: "(nat \<times> nat) list \<Rightarrow> (nat \<times> nat) list \<Rightarrow> nat option" where
  "diverge ((i, a) # xs) ((j, b) # ys) = (if a \<noteq> b then Some i else diverge xs ys)"
| "diverge _ _ = None"

definition diff_at :: "str \<Rightarrow> str \<Rightarrow> nat" where
  "diff_at original redacted =
     (case diverge (char_indices original) (char_indices redacted) of
        Some i \<Rightarrow> i
      | None \<Rightarrow> min (length original) (length redacted))"

fun new_deltas :: "nat \<Rightarrow> str \<Rightarrow> nat \<Rightarrow> bool \<Rightarrow> str list \<Rightarrow> str list" where
  "new_deltas d redacted cursor emitted [] = []"
| "new_deltas d redacted cursor emitted (delta # ds) =
     (let delta_end = cursor + length delta in
      if delta_end \<le> d then delta # new_deltas d redacted delta_end emitted ds
      else if d \<le> cursor \<and> \<not> emitted then drop d redacted # new_deltas d redacted delta_end True ds
      else if d \<le> cursor then [] # new_deltas d redacted delta_end emitted ds
      else (take (d - cursor) delta @ (if emitted then [] else drop d redacted))
             # new_deltas d redacted delta_end True ds)"

definition rebuild_events_redacted ::
  "(str \<Rightarrow> json option) \<Rightarrow> (json \<Rightarrow> str option) \<Rightarrow> (sse_event \<times> str \<times> nat) list \<Rightarrow> str \<Rightarrow> str \<Rightarrow> sse_event list" where
  "rebuild_events_redacted parse print pend original redacted =
     (if original = redacted then map fst pend
      else map (\<lambda>((ev, delta, _), nd). patch_event_delta parse print ev delta nd)
             (zip pend (new_deltas (diff_at original redacted) redacted 0 False (map (fst \<circ> snd) pend))))"

definition blocked_marker :: sse_event where
  "blocked_marker = \<lparr>ev_event = None, ev_data = ''[TSM_BLOCKED: content removed by security policy]'', ev_id = None, ev_retry = None\<rparr>"

text \<open>\<open>flush_done\<close>; the scan is that of \<open>Detector\<close>, whose panic is \<open>None\<close>.\<close>

definition flush_done ::
  "(str \<Rightarrow> json option) \<Rightarrow> (json \<Rightarrow> str option) \<Rightarrow> (str \<Rightarrow> detect_verdict option) \<Rightarrow> redact_buffer
   \<Rightarrow> (redact_buffer \<times> sse_event list) option" where
  "flush_done parse print scan_tail b =
     (if pending b = [] then Some (b, [])
      else let tail = drop (forwarded_text_end b) (rb_text b); b' = b\<lparr>pending := []\<rparr>
           in if tail = [] then Some (b', map fst (pending b))
              else case scan_tail tail of
                     None \<Rightarrow> None
                   | Some (VRedact _ _ redacted) \<Rightarrow> Some (b', rebuild_events_redacted parse print (pending b) tail redacted)
                   | Some (VBlock _ _ _ _) \<Rightarrow> Some (b', [blocked_marker])
                   | Some _ \<Rightarrow> Some (b', map fst (pending b)))"

definition make_event :: "str \<Rightarrow> str" where
  "make_event data = encode \<lparr>ev_event = None, ev_data = data, ev_id = None, ev_retry = None\<rparr>"

definition done_event :: str where
  "done_event = make_event ''[DONE]''"

subsection \<open>Encoding and parsing back\<close>

abbreviation NL :: char where "NL \<equiv> CHR 0x0A"

definition value_ok :: "str \<Rightarrow> bool" where
  "value_ok v = (NL \<notin> set v \<and> (v \<noteq> [] \<longrightarrow> hd v \<noteq> CHR '' '' \<and> List.last v \<noteq> CHR 0x0D))"

definition event_ok :: "sse_event \<Rightarrow> bool" where
  "event_ok ev = (value_ok (ev_data ev) \<and> pred_option value_ok (ev_event ev) \<and> pred_option value_ok (ev_id ev))"

lemma find_newline_line:
  assumes "NL \<notin> set l" and "l = [] \<or> List.last l \<noteq> CHR 0x0D"
  shows "find_newline (l @ NL # rest) = Some (length l, Suc (length l))"
proof -
  have "position (\<lambda>c. c = NL) (l @ NL # rest) = Some (length l)"
    using assms(1) by (induction l) auto
  moreover have "(l @ NL # rest) ! (length l - 1) = List.last l" if "l \<noteq> []"
    using that by (simp add: nth_append last_conv_nth)
  ultimately show ?thesis using assms(2) by (auto simp: find_newline_def)
qed

lemma parse_loop_line:
  assumes "NL \<notin> set l" and "l \<noteq> []" and "List.last l \<noteq> CHR 0x0D"
  shows "parse_loop (l @ NL # rest) pos cur events consumed =
     parse_loop rest (pos + Suc (length l)) (field_line cur l) events consumed"
  using assms find_newline_line [of l rest] by (subst parse_loop.simps) simp

lemma parse_loop_blank:
  "has_data cur \<Longrightarrow> parse_loop (NL # rest) pos cur events consumed =
     parse_loop rest (Suc pos) default_builder (events @ [build_event cur]) (Suc pos)"
  using find_newline_line [of "[]" rest] by (subst parse_loop.simps) simp

lemma field_line_out:
  assumes "CHR '':'' \<notin> set name" and "value_ok v"
  shows "field_line b (name @ '': '' @ v) =
     (if name = ''data'' then b\<lparr>b_data := b_data b @ v, has_data := True\<rparr>
      else if name = ''event'' then b\<lparr>b_event := Some v\<rparr>
      else if name = ''id'' then b\<lparr>b_id := Some v\<rparr>
      else if name = ''retry'' then b\<lparr>b_retry := parse_uint 64 v\<rparr> else b)"
proof -
  have "position (\<lambda>c. c = CHR '':'') (name @ CHR '':'' # CHR '' '' # v) = Some (length name)"
    using assms(1) by (induction name) auto
  moreover have "dropWhile (\<lambda>c. c = CHR '' '') (CHR '' '' # v) = v"
    using assms(2) by (auto simp: value_ok_def intro!: dropWhile_id)
  ultimately show ?thesis by (simp add: field_line_def)
qed

lemma parse_field:
  assumes "CHR '':'' \<notin> set name" and "NL \<notin> set name" and "value_ok v"
  shows "parse_loop (field_out name v @ rest) pos cur events consumed =
     parse_loop rest (pos + length (field_out name v)) (field_line cur (name @ '': '' @ v)) events consumed"
proof -
  have "List.last (name @ '': '' @ v) \<noteq> CHR 0x0D" "NL \<notin> set (name @ '': '' @ v)"
    using assms by (auto simp: value_ok_def)
  from parse_loop_line [OF this(2) _ this(1), of rest] show ?thesis by (simp add: field_out_def)
qed

lemma encode_simple:
  assumes "value_ok (ev_data ev)"
  shows "encode ev = (case ev_id ev of Some i \<Rightarrow> field_out ''id'' i | None \<Rightarrow> [])
     @ (case ev_event ev of Some e \<Rightarrow> field_out ''event'' e | None \<Rightarrow> []) @ field_out ''data'' (ev_data ev) @ [NL]"
proof -
  have "split_on NL (ev_data ev) = [ev_data ev]"
    using assms by (intro split_on_no_sep) (simp add: value_ok_def)
  then show ?thesis by (simp add: encode_def)
qed

lemma parse_event:
  assumes "event_ok ev"
  shows "parse_loop (encode ev @ rest) pos default_builder events consumed =
     parse_loop rest (pos + length (encode ev)) default_builder (events @ [ev\<lparr>ev_retry := None\<rparr>]) (pos + length (encode ev))"
proof -
  from assms have v: "value_ok (ev_data ev)" "pred_option value_ok (ev_event ev)" "pred_option value_ok (ev_id ev)"
    by (simp_all add: event_ok_def)
  let ?I = "case ev_id ev of Some i \<Rightarrow> field_out ''id'' i | None \<Rightarrow> []"
  let ?E = "case ev_event ev of Some e \<Rightarrow> field_out ''event'' e | None \<Rightarrow> []"
  let ?D = "field_out ''data'' (ev_data ev)"
  let ?b1 = "default_builder\<lparr>b_id := ev_id ev\<rparr>" and ?b2 = "default_builder\<lparr>b_id := ev_id ev, b_event := ev_event ev\<rparr>"
  let ?b3 = "?b2\<lparr>b_data := ev_data ev, has_data := True\<rparr>"
  have 1: "parse_loop (?I @ r) p default_builder events c = parse_loop r (p + length ?I) ?b1 events c" for r p c
    using v(3) parse_field [of "''id''"]
    by (cases "ev_id ev") (simp_all add: field_line_out [of "''id''", simplified] default_builder_def)
  have 2: "parse_loop (?E @ r) p ?b1 events c = parse_loop r (p + length ?E) ?b2 events c" for r p c
    using v(2) parse_field [of "''event''"]
    by (cases "ev_event ev") (simp_all add: field_line_out [of "''event''", simplified] default_builder_def)
  have 3: "parse_loop (?D @ r) p ?b2 events c = parse_loop r (p + length ?D) ?b3 events c" for r p c
    using v(1) parse_field [of "''data''"]
    by (simp add: field_line_out [of "''data''", simplified] default_builder_def)
  have built: "build_event ?b3 = ev\<lparr>ev_retry := None\<rparr>"
    by (cases ev) (simp add: build_event_def default_builder_def)
  have "parse_loop (encode ev @ rest) pos default_builder events consumed =
      parse_loop (NL # rest) (pos + length ?I + length ?E + length ?D) ?b3 events consumed"
    unfolding encode_simple [OF v(1)] append_assoc 1 2 3 by simp
  also have "\<dots> = parse_loop rest (pos + length (encode ev)) default_builder (events @ [ev\<lparr>ev_retry := None\<rparr>]) (pos + length (encode ev))"
    by (subst parse_loop_blank) (simp_all add: built encode_simple [OF v(1)] add.assoc)
  finally show ?thesis .
qed

lemma parse_loop_events:
  assumes "list_all event_ok evs"
  shows "parse_loop (concat (map encode evs)) pos default_builder events pos =
     (events @ map (ev_retry_update (\<lambda>_. None)) evs, pos + length (concat (map encode evs)))"
  using assms
proof (induction evs arbitrary: pos events)
  case Nil
  then show ?case by (subst parse_loop.simps) (simp add: find_newline_def)
next
  case (Cons ev evs)
  then have "event_ok ev" "list_all event_ok evs" by simp_all
  from parse_event [OF this(1)] Cons.IH [OF this(2)] show ?case
    by (simp add: add.assoc)
qed

text \<open>
  C14: a stream of encoded events whose fields are single lines is parsed back event
  by event and consumed to the last byte. Only the \<open>retry\<close> field is lost, which the
  encoder does not write although the module promises to pass it through.
\<close>

theorem sse_stream_roundtrip:
  assumes "list_all event_ok evs" and "from_utf8 (concat (map encode evs)) = Some (concat (map encode evs))"
  shows "parse_events (concat (map encode evs)) =
     (map (ev_retry_update (\<lambda>_. None)) evs, length (concat (map encode evs)))"
  using parse_loop_events [OF assms(1), of 0 "[]"] assms(2) by (simp add: parse_events_def)

theorem sse_stream_roundtrip_witness:
  "parse_events (concat (map encode [\<lparr>ev_event = Some ''m'', ev_data = ''a: b'', ev_id = None, ev_retry = Some 5\<rparr>])) =
     (map (ev_retry_update (\<lambda>_. None)) [\<lparr>ev_event = Some ''m'', ev_data = ''a: b'', ev_id = None, ev_retry = Some 5\<rparr>],
      length (concat (map encode [\<lparr>ev_event = Some ''m'', ev_data = ''a: b'', ev_id = None, ev_retry = Some 5\<rparr>])))"
proof (rule sse_stream_roundtrip)
  show "list_all event_ok [\<lparr>ev_event = Some ''m'', ev_data = ''a: b'', ev_id = None, ev_retry = Some 5\<rparr>]"
    by (simp add: event_ok_def value_ok_def)
  show "from_utf8 (concat (map encode [\<lparr>ev_event = Some ''m'', ev_data = ''a: b'', ev_id = None, ev_retry = Some 5\<rparr>]))
    = Some (concat (map encode [\<lparr>ev_event = Some ''m'', ev_data = ''a: b'', ev_id = None, ev_retry = Some 5\<rparr>]))"
    by (intro from_utf8_ascii) (simp add: encode_def field_out_def)
qed

subsection \<open>What the buffer forwards\<close>

fun push_all :: "(str \<Rightarrow> json option) \<Rightarrow> upstream_kind \<Rightarrow> redact_buffer \<Rightarrow> sse_event list \<Rightarrow> redact_buffer \<times> sse_event list" where
  "push_all parse k b [] = (b, [])"
| "push_all parse k b (ev # evs) =
     (let (b1, out1) = push parse k b ev; (b2, out2) = push_all parse k b1 evs in (b2, out1 @ out2))"

text \<open>The deltas of a list of events and the offsets at which they end.\<close>

definition stream_text :: "(str \<Rightarrow> json option) \<Rightarrow> upstream_kind \<Rightarrow> sse_event list \<Rightarrow> str" where
  "stream_text parse k evs = concat (map (chunk_text parse k) evs)"

fun entries :: "(str \<Rightarrow> json option) \<Rightarrow> upstream_kind \<Rightarrow> nat \<Rightarrow> sse_event list \<Rightarrow> (sse_event \<times> str \<times> nat) list" where
  "entries parse k off [] = []"
| "entries parse k off (ev # evs) =
     (let d = chunk_text parse k ev in (ev, d, off + length d) # entries parse k (off + length d) evs)"

lemma entries_append:
  "entries parse k off (xs @ ys) = entries parse k off xs @ entries parse k (off + length (stream_text parse k xs)) ys"
  by (induction xs arbitrary: off) (auto simp: stream_text_def Let_def add.assoc)

lemma map_fst_entries [simp]: "map fst (entries parse k off evs) = evs"
  by (induction evs arbitrary: off) (auto simp: Let_def)

lemma entries_Nil_iff [simp]: "entries parse k off evs = [] \<longleftrightarrow> evs = []"
  by (cases evs) (auto simp: Let_def)

lemma stream_text_single [simp]: "stream_text parse k [ev] = chunk_text parse k ev"
  by (simp add: stream_text_def)

lemma entries_bounds: "(ev, d, e) \<in> set (entries parse k off evs) \<Longrightarrow> off \<le> e \<and> e \<le> off + length (stream_text parse k evs)"
  by (induction evs arbitrary: off) (fastforce simp: stream_text_def Let_def)+

definition safe :: "nat \<Rightarrow> sse_event \<times> str \<times> nat \<Rightarrow> bool" where
  "safe tot x = (snd (snd x) \<le> tot - STREAM_LOOKAHEAD)"

lemma safe_eq: "(\<lambda>(_, _, end_off). end_off \<le> n - STREAM_LOOKAHEAD) = safe n"
  by (auto simp: safe_def fun_eq_iff)

lemma drain_safe_window_eq:
  "drain_safe_window b =
     (b\<lparr>pending := dropWhile (safe (length (rb_text b))) (pending b),
        forwarded_text_end := (if takeWhile (safe (length (rb_text b))) (pending b) = [] then forwarded_text_end b
          else snd (snd (List.last (takeWhile (safe (length (rb_text b))) (pending b)))))\<rparr>,
      map fst (takeWhile (safe (length (rb_text b))) (pending b)))"
  unfolding drain_safe_window_def Let_def safe_eq
  by (cases b) (simp add: dropWhile_eq_drop)

text \<open>
  The state after pushing a list of events: the events whose text ends before the
  window are out, the rest is pending.
\<close>

definition buffer_after :: "(str \<Rightarrow> json option) \<Rightarrow> upstream_kind \<Rightarrow> sse_event list \<Rightarrow> redact_buffer \<Rightarrow> bool" where
  "buffer_after parse k evs b =
     (let es = entries parse k 0 evs; tot = length (stream_text parse k evs)
      in rb_text b = stream_text parse k evs \<and> pending b = dropWhile (safe tot) es
       \<and> forwarded_text_end b = length (stream_text parse k (map fst (takeWhile (safe tot) es))))"

lemma takeWhile_weaken:
  assumes "\<And>x. P x \<Longrightarrow> Q x"
  shows "takeWhile Q xs = takeWhile P xs @ takeWhile Q (dropWhile P xs)"
    and "dropWhile Q xs = dropWhile Q (dropWhile P xs)"
  using assms by (induction xs) auto

lemma last_entry_end:
  "evs \<noteq> [] \<Longrightarrow> snd (snd (List.last (entries parse k off evs))) = off + length (stream_text parse k evs)"
proof (induction evs arbitrary: off)
  case (Cons ev evs)
  then show ?case by (cases "evs = []") (auto simp: stream_text_def Let_def)
qed simp

lemma takeWhile_entries:
  "\<exists>n. takeWhile P (entries parse k off evs) = entries parse k off (take n evs)"
proof -
  let ?n = "length (takeWhile P (entries parse k off evs))"
  have "takeWhile P (entries parse k off evs) = take ?n (entries parse k off evs)"
    by (metis takeWhile_eq_take)
  also have "\<dots> = entries parse k off (take ?n evs)"
  proof -
    have "take n (entries parse k off evs) = entries parse k off (take n evs)" for n
      by (induction evs arbitrary: n off) (auto simp: Let_def take_Cons split: nat.splits)
    then show ?thesis .
  qed
  finally show ?thesis by blast
qed

lemma stream_text_append [simp]: "stream_text parse k (xs @ ys) = stream_text parse k xs @ stream_text parse k ys"
  by (simp add: stream_text_def)

lemma push_after:
  assumes "buffer_after parse k evs b" and "push parse k b ev = (b', out)"
  shows "buffer_after parse k (evs @ [ev]) b'
    \<and> takeWhile (safe (length (stream_text parse k (evs @ [ev])))) (entries parse k 0 (evs @ [ev]))
      = takeWhile (safe (length (stream_text parse k evs))) (entries parse k 0 evs)
        @ takeWhile (safe (length (stream_text parse k (evs @ [ev])))) (pending b @ [(ev, chunk_text parse k ev, length (rb_text b) + length (chunk_text parse k ev))])
    \<and> out = map fst (takeWhile (safe (length (stream_text parse k (evs @ [ev])))) (pending b @ [(ev, chunk_text parse k ev, length (rb_text b) + length (chunk_text parse k ev))]))"
proof -
  let ?T = "length (stream_text parse k evs)" and ?T' = "length (stream_text parse k (evs @ [ev]))"
  let ?e = "(ev, chunk_text parse k ev, length (rb_text b) + length (chunk_text parse k ev))"
  let ?es = "entries parse k 0 evs" and ?es' = "entries parse k 0 (evs @ [ev])"
  from assms(1) have b: "rb_text b = stream_text parse k evs" "pending b = dropWhile (safe ?T) ?es"
    "forwarded_text_end b = length (stream_text parse k (map fst (takeWhile (safe ?T) ?es)))"
    by (simp_all add: buffer_after_def Let_def)
  have T': "?T' = ?T + length (chunk_text parse k ev)" by (simp add: stream_text_def)
  have weak: "safe ?T x \<Longrightarrow> safe ?T' x" for x by (simp add: safe_def T')
  have es': "?es' = ?es @ [?e]" by (simp add: entries_append b(1) Let_def)
  have all: "takeWhile (safe ?T) ?es @ pending b = ?es" by (simp add: b(2))
  have tw: "takeWhile (safe ?T') ?es' = takeWhile (safe ?T) ?es @ takeWhile (safe ?T') (pending b @ [?e])"
  proof -
    have "\<forall>x\<in>set (takeWhile (safe ?T) ?es). safe ?T' x" using weak by (auto dest: set_takeWhileD)
    then show ?thesis unfolding es' by (subst all [symmetric]) (simp add: takeWhile_append2)
  qed
  have dw: "dropWhile (safe ?T') ?es' = dropWhile (safe ?T') (pending b @ [?e])"
  proof -
    have "\<forall>x\<in>set (takeWhile (safe ?T) ?es). safe ?T' x" using weak by (auto dest: set_takeWhileD)
    then show ?thesis unfolding es' by (subst all [symmetric]) (simp add: dropWhile_append2)
  qed
  let ?dr = "takeWhile (safe ?T') (pending b @ [?e])"
  have out: "out = map fst ?dr"
    and pend: "pending b' = dropWhile (safe ?T') (pending b @ [?e])"
    and rbt: "rb_text b' = stream_text parse k (evs @ [ev])"
    and fwd: "forwarded_text_end b' = (if ?dr = [] then forwarded_text_end b else snd (snd (List.last ?dr)))"
    using assms(2) unfolding push_def drain_safe_window_eq Let_def by (auto simp: b(1))
  obtain n where n: "takeWhile (safe ?T') ?es' = entries parse k 0 (take n (evs @ [ev]))"
    using takeWhile_entries by blast
  have "forwarded_text_end b' = length (stream_text parse k (map fst (takeWhile (safe ?T') ?es')))"
  proof (cases "?dr = []")
    case True
    with fwd b(3) show ?thesis unfolding tw by simp
  next
    case False
    then have ne: "takeWhile (safe ?T') ?es' \<noteq> []" unfolding tw by simp
    have "List.last ?dr = List.last (takeWhile (safe ?T') ?es')" using False unfolding tw by simp
    moreover have "take n (evs @ [ev]) \<noteq> []" using ne n by auto
    ultimately show ?thesis using fwd False n last_entry_end [of "take n (evs @ [ev])" parse k 0] by simp
  qed
  with rbt pend dw have "buffer_after parse k (evs @ [ev]) b'" by (simp add: buffer_after_def Let_def)
  with tw out show ?thesis by blast
qed

lemma push_all_after:
  assumes "buffer_after parse k evs b" and "push_all parse k b more_evs = (b', out)"
  shows "buffer_after parse k (evs @ more_evs) b'
    \<and> map fst (takeWhile (safe (length (stream_text parse k (evs @ more_evs)))) (entries parse k 0 (evs @ more_evs)))
      = map fst (takeWhile (safe (length (stream_text parse k evs))) (entries parse k 0 evs)) @ out"
  using assms
proof (induction more_evs arbitrary: evs b out)
  case (Cons ev more_evs)
  obtain b1 out1 where p: "push parse k b ev = (b1, out1)" by fastforce
  obtain out2 where q: "push_all parse k b1 more_evs = (b', out2)" "out = out1 @ out2"
    using Cons.prems(2) p by (auto split: prod.splits)
  from push_after [OF Cons.prems(1) p] Cons.IH [OF _ q(1), of "evs @ [ev]"] q(2) show ?case by auto
qed simp

text \<open>
  What the window lets through is never scanned. After any events have been pushed,
  exactly the leading events whose text ends at least 200 bytes before the end of
  the text have been forwarded unchanged; only the text behind them is left for the
  scan at the end of the stream.
\<close>

lemma stream_prefix_unscanned:
  assumes "push_all parse k new_buffer evs = (b, out)"
  shows "out = map fst (takeWhile (\<lambda>(_, _, e). e \<le> length (stream_text parse k evs) - 200) (entries parse k 0 evs))
       \<and> out @ map fst (pending b) = evs
       \<and> drop (forwarded_text_end b) (rb_text b) = stream_text parse k (map fst (pending b))"
proof -
  have "buffer_after parse k [] new_buffer"
    by (simp add: buffer_after_def new_buffer_def stream_text_def)
  from push_all_after [OF this assms]
  have after: "buffer_after parse k evs b"
    and o: "out = map fst (takeWhile (safe (length (stream_text parse k evs))) (entries parse k 0 evs))"
    by simp_all
  have safe_200: "safe t = (\<lambda>(_, _, e). e \<le> t - 200)" for t
    unfolding safe_eq [symmetric] STREAM_LOOKAHEAD_def by (rule refl)
  have split: "evs = out @ map fst (pending b)"
    using after o unfolding buffer_after_def Let_def by (metis map_append map_fst_entries takeWhile_dropWhile_id)
  have "rb_text b = stream_text parse k out @ stream_text parse k (map fst (pending b))"
    using after split unfolding buffer_after_def Let_def by (metis stream_text_append)
  moreover have "forwarded_text_end b = length (stream_text parse k out)"
    using after o by (simp add: buffer_after_def Let_def)
  ultimately have "drop (forwarded_text_end b) (rb_text b) = stream_text parse k (map fst (pending b))" by simp
  with o split [symmetric] show ?thesis unfolding safe_200 by blast
qed

definition toy_parse :: "str \<Rightarrow> json option" where
  "toy_parse s = Some (JObj [(''choices'', JArr [JObj [(''delta'', JObj [(''content'', JStr s)])]])])"

abbreviation toy_event :: "str \<Rightarrow> sse_event" where
  "toy_event s \<equiv> \<lparr>ev_event = None, ev_data = s, ev_id = None, ev_retry = None\<rparr>"

end
