(* ===== verification/Limiter.thy ===== *)
theory Limiter
  imports F64
begin

text \<open>
  The per-client token bucket of \<open>pipeline.rs\<close> (\<open>RateLimiter\<close>): a table of buckets
  by client address, refilled in \<open>f64\<close> arithmetic. The lock is held over the whole
  call, so a call is one step; the clock reading is an argument.
\<close>

type_synonym ip_addr = "nat list"

record rate_limiter =
  buckets :: "(ip_addr \<times> f64 \<times> instant) list"
  rate_per_s :: f64
  burst :: f64

text \<open>\<open>requests_per_minute\<close> is a \<open>u32\<close>.\<close>

definition new_limiter :: "nat \<Rightarrow> rate_limiter" where
  "new_limiter rpm = \<lparr>buckets = [], rate_per_s = fdiv (of_exact (real rpm)) (Fin 60), burst = of_exact (real rpm)\<rparr>"

text \<open>\<open>Duration::as_secs_f64\<close>.\<close>

definition as_secs_f64 :: "int \<Rightarrow> f64" where
  "as_secs_f64 d = fadd (of_exact (of_int (d div 10 ^ 9))) (fdiv (of_exact (of_int (d mod 10 ^ 9))) (Fin (10 ^ 9)))"

definition refill :: "rate_limiter \<Rightarrow> instant \<Rightarrow> f64 \<times> instant \<Rightarrow> f64" where
  "refill l now e =
     fmin (fadd (fst e) (fmul (as_secs_f64 (duration_since now (snd e))) (rate_per_s l))) (burst l)"

definition evict_limiter :: "rate_limiter \<Rightarrow> (ip_addr \<times> f64 \<times> instant) list" where
  "evict_limiter l =
     (if length (buckets l) > 100000 then filter (\<lambda>(_, t, _). flt t (burst l)) (buckets l) else buckets l)"

definition limiter_check :: "rate_limiter \<Rightarrow> instant \<Rightarrow> ip_addr \<Rightarrow> rate_limiter \<times> bool" where
  "limiter_check l now ip =
     (let bs = evict_limiter l;
          e = (case map_of bs ip of Some e \<Rightarrow> e | None \<Rightarrow> (burst l, now));
          t = refill l now e
      in if fge t (Fin 1)
         then (l\<lparr>buckets := AList.update ip (fsub t (Fin 1), now) bs\<rparr>, True)
         else (l\<lparr>buckets := AList.update ip (t, now) bs\<rparr>, False))"

subsection \<open>Bounds of the arithmetic\<close>

fun nonneg :: "f64 \<Rightarrow> bool" where
  "nonneg (Fin x) = (0 \<le> x)"
| "nonneg PInf = True"
| "nonneg _ = False"

lemma nonneg_of_exact: "0 \<le> x \<Longrightarrow> nonneg (of_exact x)"
  using rnd64_nonneg [of x] by (simp add: of_exact_def Let_def f64_max_def)

lemma nonneg_fadd: "nonneg x \<Longrightarrow> nonneg y \<Longrightarrow> nonneg (fadd x y)"
  by (cases x; cases y) (simp_all add: nonneg_of_exact)

lemma nonneg_fmul: "nonneg x \<Longrightarrow> 0 < r \<Longrightarrow> nonneg (fmul x (Fin r))"
  by (cases x) (simp_all add: nonneg_of_exact inf_of_sign_def)

lemma nonneg_fdiv: "nonneg x \<Longrightarrow> 0 < r \<Longrightarrow> nonneg (fdiv x (Fin r))"
  by (cases x) (simp_all add: nonneg_of_exact inf_of_sign_def)

lemma nonneg_secs: "0 \<le> d \<Longrightarrow> nonneg (as_secs_f64 d)"
  unfolding as_secs_f64_def
  by (intro nonneg_fadd nonneg_fdiv nonneg_of_exact) (simp_all add: pos_imp_zdiv_nonneg_iff)

lemma fmin_nonneg: "nonneg x \<Longrightarrow> 0 \<le> b \<Longrightarrow> \<exists>y. fmin x (Fin b) = Fin y \<and> 0 \<le> y \<and> y \<le> b"
  by (cases x) (auto simp: fmin_def)

subsection \<open>The table\<close>

text \<open>
  A limiter for \<open>rpm\<close> requests per minute whose stored buckets all hold at least
  zero tokens and at most one less than the burst, or less than one.
\<close>

definition bucket_ok :: "nat \<Rightarrow> f64 \<Rightarrow> bool" where
  "bucket_ok rpm t = (\<exists>x. t = Fin x \<and> 0 \<le> x \<and> x < real rpm)"

definition limiter_ok :: "nat \<Rightarrow> rate_limiter \<Rightarrow> bool" where
  "limiter_ok rpm l = (burst l = Fin (real rpm) \<and> (\<exists>r>0. rate_per_s l = Fin r)
     \<and> (\<forall>(ip, t, _)\<in>set (buckets l). bucket_ok rpm t))"

lemma of_exact_rpm: "rpm < 2 ^ 32 \<Longrightarrow> of_exact (real rpm) = Fin (real rpm)"
  using of_exact_int [of "int rpm"] by simp

lemma new_limiter_ok:
  assumes "0 < rpm" and "rpm < 2 ^ 32"
  shows "limiter_ok rpm (new_limiter rpm)"
proof -
  have b: "real rpm / 60 \<le> of_int (2 ^ 32)" "1 / 60 \<le> real rpm / 60" using assms by simp_all
  have e: "of_exact (real rpm / 60) = Fin (rnd64 (real rpm / 60))"
    using b by (intro of_exact_Fin [of _ "2 ^ 32"]) auto
  have "(2::real) ^ 10 \<le> 2 ^ 1000" by (rule power_increasing) simp_all
  then have "1 / (2::real) ^ 1000 \<le> 1 / 1024" by (simp add: field_simps)
  then have "0 < rnd64 (real rpm / 60)"
    using rnd64_error [of "real rpm / 60"] b by (simp add: abs_if split: if_splits)
  with e show ?thesis using assms by (simp add: limiter_ok_def new_limiter_def of_exact_rpm)
qed

lemma refill_bounds:
  assumes "limiter_ok rpm l" and "nonneg (fst e)"
  shows "\<exists>y. refill l now e = Fin y \<and> 0 \<le> y \<and> y \<le> real rpm"
proof -
  obtain r where "0 < r" "rate_per_s l = Fin r" "burst l = Fin (real rpm)"
    using assms(1) by (auto simp: limiter_ok_def)
  then show ?thesis
    unfolding refill_def using assms(2)
    by (auto intro!: fmin_nonneg nonneg_fadd nonneg_fmul nonneg_secs simp: duration_since_def)
qed

lemma consume_bounds:
  assumes "1 \<le> y" and "y \<le> real k" and "k < 2 ^ 32"
  shows "\<exists>x. fsub (Fin y) (Fin 1) = Fin x \<and> 0 \<le> x \<and> x \<le> real k - 1"
proof -
  have "\<bar>y - 1\<bar> \<le> of_int (int k - 1)" using assms by simp
  from of_exact_Fin [OF this] rnd64_nonneg [of "y - 1"] assms show ?thesis
    by (auto simp: fsub_def)
qed

lemma evict_id: "limiter_ok rpm l \<Longrightarrow> evict_limiter l = buckets l"
  unfolding evict_limiter_def limiter_ok_def
  by (auto simp: bucket_ok_def intro!: filter_True)

lemma limiter_check_ok:
  assumes "limiter_ok rpm l" and "0 < rpm" and "rpm < 2 ^ 32"
  shows "limiter_ok rpm (fst (limiter_check l now ip))"
    and "dom (map_of (buckets (fst (limiter_check l now ip)))) = insert ip (dom (map_of (buckets l)))"
proof -
  let ?e = "case map_of (buckets l) ip of Some e \<Rightarrow> e | None \<Rightarrow> (burst l, now)"
  have "nonneg (fst ?e)"
    using assms(1) by (fastforce simp: limiter_ok_def bucket_ok_def dest: map_of_SomeD split: option.split)
  from refill_bounds [OF assms(1) this] obtain y where y: "refill l now ?e = Fin y" "0 \<le> y" "y \<le> real rpm"
    by blast
  have new: "bucket_ok rpm t'" if "t' = (if 1 \<le> y then fsub (Fin y) (Fin 1) else Fin y)" for t'
    using that consume_bounds [of y rpm] y assms(2,3) by (auto simp: bucket_ok_def)
  have upd: "set (AList.update ip (t', now) bs) \<subseteq> insert (ip, t', now) (set bs)" for t' and bs :: "(ip_addr \<times> f64 \<times> instant) list"
    by (induction bs) auto
  show "limiter_ok rpm (fst (limiter_check l now ip))"
    unfolding limiter_check_def evict_id [OF assms(1)] Let_def y(1)
    using assms(1) new upd by (fastforce simp: limiter_ok_def)
  show "dom (map_of (buckets (fst (limiter_check l now ip)))) = insert ip (dom (map_of (buckets l)))"
    unfolding limiter_check_def evict_id [OF assms(1)] Let_def
    by (simp add: update_conv' dom_def) auto
qed

subsection \<open>Runs\<close>

definition limiter_step :: "rate_limiter \<Rightarrow> instant \<times> ip_addr \<Rightarrow> rate_limiter" where
  "limiter_step l a = fst (limiter_check l (fst a) (snd a))"

fun limiter_answers :: "rate_limiter \<Rightarrow> (instant \<times> ip_addr) list \<Rightarrow> bool list" where
  "limiter_answers l [] = []"
| "limiter_answers l (a # as) = snd (limiter_check l (fst a) (snd a)) # limiter_answers (limiter_step l a) as"

lemma unat_u32: "unat (w :: 32 word) < 2 ^ 32"
  using unsigned_less [of w] by simp

interpretation limiter: invariant_machine "new_limiter (unat (w :: 32 word))" limiter_step
  "\<lambda>l. w = 0 \<or> limiter_ok (unat w) l"
proof
  show "w = 0 \<or> limiter_ok (unat w) (new_limiter (unat w))"
    using new_limiter_ok [of "unat w"] unat_u32 [of w] by (auto simp: unat_gt_0)
next
  fix l a
  assume "w = 0 \<or> limiter_ok (unat w) l"
  then show "w = 0 \<or> limiter_ok (unat w) (limiter_step l a)"
    using limiter_check_ok(1) [of "unat w"] unat_u32 [of w] by (auto simp: limiter_step_def unat_gt_0)
qed

lemma no_time_no_refill: "refill l now (Fin x, now) = fmin (of_exact x) (burst l)" if "rate_per_s l = Fin r"
  using that by (simp add: refill_def as_secs_f64_def duration_since_def)

lemma bucket_drains:
  assumes "limiter_ok rpm l" and "map_of (buckets l) ip = Some (Fin (real k), now) \<or> map_of (buckets l) ip = None \<and> k = rpm"
    and "k \<le> rpm" and "0 < rpm" and "rpm < 2 ^ 32"
  shows "limiter_answers l (replicate n (now, ip)) = replicate (min n k) True @ replicate (n - k) False"
  using assms(1-3)
proof (induction n arbitrary: l k)
  case (Suc n)
  let ?e = "case map_of (buckets l) ip of Some e \<Rightarrow> e | None \<Rightarrow> (burst l, now)"
  have e: "?e = (Fin (real k), now)" using Suc.prems by (auto simp: limiter_ok_def)
  have exact: "of_exact (real k) = Fin (real k)" "of_exact (real k - 1) = Fin (real k - 1)"
    using of_exact_int [of "int k"] of_exact_int [of "int k - 1"] Suc.prems(3) assms(5) by simp_all
  have t: "refill l now (Fin (real k), now) = Fin (real k)"
    using Suc.prems(1,3) exact(1) no_time_no_refill [of l] by (auto simp: limiter_ok_def min_def)
  have chk: "limiter_check l now ip =
      (if 1 \<le> k then (l\<lparr>buckets := AList.update ip (Fin (real (k - 1)), now) (buckets l)\<rparr>, True)
       else (l\<lparr>buckets := AList.update ip (Fin (real k), now) (buckets l)\<rparr>, False))"
    unfolding limiter_check_def evict_id [OF Suc.prems(1)] Let_def e t
    using exact(2) by (auto simp: fsub_def of_nat_diff)
  have ok: "limiter_ok rpm (limiter_step l (now, ip))"
    using limiter_check_ok(1) [OF Suc.prems(1) assms(4,5)] by (simp add: limiter_step_def)
  have look: "map_of (buckets (limiter_step l (now, ip))) ip = Some (Fin (real (k - 1)), now)"
    by (auto simp: limiter_step_def chk update_conv' not_le)
  have "limiter_answers (limiter_step l (now, ip)) (replicate n (now, ip))
      = replicate (min n (k - 1)) True @ replicate (n - (k - 1)) False"
    using Suc.IH [OF ok] look Suc.prems(3) by simp
  then show ?case using chk by (cases k) (auto simp: replicate_append_same)
qed simp

text \<open>
  The table only grows: a stored bucket is always below the burst, so the eviction of
  full buckets removes nothing and every address ever seen stays in the table.
\<close>

lemma limiter_remembers:
  assumes "w \<noteq> 0"
  shows "dom (map_of (buckets (foldl limiter_step (new_limiter (unat (w :: 32 word))) ops))) = snd ` set ops"
proof (induction ops rule: rev_induct)
  case (snoc a ops)
  have "limiter_ok (unat w) (foldl limiter_step (new_limiter (unat w)) ops)"
    using limiter.run_inv [of w ops] assms by blast
  from limiter_check_ok(2) [OF this _ unat_u32, of "fst a" "snd a"] snoc assms show ?case
    by (simp add: unat_gt_0 limiter_step_def [of _ a])
qed (simp add: new_limiter_def)

text \<open>
  C15: after any history of requests, a client address that was not seen before gets
  exactly one minute's worth of requests through in a burst, and every further
  request of the burst is rejected. The floating-point bucket loses nothing.
\<close>

theorem limiter_burst_exact:
  assumes "w \<noteq> 0" and "ip \<notin> snd ` set ops"
  shows "limiter_answers (foldl limiter_step (new_limiter (unat (w :: 32 word))) ops) (replicate n (now, ip))
     = replicate (min n (unat w)) True @ replicate (n - unat w) False"
proof -
  have pos: "0 < unat w" using assms(1) by (simp add: unat_gt_0)
  have "map_of (buckets (foldl limiter_step (new_limiter (unat w)) ops)) ip = None"
    using limiter_remembers [OF assms(1), of ops] assms(2) by blast
  then show ?thesis
    using bucket_drains [OF _ _ _ pos unat_u32] limiter.run_inv [of w ops] assms(1) by blast
qed

theorem limiter_burst_exact_witness:
  "limiter_answers (foldl limiter_step (new_limiter (unat (2 :: 32 word))) [(5, [10, 0, 0, 1]), (9, [10, 0, 0, 1])])
     (replicate 3 (9, [10, 0, 0, 2])) = [True, True, False]"
proof -
  have "limiter_answers (foldl limiter_step (new_limiter (unat (2 :: 32 word))) [(5, [10, 0, 0, 1]), (9, [10, 0, 0, 1])])
     (replicate 3 (9, [10, 0, 0, 2])) = replicate (min 3 (unat (2 :: 32 word))) True @ replicate (3 - unat (2 :: 32 word)) False"
    by (rule limiter_burst_exact) simp_all
  also have "unat (2 :: 32 word) = 2" by simp
  also have "replicate (min 3 2) True @ replicate (3 - 2) False = [True, True, False]" by (simp add: numeral_eq_Suc)
  finally show ?thesis by simp
qed

end
