(* ===== verification/Wire.thy ===== *)
theory Wire
  imports H1 Registry
begin

text \<open>
  Reading and writing of whole messages in \<open>pipeline.rs\<close>: the request reader, the
  reader of the upstream's header section, the request sent upstream and the tracing
  headers added to the response. A socket is the list of the byte strings that its
  successive reads return, none of them empty; the end of the list is a read that
  returns nothing or fails.
\<close>

definition MAX_BODY_BYTES :: nat where "MAX_BODY_BYTES = 4 * 1024 * 1024"
definition MAX_HEADER_BYTES :: nat where "MAX_HEADER_BYTES = 16 * 1024"

subsection \<open>The request reader\<close>

datatype read_result = ReadOk str | ReadClosed | HeadersTooLarge | BodyTooLarge

datatype head_read = HeadAt nat str "str list" | HeadClosed | HeadTooLarge

text \<open>Phase 1: read until the blank line; the reads that are left stay on the socket.\<close>

fun read_head :: "nat \<Rightarrow> str \<Rightarrow> str list \<Rightarrow> head_read" where
  "read_head limit buf [] = HeadClosed"
| "read_head limit buf (s # ss) =
     (case find_double_crlf (buf @ s) of
        Some p \<Rightarrow> HeadAt p (buf @ s) ss
      | None \<Rightarrow> if length (buf @ s) > limit then HeadTooLarge else read_head limit (buf @ s) ss)"

text \<open>\<open>str::split\<close> on the line end.\<close>

function split_crlf :: "str \<Rightarrow> str list" where
  "split_crlf s = (case find_crlf s of None \<Rightarrow> [s] | Some i \<Rightarrow> take i s # split_crlf (drop (i + 2) s))"
  by auto
termination
proof (relation "measure length")
  fix s i
  assume "find_crlf s = Some i"
  then have "i + 2 \<le> length s" using find_sub_Some [of s crlf i] by (simp add: find_crlf_def crlf_def)
  then show "(drop (i + 2) s, s) \<in> measure length" by simp
qed simp

declare split_crlf.simps [simp del]

definition cl_line :: "unicode \<Rightarrow> str \<Rightarrow> bool" where
  "cl_line u l = starts_with (lowercase u l) ''content-length:''"

definition parse_content_length :: "unicode \<Rightarrow> str \<Rightarrow> nat option" where
  "parse_content_length u headers =
     Option.bind (from_utf8 headers) (\<lambda>s.
     Option.bind (find (cl_line u) (split_crlf s)) (\<lambda>l.
       parse_uint 64 (trim (drop 15 (lowercase u l)))))"

text \<open>Phase 3; the sum saturates at the largest 64-bit value.\<close>

fun read_body :: "nat \<Rightarrow> str \<Rightarrow> str list \<Rightarrow> str option \<times> str list" where
  "read_body needed buf [] = (Some buf, [])"
| "read_body needed buf (s # ss) =
     (if needed \<le> length buf then (Some buf, s # ss)
      else if length (buf @ s) > MAX_BODY_BYTES + MAX_HEADER_BYTES then (None, ss)
      else read_body needed (buf @ s) ss)"

definition read_full_request :: "unicode \<Rightarrow> str list \<Rightarrow> read_result \<times> str list" where
  "read_full_request u ss =
     (case read_head MAX_HEADER_BYTES [] ss of
        HeadClosed \<Rightarrow> (ReadClosed, [])
      | HeadTooLarge \<Rightarrow> (HeadersTooLarge, [])
      | HeadAt header_end buf ss1 \<Rightarrow>
          (let body_start = header_end + 4
           in case parse_content_length u (take header_end buf) of
                None \<Rightarrow> (ReadOk buf, ss1)
              | Some n \<Rightarrow>
                  if n > MAX_BODY_BYTES then (BodyTooLarge, ss1)
                  else (let needed = min (body_start + n) (2 ^ 64 - 1)
                        in case read_body needed buf ss1 of
                             (None, ss2) \<Rightarrow> (BodyTooLarge, ss2)
                           | (Some b, ss2) \<Rightarrow> (ReadOk (take needed b), ss2))))"

subsection \<open>Towards the upstream\<close>

definition TRACE_HEADERS :: "str list" where
  "TRACE_HEADERS =
     [''traceparent'', ''tracestate'', ''x-b3-traceid'', ''x-b3-spanid'', ''x-b3-parentspanid'', ''x-b3-sampled'',
      ''x-datadog-trace-id'', ''x-datadog-parent-id'', ''x-datadog-sampling-priority'', ''x-request-id'']"

definition extract_trace :: "h1_header list \<Rightarrow> (str \<times> str) list" where
  "extract_trace hs =
     List.map_filter (\<lambda>k. map_option (\<lambda>h. (k, value_str h)) (find_header hs k)) TRACE_HEADERS"

definition read_upstream_headers :: "unicode \<Rightarrow> str list \<Rightarrow> ((str \<times> bool \<times> bool) \<times> str list) option" where
  "read_upstream_headers u ss =
     (case read_head (64 * 1024) [] ss of
        HeadAt header_end buf ss1 \<Rightarrow>
          (let headers_str = lowercase u (case from_utf8 (take header_end buf) of Some s \<Rightarrow> s | None \<Rightarrow> [])
           in Some ((buf, contains headers_str ''transfer-encoding: chunked'',
                     contains headers_str ''content-type: text/event-stream''), ss1))
      | _ \<Rightarrow> None)"

definition inject_tsm_response_headers :: "str \<Rightarrow> str \<Rightarrow> str \<Rightarrow> str" where
  "inject_tsm_response_headers headers request_id action =
     (case find_double_crlf headers of
        Some e \<Rightarrow> take (e + 2) headers @ ''X-TSM-Trace-ID: '' @ request_id @ crlf
          @ ''X-TSM-Action-Taken: '' @ action @ crlf @ crlf @ drop (e + 4) headers
      | None \<Rightarrow> headers)"

text \<open>The trace headers come from a hash map; the list is its iteration order.\<close>

definition build_upstream_request ::
  "upstream_target \<Rightarrow> str \<Rightarrow> (str \<times> str) list \<Rightarrow> (str \<times> str) list \<Rightarrow> str \<Rightarrow> str" where
  "build_upstream_request t body auth_hdrs trace_hdrs request_id =
     ''POST '' @ base_path t @ ''/chat/completions HTTP/1.1'' @ crlf @ ''Host: '' @ host t @ crlf
     @ ''Content-Type: application/json'' @ crlf @ ''Content-Length: '' @ dec_digits (length body) @ crlf
     @ ''X-TSM-Trace-ID: '' @ request_id @ crlf
     @ concat (map (\<lambda>(k, v). k @ '': '' @ v @ crlf) auth_hdrs)
     @ concat (map (\<lambda>(k, v). k @ '': '' @ v @ crlf) trace_hdrs)
     @ crlf @ body"

subsection \<open>Searching in a prefix\<close>

lemma starts_with_app: "starts_with s p \<Longrightarrow> starts_with (s @ t) p"
  by (auto simp: starts_with_prefix)

lemma starts_with_long: "starts_with (s @ t) p \<Longrightarrow> length p \<le> length s \<Longrightarrow> starts_with s p"
  by (simp add: starts_with_def)

lemma find_sub_extend: "find_sub s p = Some i \<Longrightarrow> p \<noteq> [] \<Longrightarrow> find_sub (s @ t) p = Some i"
proof (induction s arbitrary: i)
  case (Cons x xs)
  show ?case
  proof (cases "starts_with (x # xs) p")
    case True
    then show ?thesis using starts_with_app [of "x # xs" p t] Cons.prems by simp
  next
    case False
    with Cons.prems obtain j where j: "find_sub xs p = Some j" "i = Suc j" by auto
    have "length p \<le> length xs" using find_sub_Some [OF j(1)] by simp
    then have "\<not> starts_with (x # xs @ t) p" using False starts_with_long [of "x # xs" t p] by auto
    with j Cons.IH [OF j(1)] Cons.prems(2) show ?thesis by simp
  qed
qed simp

lemma find_sub_shrink: "find_sub (s @ t) p = Some i \<Longrightarrow> i + length p \<le> length s \<Longrightarrow> find_sub s p = Some i"
proof (induction s arbitrary: i)
  case (Cons x xs)
  show ?case
  proof (cases "starts_with (x # xs @ t) p")
    case True
    then show ?thesis using starts_with_long [of "x # xs" t p] Cons.prems by auto
  next
    case False
    then have "\<not> starts_with (x # xs) p" using starts_with_app [of "x # xs" p t] by auto
    with False Cons show ?thesis by auto
  qed
qed (cases t; simp)

lemma dcrlf_len: "length crlf = 2" "crlf \<noteq> []"
  by (simp_all add: crlf_def)

lemma double_crlf_prefix:
  assumes "find_double_crlf (s @ t) = Some i"
  shows "find_double_crlf s = (if i + 4 \<le> length s then Some i else None)"
proof (cases "find_double_crlf s")
  case None
  then show ?thesis using find_sub_shrink [of s t "crlf @ crlf" i] assms
    by (auto simp: find_double_crlf_def dcrlf_len)
next
  case (Some j)
  then have "find_double_crlf (s @ t) = Some j" "j + 4 \<le> length s"
    using find_sub_extend [of s "crlf @ crlf" j t] find_sub_Some [of s "crlf @ crlf" j]
    by (auto simp: find_double_crlf_def dcrlf_len)
  with assms Some show ?thesis by simp
qed

text \<open>
  However the bytes arrive, the first phase stops at the first read that completes the
  header section, with everything read so far.
\<close>

lemma read_head_segments:
  assumes "find_double_crlf (buf @ concat ss) = Some i" and "i + 4 \<le> limit" and "length buf < i + 4"
  shows "\<exists>k \<le> length ss. read_head limit buf ss = HeadAt i (buf @ concat (take k ss)) (drop k ss)
           \<and> i + 4 \<le> length (buf @ concat (take k ss))"
  using assms
proof (induction ss arbitrary: buf)
  case Nil
  then show ?case using find_sub_Some [of buf "crlf @ crlf" i]
    by (auto simp: find_double_crlf_def dcrlf_len)
next
  case (Cons s ss)
  have f: "find_double_crlf (buf @ s) = (if i + 4 \<le> length (buf @ s) then Some i else None)"
    using double_crlf_prefix [of "buf @ s" "concat ss"] Cons.prems(1) by simp
  show ?case
  proof (cases "i + 4 \<le> length (buf @ s)")
    case True
    with f show ?thesis by (intro exI [of _ 1]) simp
  next
    case False
    with Cons.IH [of "buf @ s"] Cons.prems obtain k where
      "k \<le> length ss" "read_head limit (buf @ s) ss = HeadAt i ((buf @ s) @ concat (take k ss)) (drop k ss)"
      "i + 4 \<le> length ((buf @ s) @ concat (take k ss))" by auto
    with f False Cons.prems(2) show ?thesis by (intro exI [of _ "Suc k"]) simp
  qed
qed

lemma read_body_segments:
  assumes "length (buf @ concat ss) = needed" and "needed \<le> MAX_BODY_BYTES + MAX_HEADER_BYTES" and "[] \<notin> set ss"
  shows "read_body needed buf ss = (Some (buf @ concat ss), [])"
  using assms
proof (induction ss arbitrary: buf)
  case (Cons s ss)
  then have "s \<noteq> []" by auto
  then have "\<not> needed \<le> length buf" using Cons.prems(1) by (cases s) auto
  with Cons show ?case by simp
qed simp

lemma read_full_request_segments:
  assumes "concat ss = H @ body" and "find_double_crlf (H @ body) = Some (length H - 4)" and "4 \<le> length H"
    and "length H \<le> MAX_HEADER_BYTES" and "length body \<le> MAX_BODY_BYTES" and "[] \<notin> set ss"
    and "parse_content_length u (take (length H - 4) H) = Some (length body)"
  shows "read_full_request u ss = (ReadOk (H @ body), [])"
proof -
  obtain k where k: "read_head MAX_HEADER_BYTES [] ss = HeadAt (length H - 4) (concat (take k ss)) (drop k ss)"
    "length H \<le> length (concat (take k ss))"
    using read_head_segments [of "[]" ss "length H - 4" MAX_HEADER_BYTES] assms(1-4) by fastforce
  have sp: "concat (take k ss) @ concat (drop k ss) = H @ body"
    using assms(1) by (metis append_take_drop_id concat_append)
  have "take (length H) (concat (take k ss)) = take (length H) (concat (take k ss) @ concat (drop k ss))"
    using k(2) by simp
  also have "\<dots> = H" unfolding sp by simp
  finally have "take (length H - 4) (concat (take k ss)) = take (length H - 4) H"
    by (metis diff_le_self min.absorb1 take_take)
  then have cl: "parse_content_length u (take (length H - 4) (concat (take k ss))) = Some (length body)"
    using assms(7) by simp
  have needed: "min (length H - 4 + 4 + length body) (2 ^ 64 - 1) = length (H @ body)"
    using assms(3-5) by (simp add: MAX_HEADER_BYTES_def MAX_BODY_BYTES_def)
  have "read_body (length (H @ body)) (concat (take k ss)) (drop k ss) = (Some (H @ body), [])"
    using read_body_segments [of "concat (take k ss)" "drop k ss" "length (H @ body)"] sp assms(4-6)
    by (auto dest: in_set_dropD)
  then show ?thesis
    unfolding read_full_request_def k(1) head_read.case Let_def cl option.case needed
    using assms(5) by (simp add: not_less)
qed

subsection \<open>The two readings of the declared length agree\<close>

lemma char_lower_class [simp]:
  "ascii_digitp (char_lower c) = ascii_digitp c" "is_whitespace (of_char (char_lower c)) = is_whitespace (of_char c)"
  "(of_char (char_lower c) :: nat) < 128 \<longleftrightarrow> (of_char c :: nat) < 128"
  by (auto simp: char_lower_def ascii_digitp_def ascii_upperp_def is_whitespace_def)

lemma char_lower_digit: "ascii_digitp c \<Longrightarrow> char_lower c = c"
  by (auto simp: char_lower_def ascii_digitp_def ascii_upperp_def)

lemma parse_digits_lower: "parse_digits (to_lowercase s) n = parse_digits s n"
  by (induction s arbitrary: n) (auto simp: to_lowercase_def char_lower_digit)

lemma char_lower_plus: "char_lower c = CHR ''+'' \<longleftrightarrow> c = CHR ''+''"
proof (cases "ascii_upperp c")
  case True
  then have "(of_char (char_lower c) :: nat) \<noteq> of_char (CHR ''+'')" by (auto simp: char_lower_def ascii_upperp_def)
  moreover have "c \<noteq> CHR ''+''" using True by (auto simp: ascii_upperp_def)
  ultimately show ?thesis by metis
qed (simp add: char_lower_def)

lemma parse_uint_lower: "parse_uint w (to_lowercase s) = parse_uint w s"
proof (cases s)
  case (Cons c cs)
  then show ?thesis
    using parse_digits_lower [of s 0] parse_digits_lower [of cs 0]
    by (simp add: parse_uint_def to_lowercase_def char_lower_plus)
qed (simp add: to_lowercase_def)

lemma trim_ascii: "is_ascii s \<Longrightarrow> trim s = trim_matches (\<lambda>c. is_whitespace (of_char c)) s"
proof -
  assume a: "is_ascii s"
  let ?t = "trim_matches (\<lambda>c. is_whitespace (of_char c)) s"
  have "trim_matches is_whitespace (map of_char s) = map of_char ?t"
    by (simp add: trim_matches_def dropWhile_map rev_map comp_def)
  moreover have "set ?t \<subseteq> set s"
    by (auto simp: trim_matches_def dest!: set_dropWhileD)
  then have "of_chars (map of_char ?t) = ?t"
    using a by (subst of_chars_ascii) (auto simp: is_ascii_def list_all_iff comp_def)
  ultimately show ?thesis by (simp add: trim_def chars_ascii [OF a] codes_def)
qed

lemma is_ascii_lower [simp]: "is_ascii (to_lowercase s) = is_ascii s"
  by (simp add: is_ascii_def to_lowercase_def list_all_iff)

lemma trim_lower: "is_ascii s \<Longrightarrow> trim (to_lowercase s) = to_lowercase (trim s)"
  by (simp add: trim_ascii) (simp add: trim_matches_def to_lowercase_def dropWhile_map rev_map comp_def)

lemma split_crlf_join: "ls \<noteq> [] \<Longrightarrow> list_all (\<lambda>l. CR \<notin> set l) ls \<Longrightarrow> split_crlf (join_with crlf ls) = ls"
proof (induction ls rule: induct_list012)
  case (2 l)
  then have "find_crlf l = None"
    using find_sub_skip [of l "[]" "[LF]"] by (simp add: find_crlf_def crlf_def)
  then show ?case by (simp add: split_crlf.simps)
next
  case (3 l m ls)
  have "find_crlf (l @ crlf @ join_with crlf (m # ls)) = Some (length l)"
    using 3 by (intro find_crlf_line) simp
  moreover have "drop (length l + 2) (l @ crlf @ join_with crlf (m # ls)) = join_with crlf (m # ls)"
    by (simp add: crlf_def)
  ultimately show ?case using 3 by (simp add: split_crlf.simps [of "l @ crlf @ join_with crlf (m # ls)"])
qed simp

lemma header_lines_join: "ls \<noteq> [] \<Longrightarrow> header_lines ls = join_with crlf ls @ crlf"
  by (induction ls rule: induct_list012) simp_all

lemma head_section:
  "take (length (message_head line hs) - 4) (message_head line hs) = join_with crlf (line # map header_line hs)"
proof -
  have "message_head line hs = join_with crlf (line # map header_line hs) @ crlf @ crlf"
    unfolding message_head_def by (simp only: header_lines_join [of "line # map header_line hs"] list.distinct append_assoc simp_thms)
  then show ?thesis by (simp add: dcrlf_len del: join_with.simps)
qed

lemma lower_colon: "char_lower c = CHR '':'' \<longleftrightarrow> c = CHR '':''"
proof (cases "ascii_upperp c")
  case True
  then have "(of_char (char_lower c) :: nat) \<noteq> of_char (CHR '':'')" by (auto simp: char_lower_def ascii_upperp_def)
  moreover have "c \<noteq> CHR '':''" using True by (auto simp: ascii_upperp_def)
  ultimately show ?thesis by metis
qed (simp add: char_lower_def)

lemma lower_no_colon: "CHR '':'' \<notin> set s \<Longrightarrow> CHR '':'' \<notin> set (to_lowercase s)"
  unfolding to_lowercase_def set_map using lower_colon by (metis (no_types, lifting) imageE)

lemma starts_with_colon:
  assumes "CHR '':'' \<notin> set xs" and "CHR '':'' \<notin> set n"
  shows "starts_with (xs @ CHR '':'' # ys) (n @ '':'') \<longleftrightarrow> xs = n"
proof
  assume "starts_with (xs @ CHR '':'' # ys) (n @ '':'')"
  then obtain t where "xs @ CHR '':'' # ys = n @ CHR '':'' # t"
    unfolding starts_with_prefix prefix_def by auto
  then show "xs = n"
    using split_once_append [OF assms(1), of ys] split_once_append [OF assms(2), of t]
    by (metis option.inject prod.inject)
next
  assume "xs = n"
  then show "starts_with (xs @ CHR '':'' # ys) (n @ '':'')"
    using starts_with_append [of "n @ '':''" ys] by simp
qed

lemma cl_line_header:
  assumes "header_ok h" and "is_ascii (header_line h)"
  shows "cl_line u (header_line h) = name_eq h ''content-length''"
proof -
  have "CHR '':'' \<notin> set (to_lowercase (fst h))"
    using assms(1) by (intro lower_no_colon) (simp add: header_ok_def)
  moreover have "lowercase u (header_line h) = to_lowercase (fst h) @ CHR '':'' # to_lowercase (CHR '' '' # snd h)"
    using assms(2) by (simp add: lowercase_def header_line_def to_lowercase_def char_lower_def ascii_upperp_def)
  ultimately have "cl_line u (header_line h) = (to_lowercase (fst h) = ''content-length'')"
    using starts_with_colon [of "to_lowercase (fst h)" "''content-length''" "to_lowercase (CHR '' '' # snd h)"]
    by (simp add: cl_line_def)
  moreover have "to_lowercase ''content-length'' = ''content-length''"
    by (simp add: to_lowercase_def char_lower_def ascii_upperp_def)
  ultimately show ?thesis by (simp only: name_eq_def)
qed

lemma cl_value:
  assumes "name_eq h ''content-length''" and "is_ascii (header_line h)"
  shows "parse_uint 64 (trim (drop 15 (lowercase u (header_line h)))) = parse_uint 64 (trim (snd h))"
proof -
  have "length (fst h) = length ''content-length''"
    using assms(1) unfolding name_eq_def by (metis length_to_lowercase)
  then have len: "length (fst h) = 14" by simp
  have a: "is_ascii (snd h)" using assms(2) by (simp add: header_line_def)
  have "drop 15 (lowercase u (header_line h)) = to_lowercase (CHR '' '' # snd h)"
    using assms(2) len by (simp add: lowercase_def header_line_def to_lowercase_def drop_map)
  also have "trim \<dots> = to_lowercase (trim (CHR '' '' # snd h))" using a by (intro trim_lower) simp
  also have "trim (CHR '' '' # snd h) = trim (snd h)"
    using a by (simp add: trim_ascii trim_matches_def is_whitespace_def)
  finally show ?thesis by (simp add: parse_uint_lower)
qed

text \<open>On an ASCII head both readings of the declared length are those of the first header of that name.\<close>

lemma content_length_agree:
  assumes "list_all header_ok hs" and "list_all (\<lambda>h. is_ascii (header_line h)) hs"
  shows "Option.bind (find (cl_line u) (map header_line hs)) (\<lambda>l. parse_uint 64 (trim (drop 15 (lowercase u l))))
     = header_usize hs"
  using assms
proof (induction hs)
  case (Cons h hs)
  then have c: "cl_line u (header_line h) = name_eq h ''content-length''" by (intro cl_line_header) simp_all
  have "from_utf8 (snd h) = Some (snd h)" using Cons.prems(2) by (simp add: from_utf8_ascii header_line_def)
  with c Cons cl_value [of h u] show ?case by (simp add: header_usize_def find_header_def)
qed (simp add: header_usize_def find_header_def)

lemma is_ascii_join: "is_ascii (join_with sep ls) \<longleftrightarrow> list_all is_ascii ls \<and> (length ls \<ge> 2 \<longrightarrow> is_ascii sep)"
  by (induction ls rule: induct_list012) auto

lemma is_ascii_crlf [simp]: "is_ascii crlf"
  by (simp add: crlf_def)

lemma content_length_head:
  assumes "list_all header_ok hs" and "list_all (\<lambda>h. is_ascii (header_line h)) hs"
    and "line_ok line" and "is_ascii line" and "\<not> cl_line u line"
  shows "parse_content_length u (take (length (message_head line hs) - 4) (message_head line hs)) = header_usize hs"
proof -
  have a: "is_ascii (join_with crlf (line # map header_line hs))"
    using assms(2,4) by (simp add: is_ascii_join list_all_iff del: join_with.simps)
  have "split_crlf (join_with crlf (line # map header_line hs)) = line # map header_line hs"
    using assms(1,3) header_ok_line by (intro split_crlf_join) (auto simp: line_ok_def list_all_iff)
  then show ?thesis
    unfolding parse_content_length_def head_section from_utf8_ascii [OF a]
    using assms(5) content_length_agree [OF assms(1,2)] by simp
qed

lemma method_line_not_cl:
  assumes "is_ascii (m @ '' '' @ rest)" and "CHR '':'' \<notin> set m"
  shows "\<not> cl_line u (m @ '' '' @ rest)"
proof
  assume "cl_line u (m @ '' '' @ rest)"
  then obtain t where "to_lowercase (m @ '' '' @ rest) = ''content-length:'' @ t"
    unfolding cl_line_def lowercase_def if_P [OF assms(1)] starts_with_prefix prefix_def by blast
  then have "to_lowercase m @ CHR '' '' # to_lowercase rest = ''content-length'' @ CHR '':'' # t"
    by (simp add: to_lowercase_def char_lower_def ascii_upperp_def)
  moreover have "CHR '':'' \<notin> set (to_lowercase m)" using assms(2) by (rule lower_no_colon)
  ultimately show False
    by (auto simp only: append_eq_append_conv2) (auto simp: Cons_eq_append_conv append_eq_Cons_conv)
qed

text \<open>
  C16: the request reader and the request parser agree, whatever the segmentation. An
  ASCII request of any method and path with well-formed headers that declare its body
  length, within the size limits, is read completely and nothing more, however its
  bytes are split over the reads, and the parser then returns exactly its method,
  path, headers and body.
\<close>

theorem request_read_exactly:
  assumes "concat ss = message_head (m @ '' '' @ path @ '' HTTP/1.1'') hs @ body" and "[] \<notin> set ss"
    and "CHR '' '' \<notin> set m" and "CHR '' '' \<notin> set path" and "CR \<notin> set m" and "CR \<notin> set path"
    and "is_ascii m" and "is_ascii path" and "CHR '':'' \<notin> set m"
    and "list_all header_ok hs" and "list_all (\<lambda>h. is_ascii (header_line h)) hs" and "hs \<noteq> []"
    and "header_usize hs = Some (length body)" and "\<not> chunked_header u hs"
    and "length (message_head (m @ '' '' @ path @ '' HTTP/1.1'') hs) \<le> MAX_HEADER_BYTES"
    and "length body \<le> MAX_BODY_BYTES"
  shows "read_full_request u ss = (ReadOk (concat ss), [])
       \<and> parse_request fuel u (concat ss) =
           Complete \<lparr>req_method = m, req_path = path, version_minor = 1, req_headers = hs, req_body = body\<rparr>
             (word_of_nat (length (concat ss)))"
proof
  let ?line = "m @ '' '' @ path @ '' HTTP/1.1''"
  let ?H = "message_head ?line hs"
  have line: "line_ok ?line" "is_ascii ?line" using assms(5-8) by (simp_all add: line_ok_def)
  have nocl: "\<not> cl_line u ?line" using line(2) assms(9) by (rule method_line_not_cl)
  have "4 \<le> length ?H" by (simp add: message_head_def dcrlf_len)
  then show "read_full_request u ss = (ReadOk (concat ss), [])"
    using read_full_request_segments [of ss ?H body u] head_layout(1) [OF line(1) assms(10,12), of body]
      content_length_head [OF assms(10,11) line nocl] assms(1,2,13,15,16) by simp
  show "parse_request fuel u (concat ss) =
           Complete \<lparr>req_method = m, req_path = path, version_minor = 1, req_headers = hs, req_body = body\<rparr>
             (word_of_nat (length (concat ss)))"
    using parse_request_sized [OF assms(3-6,10,12,14,13), of "[]" fuel] assms(1,15,16)
    by (simp add: MAX_HEADER_BYTES_def MAX_BODY_BYTES_def)
qed

theorem request_read_exactly_witness:
  "read_full_request plain_unicode [''POST / HT'', ''TP/1.1'' @ crlf @ ''Content-Length: 2'' @ [CR], [LF] @ crlf @ ''h'', ''i'']
     = (ReadOk (''POST / HTTP/1.1'' @ crlf @ ''Content-Length: 2'' @ crlf @ crlf @ ''hi''), [])"
proof -
  let ?ss = "[''POST / HT'', ''TP/1.1'' @ crlf @ ''Content-Length: 2'' @ [CR], [LF] @ crlf @ ''h'', ''i'']"
  have "dec_digits 2 = ''2''" by (simp add: dec_digits.simps [of 2] char_of_def bit_iff_odd)
  then have d: "dec_digits (Suc (Suc 0)) = ''2''" by (simp only: numeral_2_eq_2)
  have hd: "header_usize [(''Content-Length'', ''2'')] = Some (length ''hi'')"
    using built_headers_length [of "''hi''" "''x''"]
    by (simp add: built_headers_def header_usize_def find_header_def name_eq_simps d)
  have "read_full_request plain_unicode ?ss = (ReadOk (concat ?ss), []) \<and> parse_request 0 plain_unicode (concat ?ss) =
           Complete \<lparr>req_method = ''POST'', req_path = ''/'', version_minor = 1, req_headers = [(''Content-Length'', ''2'')], req_body = ''hi''\<rparr>
             (word_of_nat (length (concat ?ss)))"
    by (rule request_read_exactly)
       (simp_all add: hd message_head_def header_line_def crlf_def header_ok_def ascii_space_def chunked_header_def name_eq_simps
         MAX_HEADER_BYTES_def MAX_BODY_BYTES_def)
  then show ?thesis by (simp add: crlf_def)
qed

subsection \<open>What the upstream and the client see\<close>

definition upstream_headers :: "upstream_target \<Rightarrow> str \<Rightarrow> (str \<times> str) list \<Rightarrow> (str \<times> str) list \<Rightarrow> str \<Rightarrow> h1_header list" where
  "upstream_headers t body auth_hdrs trace_hdrs request_id =
     [(''Host'', host t), (''Content-Type'', ''application/json''), (''Content-Length'', dec_digits (length body)),
      (''X-TSM-Trace-ID'', request_id)] @ auth_hdrs @ trace_hdrs"

lemma header_lines_pairs: "concat (map (\<lambda>(k, v). k @ '': '' @ v @ crlf) hs) = header_lines (map header_line hs)"
  by (induction hs) (auto simp: header_line_def)

lemma header_lines_append [simp]: "header_lines (xs @ ys) = header_lines xs @ header_lines ys"
  by (simp add: header_lines_def)

lemma build_upstream_lines:
  "build_upstream_request t body auth trace rid =
     message_head (''POST'' @ '' '' @ (base_path t @ ''/chat/completions'') @ '' HTTP/1.1'') (upstream_headers t body auth trace rid) @ body"
  unfolding build_upstream_request_def header_lines_pairs
  by (simp add: message_head_def upstream_headers_def header_line_def)

lemma auth_names: "t \<in> set UPSTREAMS \<Longrightarrow> h \<in> set (build_auth_headers env t) \<Longrightarrow> fst h \<in> {''Authorization'', ''x-api-key''}"
  by (auto simp: UPSTREAMS_def build_auth_headers_def Let_def split: if_splits)

lemma not_te_names:
  "n \<in> set (''Host'' # ''X-TSM-Trace-ID'' # ''Authorization'' # ''x-api-key'' # TRACE_HEADERS) \<Longrightarrow> \<not> name_eq (n, v) ''transfer-encoding''"
  by (auto simp: TRACE_HEADERS_def name_eq_def to_lowercase_def char_lower_def ascii_upperp_def char_of_def bit_iff_odd)

lemma upstream_headers_length:
  "length body < 2 ^ 64 \<Longrightarrow> header_usize (upstream_headers t body auth trace rid) = Some (length body)"
proof -
  assume "length body < 2 ^ 64"
  moreover have "\<not> name_eq (''Host'', v) ''content-length''" for v
    by (simp add: name_eq_def to_lowercase_def char_lower_def ascii_upperp_def)
  ultimately show ?thesis
    by (simp add: header_usize_def upstream_headers_def find_header_def name_eq_simps from_utf8_ascii)
qed

lemma upstream_headers_plain:
  assumes "t \<in> set UPSTREAMS" and "set auth \<subseteq> set (build_auth_headers env t)" and "fst ` set trace \<subseteq> set TRACE_HEADERS"
  shows "\<not> chunked_header u (upstream_headers t body auth trace rid)"
proof -
  have "\<not> name_eq h ''transfer-encoding''" if "h \<in> set (upstream_headers t body auth trace rid)" for h
  proof -
    from that consider "h = (''Content-Type'', ''application/json'')" | "h = (''Content-Length'', dec_digits (length body))"
      | "fst h \<in> {''Host'', ''X-TSM-Trace-ID''}" | "h \<in> set auth" | "h \<in> set trace"
      unfolding upstream_headers_def by auto
    then show ?thesis
    proof cases
      case 3
      then show ?thesis using not_te_names [of "fst h" "snd h"] by auto
    next
      case 4
      then show ?thesis using not_te_names [of "fst h" "snd h"] auth_names [OF assms(1), of h env] assms(2) by auto
    next
      case 5
      then show ?thesis using not_te_names [of "fst h" "snd h"] assms(3) by auto
    qed (simp_all add: name_eq_simps)
  qed
  then show ?thesis by (auto simp: chunked_header_def list_ex_iff)
qed

lemma upstream_headers_ok:
  assumes "t \<in> set UPSTREAMS" and "list_all header_ok (auth @ trace)" and "ct_ok rid"
  shows "list_all header_ok (upstream_headers t body auth trace rid)"
proof -
  have "CR \<notin> set (host t) \<and> \<not> ascii_space (hd (host t))"
    using assms(1) by (auto simp: UPSTREAMS_def ascii_space_def)
  then show ?thesis
    using assms(2,3) by (simp add: upstream_headers_def header_ok_def ct_ok_def digits_no_cr digits_no_space)
       (simp add: ascii_space_def)
qed

text \<open>
  The request sent upstream is parsed, by the proxy's own parser, as a POST of the
  target's completion path that carries exactly the body it was given and exactly the
  headers host, type, length and trace id, the authentication header of that target
  and the trace headers of the client: no header value and no body can add or change
  another header.
\<close>

lemma upstream_request_roundtrip:
  assumes "t \<in> set UPSTREAMS" and "auth = build_auth_headers env t" and "fst ` set trace \<subseteq> set TRACE_HEADERS"
    and "list_all header_ok (auth @ trace)" and "ct_ok rid"
    and "length (build_upstream_request t body auth trace rid) < 2 ^ 64"
  shows "parse_request fuel u (build_upstream_request t body auth trace rid) =
     Complete \<lparr>req_method = ''POST'', req_path = base_path t @ ''/chat/completions'', version_minor = 1,
        req_headers = upstream_headers t body auth trace rid, req_body = body\<rparr>
       (word_of_nat (length (build_upstream_request t body auth trace rid)))"
proof -
  let ?p = "base_path t @ ''/chat/completions''"
  have p: "CHR '' '' \<notin> set ?p" "CR \<notin> set ?p" using assms(1) by (auto simp: UPSTREAMS_def)
  have "length body < 2 ^ 64" using assms(6) by (simp add: build_upstream_lines)
  note cl = upstream_headers_length [OF this]
  have plain: "\<not> chunked_header u (upstream_headers t body auth trace rid)"
    using assms(2) by (intro upstream_headers_plain [OF assms(1) _ assms(3), where env = env]) simp
  show ?thesis
    using parse_request_sized [of "''POST''" ?p, OF _ p(1) _ p(2) upstream_headers_ok [OF assms(1,4,5)] _ plain cl, of "[]" fuel] assms(6)
    by (simp add: build_upstream_lines upstream_headers_def)
qed

definition openai_target :: upstream_target where
  "openai_target = hd UPSTREAMS"

text \<open>The injection of the tracing headers adds them at the end of the header section and keeps the rest.\<close>

definition tsm_headers :: "str \<Rightarrow> str \<Rightarrow> h1_header list" where
  "tsm_headers rid action = [(''X-TSM-Trace-ID'', rid), (''X-TSM-Action-Taken'', action)]"

lemma inject_head:
  assumes "line_ok line" and "list_all header_ok hs" and "hs \<noteq> []"
  shows "inject_tsm_response_headers (message_head line hs @ rest) rid action
     = message_head line (hs @ tsm_headers rid action) @ rest"
proof -
  let ?L = "header_lines (line # map header_line hs)"
  have H: "message_head line hs = ?L @ crlf" by (simp add: message_head_def)
  have e: "length (message_head line hs) - 4 + 2 = length ?L" "length (message_head line hs) - 4 + 4 = length (message_head line hs)"
    using head_layout(4) [OF assms] unfolding H by (simp_all add: dcrlf_len del: header_lines_simps)
  have "take (length ?L) (message_head line hs @ rest) = ?L" unfolding H by simp
  moreover have "drop (length (message_head line hs)) (message_head line hs @ rest) = rest" by simp
  ultimately show ?thesis
    unfolding inject_tsm_response_headers_def head_layout(1) [OF assms] option.case e
    by (simp add: message_head_def tsm_headers_def header_line_def)
qed

end
