(* ===== verification/Forward.thy ===== *)
theory Forward
  imports Wire Sse Pool
begin

text \<open>
  The forwarding path of \<open>pipeline.rs\<close>: acquire a pooled connection, send the request,
  relay the response. The sockets are explicit: every connection has a list of the
  reads that are still to come on it, which survives in the pool, and the client
  accepts a given number of writes before it fails. A panic of the scan is \<open>None\<close>.
\<close>

subsection \<open>The world of a forwarding thread\<close>

text \<open>
  Parameters: the network, the environment variables, whether a write on a descriptor
  succeeds and what the upstream sends after a request, the JSON library and the
  detector applied to a response tail.
\<close>

record io =
  io_net :: net
  io_vars :: "str \<Rightarrow> str option"
  io_unicode :: unicode
  io_write_ok :: "int \<Rightarrow> bool"
  io_reply :: "int \<Rightarrow> str \<Rightarrow> str list"
  io_parse :: "str \<Rightarrow> json option"
  io_print :: "json \<Rightarrow> str option"
  io_scan :: "str \<Rightarrow> detect_verdict option"

record world =
  w_pool :: conn_pool
  w_wire :: "(int \<times> str list) list"

record relay =
  r_out :: str
  r_keep :: bool
  r_usage :: "(str \<times> nat \<times> nat) option"

definition unread :: "world \<Rightarrow> int \<Rightarrow> str list" where
  "unread w f = (case map_of (w_wire w) f of Some ss \<Rightarrow> ss | None \<Rightarrow> [])"

text \<open>Writes to the client in order; the first that fails ends them.\<close>

fun client_write :: "nat \<Rightarrow> str list \<Rightarrow> nat \<times> str \<times> bool" where
  "client_write n [] = (n, [], True)"
| "client_write 0 (c # cs) = (0, [], False)"
| "client_write (Suc n) (c # cs) = (case client_write n cs of (m, out, ok) \<Rightarrow> (m, c @ out, ok))"

definition quoted :: "str \<Rightarrow> str" where
  "quoted s = CHR 0x22 # s @ [CHR 0x22]"

definition error_json :: "str \<Rightarrow> str" where
  "error_json msg = ''{'' @ quoted ''error'' @ '':'' @ quoted msg @ ''}''"

subsection \<open>Streaming responses\<close>

text \<open>The events of one read: what is written to the client and whether the end marker was seen.\<close>

fun stream_events :: "io \<Rightarrow> upstream_kind \<Rightarrow> redact_buffer \<Rightarrow> sse_event list \<Rightarrow> (redact_buffer \<times> str list \<times> bool) option" where
  "stream_events e k b [] = Some (b, [], False)"
| "stream_events e k b (ev # evs) =
     (if is_done ev
      then (case flush_done (io_parse e) (io_print e) (io_scan e) b of
              None \<Rightarrow> None
            | Some (b', out) \<Rightarrow> Some (b', map encode out @ [encode ev], True))
      else (let (b', out) = push (io_parse e) k b ev
            in case stream_events e k b' evs of
                 None \<Rightarrow> None
               | Some (b2, writes, d) \<Rightarrow> Some (b2, map encode out @ writes, d)))"

fun stream_loop :: "io \<Rightarrow> upstream_kind \<Rightarrow> nat \<Rightarrow> redact_buffer \<Rightarrow> str \<Rightarrow> str list \<Rightarrow> (str \<times> bool) option" where
  "stream_loop e k n b raw [] = Some ([], True)"
| "stream_loop e k n b raw (s # ss) =
     (let (events, consumed) = parse_events (raw @ s); raw' = drop consumed (raw @ s)
      in case stream_events e k b events of
           None \<Rightarrow> None
         | Some (b', writes, d) \<Rightarrow>
             (case client_write n writes of (m, out, ok) \<Rightarrow>
                if \<not> ok then Some (out, False)
                else if d \<or> length raw' > 1048576 then Some (out, True)
                else map_option (\<lambda>(out', r). (out @ out', r)) (stream_loop e k m b' raw' ss)))"

definition forward_streaming_response :: "io \<Rightarrow> upstream_kind \<Rightarrow> nat \<Rightarrow> str \<Rightarrow> str list \<Rightarrow> (str \<times> bool) option" where
  "forward_streaming_response e k n header_bytes ss =
     (case client_write n [header_bytes] of (m, out, ok) \<Rightarrow>
        if \<not> ok then Some (out, False)
        else map_option (\<lambda>(out', r). (out @ out', r)) (stream_loop e k m new_buffer [] ss))"

subsection \<open>Forwarding\<close>

text \<open>\<open>serde_json\<close>: \<open>as_u64\<close> of a number.\<close>

definition usage_field :: "json \<Rightarrow> str \<Rightarrow> str \<Rightarrow> nat option" where
  "usage_field usage a b =
     Option.bind (case jget usage a of Some v \<Rightarrow> Some v | None \<Rightarrow> jget usage b) as_u64"

definition parse_usage :: "(str \<Rightarrow> json option) \<Rightarrow> str \<Rightarrow> (nat \<times> nat) option" where
  "parse_usage parse body =
     Option.bind (parse body) (\<lambda>v.
     Option.bind (jget v ''usage'') (\<lambda>usage.
     Option.bind (usage_field usage ''prompt_tokens'' ''input_tokens'') (\<lambda>p.
     Option.bind (usage_field usage ''completion_tokens'' ''output_tokens'') (\<lambda>c. Some (p, c)))))"

definition kind_of :: "upstream_target \<Rightarrow> upstream_kind" where
  "kind_of t = (if ut_name t = ''anthropic'' then KAnthropic else KOpenAI)"

definition answer_error :: "nat \<Rightarrow> str \<Rightarrow> relay" where
  "answer_error n msg =
     (case client_write n [build_response 502 ''Bad Gateway'' ''application/json'' (error_json msg)] of
        (_, out, _) \<Rightarrow> \<lparr>r_out = out, r_keep = False, r_usage = None\<rparr>)"

text \<open>\<open>now\<close> is the time of the acquisition, \<open>now'\<close> that of the drop of the guard.\<close>

definition forward_to_target ::
  "io \<Rightarrow> instant \<Rightarrow> instant \<Rightarrow> world \<Rightarrow> nat \<Rightarrow> upstream_target \<Rightarrow> str \<Rightarrow> (str \<times> str) list \<Rightarrow> str \<Rightarrow> str \<Rightarrow> (world \<times> relay) option" where
  "forward_to_target e now now' w n t body trace_hdrs request_id action =
     (let req = build_upstream_request t body (build_auth_headers (io_vars e) t) trace_hdrs request_id
      in case acquire (io_net e) now (w_pool w) t of
           (p, Inl err) \<Rightarrow> Some (w\<lparr>w_pool := p\<rparr>, answer_error n ''upstream unavailable'')
         | (p, Inr g) \<Rightarrow>
             (let f = guard_fd g;
                  left = (if pool_connections p = pool_connections (w_pool w) then unread w f else []);
                  fail = (\<lambda>r. (w\<lparr>w_pool := drop_guard now' p (mark_unhealthy g)\<rparr>, r))
              in if \<not> io_write_ok e f then Some (fail (answer_error n ''upstream write failed''))
                 else case read_upstream_headers (io_unicode e) (left @ io_reply e f req) of
                   None \<Rightarrow> Some (fail \<lparr>r_out = [], r_keep = False, r_usage = None\<rparr>)
                 | Some ((header_bytes, chunked, sse), rest) \<Rightarrow>
                     (let tagged = inject_tsm_response_headers header_bytes request_id action
                      in if chunked \<or> sse
                         then map_option (\<lambda>(out, ok). fail \<lparr>r_out = out, r_keep = ok, r_usage = None\<rparr>)
                                (forward_streaming_response e (kind_of t) n tagged rest)
                         else (case client_write n [tagged] of (_, out, _) \<Rightarrow>
                                Some (\<lparr>w_pool = drop_guard now' p g, w_wire = AList.update f rest (w_wire w)\<rparr>,
                                  \<lparr>r_out = out, r_keep = True,
                                   r_usage = (case find_double_crlf header_bytes of
                                      Some h \<Rightarrow> map_option (Pair (ut_name t)) (parse_usage (io_parse e) (drop (h + 4) header_bytes))
                                    | None \<Rightarrow> None)\<rparr>)))))"

definition forward_request ::
  "io \<Rightarrow> instant \<Rightarrow> instant \<Rightarrow> world \<Rightarrow> nat \<Rightarrow> str \<Rightarrow> str \<Rightarrow> (str \<times> str) list \<Rightarrow> str \<Rightarrow> str \<Rightarrow> (world \<times> relay) option" where
  "forward_request e now now' w n m body trace_hdrs request_id action =
     forward_to_target e now now' w n (resolve_upstream (io_unicode e) m) body trace_hdrs request_id action"

subsection \<open>Complete responses\<close>

lemma client_write_all: "length cs \<le> n \<Longrightarrow> client_write n cs = (n - length cs, concat cs, True)"
  by (induction n cs rule: client_write.induct) auto

text \<open>What the head of a response says, as the relay searches for it.\<close>

definition announces :: "unicode \<Rightarrow> str \<Rightarrow> h1_header list \<Rightarrow> str \<Rightarrow> bool" where
  "announces u line hs what =
     contains (lowercase u (case from_utf8 (join_with crlf (line # map header_line hs)) of Some s \<Rightarrow> s | None \<Rightarrow> [])) what"

lemma read_upstream_segments:
  assumes "concat ss = message_head line hs @ body" and "line_ok line" and "list_all header_ok hs" and "hs \<noteq> []"
    and "length (message_head line hs) \<le> 64 * 1024" and "length (concat (butlast ss)) < length (message_head line hs)"
  shows "read_upstream_headers u ss =
     Some ((concat ss, announces u line hs ''transfer-encoding: chunked'', announces u line hs ''content-type: text/event-stream''), [])"
proof -
  let ?H = "message_head line hs"
  note layout = head_layout(1) [OF assms(2-4), of body] head_layout(4) [OF assms(2-4)]
  obtain k where k: "k \<le> length ss" "read_head (64 * 1024) [] ss = HeadAt (length ?H - 4) (concat (take k ss)) (drop k ss)"
    "length ?H \<le> length (concat (take k ss))"
    using read_head_segments [of "[]" ss "length ?H - 4" "64 * 1024"] assms(1,5) layout by fastforce
  have "k = length ss"
  proof (rule ccontr)
    assume "k \<noteq> length ss"
    then have "take k (butlast ss) = take k ss" using k(1) by (simp add: butlast_conv_take)
    then have "butlast ss = take k ss @ drop k (butlast ss)" by (metis append_take_drop_id)
    then have "length (concat (take k ss)) \<le> length (concat (butlast ss))" by (metis concat_append le_add1 length_append)
    with k(3) assms(6) show False by simp
  qed
  moreover have "take (length ?H - 4) (?H @ body) = join_with crlf (line # map header_line hs)"
    using head_section [of line hs] by (metis diff_le_self take_append diff_is_0_eq take0 append_Nil2 take_eq_Nil)
  ultimately show ?thesis
    unfolding read_upstream_headers_def k(2) using assms(1) by (simp add: announces_def Let_def)
qed

lemma tsm_not_special:
  "\<not> name_eq (''X-TSM-Trace-ID'', v) ''transfer-encoding''" "\<not> name_eq (''X-TSM-Action-Taken'', v) ''transfer-encoding''"
  by (simp_all add: name_eq_def to_lowercase_def char_lower_def ascii_upperp_def)

lemma chunked_tsm [simp]: "chunked_header u (hs @ tsm_headers rid action) = chunked_header u hs"
  by (simp add: chunked_header_def tsm_headers_def tsm_not_special)

lemma header_usize_append: "header_usize hs = Some k \<Longrightarrow> header_usize (hs @ hs') = Some k"
proof -
  assume k: "header_usize hs = Some k"
  then obtain h where "find_header hs ''content-length'' = Some h" by (auto simp: header_usize_def bind_eq_Some_conv)
  moreover then have "find_header (hs @ hs') ''content-length'' = Some h"
    unfolding find_header_def by (induction hs) (auto split: if_splits)
  ultimately show ?thesis using k by (simp add: header_usize_def)
qed

lemma header_ok_tsm: "ct_ok rid \<Longrightarrow> ct_ok action \<Longrightarrow> list_all header_ok (tsm_headers rid action)"
  by (simp add: tsm_headers_def header_ok_def ct_ok_def)

text \<open>What the forwarding does once a connection is there and the response head has been read.\<close>

lemma forward_relays:
  assumes "acquire (io_net e) now (w_pool w) t = (p, Inr g)" and "io_write_ok e (guard_fd g)"
    and "read_upstream_headers (io_unicode e)
           ((if pool_connections p = pool_connections (w_pool w) then unread w (guard_fd g) else [])
            @ io_reply e (guard_fd g) (build_upstream_request t body (build_auth_headers (io_vars e) t) trace rid))
         = Some ((hb, False, False), rest)" and "0 < n"
  shows "\<exists>usage. forward_to_target e now now' w n t body trace rid action =
     Some (\<lparr>w_pool = drop_guard now' p g, w_wire = AList.update (guard_fd g) rest (w_wire w)\<rparr>,
           \<lparr>r_out = inject_tsm_response_headers hb rid action, r_keep = True, r_usage = usage\<rparr>)"
  unfolding forward_to_target_def Let_def assms(1) prod.case sum.case assms(3) option.case
  using assms(2,4) by (simp add: client_write_all)


lemma acquire_new_pool:
  assumes "tcp_connect v (host t) (port t) = Inr f" and "\<not> tls t"
  shows "acquire v now (new_pool m) t =
     (\<lparr>idle = [(ut_name t, [])], max_idle = m, circuits = [(ut_name t, Closed 0)], circuit_blocked = 0,
       pool_connections = 1, closed_log = []\<rparr>,
      Inr \<lparr>inner = Some (new_conn now f dummy_app_keys (ut_name t) False), g_healthy = True\<rparr>)"
  using assms
  by (simp add: acquire_def new_pool_def new_breaker_def queue_of_def drain_expired_def close_conns_def
      open_connection_def record_circuit_def)

definition ollama_target :: upstream_target where
  "ollama_target = UPSTREAMS ! 2"

definition local_io :: "(str \<Rightarrow> str list) \<Rightarrow> io" where
  "local_io reply = \<lparr>io_net = \<lparr>tcp_connect = (\<lambda>_ _. Inr 7), tls_handshake = (\<lambda>_ _. Inl [])\<rparr>, io_vars = (\<lambda>_. None),
     io_unicode = plain_unicode, io_write_ok = (\<lambda>_. True), io_reply = (\<lambda>_. reply), io_parse = (\<lambda>_. None),
     io_print = (\<lambda>_. None), io_scan = (\<lambda>_. Some Clean)\<rparr>"

lemma local_acquire:
  "acquire (io_net (local_io reply)) now (new_pool m) ollama_target =
     (\<lparr>idle = [(''ollama'', [])], max_idle = m, circuits = [(''ollama'', Closed 0)], circuit_blocked = 0,
       pool_connections = 1, closed_log = []\<rparr>,
      Inr \<lparr>inner = Some (new_conn now 7 dummy_app_keys ''ollama'' False), g_healthy = True\<rparr>)"
  using acquire_new_pool [of "io_net (local_io reply)" ollama_target 7 now m]
  by (simp add: local_io_def ollama_target_def UPSTREAMS_def)

abbreviation ok_line :: str where "ok_line \<equiv> ''HTTP/1.1 200 OK''"
abbreviation ok_headers :: "h1_header list" where "ok_headers \<equiv> [(''Content-Length'', ''2'')]"

lemma ok_head_plain:
  "\<not> announces plain_unicode ok_line ok_headers ''transfer-encoding: chunked''"
  "\<not> announces plain_unicode ok_line ok_headers ''content-type: text/event-stream''"
proof -
  have low: "lowercase plain_unicode (join_with crlf (ok_line # map header_line ok_headers))
      = ''http/1.1 200 ok'' @ crlf @ ''content-length: 2''"
    by (simp add: lowercase_def header_line_def crlf_def to_lowercase_def char_lower_def ascii_upperp_def char_of_def bit_iff_odd)
  have u: "from_utf8 (join_with crlf (ok_line # map header_line ok_headers)) = Some (join_with crlf (ok_line # map header_line ok_headers))"
    by (rule from_utf8_ascii) (simp add: header_line_def crlf_def)
  show "\<not> announces plain_unicode ok_line ok_headers ''transfer-encoding: chunked''"
    "\<not> announces plain_unicode ok_line ok_headers ''content-type: text/event-stream''"
    unfolding announces_def u option.case low by (simp_all add: crlf_def starts_with_def)
qed


subsection \<open>Responses split over several reads\<close>

lemma read_upstream_first:
  assumes "line_ok line" and "list_all header_ok hs" and "hs \<noteq> []"
  shows "read_upstream_headers u ((message_head line hs @ x) # ss) =
     Some ((message_head line hs @ x, announces u line hs ''transfer-encoding: chunked'',
            announces u line hs ''content-type: text/event-stream''), ss)"
proof -
  have "take (length (message_head line hs) - 4) (message_head line hs @ x) = join_with crlf (line # map header_line hs)"
    using head_section [of line hs] by (metis diff_le_self take_append diff_is_0_eq take0 append_Nil2 take_eq_Nil)
  then show ?thesis
    by (simp add: read_upstream_headers_def head_layout(1) [OF assms] announces_def Let_def)
qed

lemma reacquire_idle:
  assumes "now2 < now1 + MAX_IDLE" and "0 < m" and "f = fd c" and "upstream c = ut_name t"
  shows "\<exists>p2 g2. acquire v now2 (drop_guard now1
       \<lparr>idle = [(ut_name t, [])], max_idle = m, circuits = [(ut_name t, Closed 0)], circuit_blocked = 0,
        pool_connections = 1, closed_log = []\<rparr> \<lparr>inner = Some c, g_healthy = True\<rparr>) t = (p2, Inr g2)
     \<and> guard_fd g2 = f \<and> pool_connections p2 = 1"
  using assms
  by (simp add: drop_guard_def return_conn_def refresh_def queue_of_def acquire_def Let_def drain_expired_def is_expired_def
      close_conns_def record_circuit_def guard_fd_def)

text \<open>
  C18: only the reads up to the one that completes the header section are relayed, and
  the connection goes back to the pool with the rest of the response unread on it.
  When the rest starts like a response, the next client of the upstream receives it as
  the answer to its own request, whatever the upstream replies to that request.
\<close>

theorem unread_body_answers_next_client:
  assumes "tcp_connect (io_net e) (host t) (port t) = Inr f" and "\<not> tls t" and "io_write_ok e f"
    and "io_reply e f (build_upstream_request t body1 (build_auth_headers (io_vars e) t) trace1 rid1)
           = [message_head line1 hs1 @ b1, message_head line2 hs2 @ b2]"
    and "line_ok line1" and "list_all header_ok hs1" and "hs1 \<noteq> []" and "line_ok line2" and "list_all header_ok hs2" and "hs2 \<noteq> []"
    and "\<forall>what\<in>{''transfer-encoding: chunked'', ''content-type: text/event-stream''}.
           \<not> announces (io_unicode e) line1 hs1 what \<and> \<not> announces (io_unicode e) line2 hs2 what"
    and "0 < m" and "0 < n" and "later < done1 + MAX_IDLE"
  shows "\<exists>w1 u1 w2 u2.
     forward_to_target e now done1 \<lparr>w_pool = new_pool m, w_wire = []\<rparr> n t body1 trace1 rid1 action1 =
       Some (w1, \<lparr>r_out = message_head line1 (hs1 @ tsm_headers rid1 action1) @ b1, r_keep = True, r_usage = u1\<rparr>)
     \<and> forward_to_target e later done2 w1 n t body2 trace2 rid2 action2 =
       Some (w2, \<lparr>r_out = message_head line2 (hs2 @ tsm_headers rid2 action2) @ b2, r_keep = True, r_usage = u2\<rparr>)"
proof -
  let ?c = "new_conn now f dummy_app_keys (ut_name t) False"
  let ?g = "\<lparr>inner = Some ?c, g_healthy = True\<rparr>"
  let ?p = "\<lparr>idle = [(ut_name t, [])], max_idle = m, circuits = [(ut_name t, Closed 0)], circuit_blocked = 0,
        pool_connections = 1, closed_log = []\<rparr>"
  let ?w = "\<lparr>w_pool = new_pool m, w_wire = []\<rparr>"
  let ?w1 = "\<lparr>w_pool = drop_guard done1 ?p ?g, w_wire = [(f, [message_head line2 hs2 @ b2])]\<rparr>"
  have fd: "guard_fd ?g = f" by (simp add: guard_fd_def new_conn_def)
  have ac1: "acquire (io_net e) now (w_pool ?w) t = (?p, Inr ?g)"
    using acquire_new_pool [OF assms(1,2)] by simp
  have rd1: "read_upstream_headers (io_unicode e)
       ((if pool_connections ?p = pool_connections (w_pool ?w) then unread ?w (guard_fd ?g) else [])
        @ io_reply e (guard_fd ?g) (build_upstream_request t body1 (build_auth_headers (io_vars e) t) trace1 rid1))
     = Some ((message_head line1 hs1 @ b1, False, False), [message_head line2 hs2 @ b2])"
    using assms(4,11) read_upstream_first [OF assms(5-7)] by (simp add: fd new_pool_def)
  obtain u1 where f1: "forward_to_target e now done1 ?w n t body1 trace1 rid1 action1 =
       Some (?w1, \<lparr>r_out = message_head line1 (hs1 @ tsm_headers rid1 action1) @ b1, r_keep = True, r_usage = u1\<rparr>)"
    using forward_relays [OF ac1 _ rd1 assms(13)] assms(3) fd inject_head [OF assms(5-7)] by fastforce
  obtain p2 g2 where ac2: "acquire (io_net e) later (w_pool ?w1) t = (p2, Inr g2)" "guard_fd g2 = f" "pool_connections p2 = 1"
    using reacquire_idle [OF assms(14,12), of f ?c t "io_net e"] by (auto simp: new_conn_def)
  have "pool_connections (w_pool ?w1) = 1"
    by (simp add: drop_guard_def return_conn_def Let_def close_conns_def)
  then have rd2: "read_upstream_headers (io_unicode e)
       ((if pool_connections p2 = pool_connections (w_pool ?w1) then unread ?w1 (guard_fd g2) else [])
        @ io_reply e (guard_fd g2) (build_upstream_request t body2 (build_auth_headers (io_vars e) t) trace2 rid2))
     = Some ((message_head line2 hs2 @ b2, False, False), io_reply e f (build_upstream_request t body2 (build_auth_headers (io_vars e) t) trace2 rid2))"
    using assms(11) ac2(2,3) read_upstream_first [OF assms(8-10)] by (simp add: unread_def)
  show ?thesis
    using f1 forward_relays [OF ac2(1) _ rd2 assms(13), of done2 action2] assms(3) ac2(2) inject_head [OF assms(8-10)]
    by fastforce
qed

theorem unread_body_answers_next_client_witness:
  "\<exists>w1 u1 w2 u2.
     forward_to_target (local_io (\<lambda>_. [message_head ok_line ok_headers @ ''a'', message_head ok_line ok_headers @ ''b'']))
       0 1 \<lparr>w_pool = new_pool 8, w_wire = []\<rparr> 5 ollama_target ''{}'' [] ''tsm-1'' ''allow'' =
       Some (w1, \<lparr>r_out = message_head ok_line (ok_headers @ tsm_headers ''tsm-1'' ''allow'') @ ''a'', r_keep = True, r_usage = u1\<rparr>)
     \<and> forward_to_target (local_io (\<lambda>_. [message_head ok_line ok_headers @ ''a'', message_head ok_line ok_headers @ ''b'']))
       2 3 w1 5 ollama_target ''[]'' [] ''tsm-2'' ''allow'' =
       Some (w2, \<lparr>r_out = message_head ok_line (ok_headers @ tsm_headers ''tsm-2'' ''allow'') @ ''b'', r_keep = True, r_usage = u2\<rparr>)"
  by (rule unread_body_answers_next_client [where f = 7 and m = 8])
     (simp_all add: local_io_def ollama_target_def UPSTREAMS_def MAX_IDLE_def ok_head_plain line_ok_def header_ok_def ascii_space_def)

subsection \<open>Event streams\<close>

lemma stream_events_no_done:
  "list_all (\<lambda>ev. \<not> is_done ev) evs \<Longrightarrow> push_all (io_parse e) k b evs = (b', out) \<Longrightarrow>
     stream_events e k b evs = Some (b', map encode out, False)"
  by (induction evs arbitrary: b out) (auto split: prod.splits)

lemma stream_loop_one_read:
  assumes "list_all event_ok evs" and "list_all (\<lambda>ev. \<not> is_done ev \<and> ev_retry ev = None) evs"
    and "from_utf8 (concat (map encode evs)) = Some (concat (map encode evs))"
    and "push_all (io_parse e) k new_buffer evs = (b', out)" and "length out \<le> n"
  shows "stream_loop e k n new_buffer [] [concat (map encode evs)] = Some (concat (map encode out), True)"
proof -
  have "map (ev_retry_update (\<lambda>_. None)) evs = evs"
    using assms(2) by (intro map_idI) (auto simp: list_all_iff)
  then have "parse_events (concat (map encode evs)) = (evs, length (concat (map encode evs)))"
    using parse_loop_events [OF assms(1), of 0 "[]"] assms(3) by (simp add: parse_events_def)
  moreover have "stream_events e k new_buffer evs = Some (b', map encode out, False)"
    using assms(2,4) by (intro stream_events_no_done) (auto simp: list_all_iff)
  ultimately show ?thesis using assms(5) by (simp add: client_write_all)
qed

text \<open>
  Only the end marker \<open>[DONE]\<close> flushes the redaction buffer. A stream that ends
  without one, as those of the Anthropic interface do, reaches the client without the
  events whose text lies in the last 200 bytes: exactly the events that the window
  had released are written, and the rest is dropped although the relay reports success.
\<close>

lemma stream_end_drops_tail:
  assumes "acquire (io_net e) now (w_pool w) t = (p, Inr g)" and "io_write_ok e (guard_fd g)" and "unread w (guard_fd g) = []"
    and "io_reply e (guard_fd g) (build_upstream_request t body (build_auth_headers (io_vars e) t) trace rid)
           = [message_head line hs, concat (map encode evs)]"
    and "line_ok line" and "list_all header_ok hs" and "hs \<noteq> []"
    and "announces (io_unicode e) line hs ''content-type: text/event-stream''"
    and "list_all event_ok evs" and "list_all (\<lambda>ev. \<not> is_done ev \<and> ev_retry ev = None) evs"
    and "from_utf8 (concat (map encode evs)) = Some (concat (map encode evs))" and "length evs < n"
  shows "map_option snd (forward_to_target e now now' w n t body trace rid action) =
     Some \<lparr>r_out = message_head line (hs @ tsm_headers rid action) @ concat (map encode (map fst
               (takeWhile (\<lambda>(_, _, off). off \<le> length (stream_text (io_parse e) (kind_of t) evs) - 200)
                  (entries (io_parse e) (kind_of t) 0 evs)))),
           r_keep = True, r_usage = None\<rparr>"
proof -
  obtain b' out where po: "push_all (io_parse e) (kind_of t) new_buffer evs = (b', out)" by fastforce
  have "buffer_after (io_parse e) (kind_of t) [] new_buffer"
    by (simp add: buffer_after_def new_buffer_def stream_text_def)
  from push_all_after [OF this po]
  have out: "out = map fst (takeWhile (\<lambda>(_, _, off). off \<le> length (stream_text (io_parse e) (kind_of t) evs) - 200)
      (entries (io_parse e) (kind_of t) 0 evs))"
    unfolding safe_eq [symmetric] STREAM_LOOKAHEAD_def by simp
  have "length out \<le> length evs"
    unfolding out by (metis length_map length_takeWhile_le map_fst_entries)
  then have loop: "stream_loop e (kind_of t) (n - 1) new_buffer [] [concat (map encode evs)] = Some (concat (map encode out), True)"
    using assms(12) by (intro stream_loop_one_read [OF assms(9-11) po]) simp
  obtain n' where n: "n = Suc n'" using assms(12) by (cases n) auto
  have rd: "read_upstream_headers (io_unicode e) (message_head line hs # ss)
     = Some ((message_head line hs, announces (io_unicode e) line hs ''transfer-encoding: chunked'', True), ss)" for ss
    using read_upstream_first [OF assms(5-7), of "io_unicode e" "[]"] assms(8) by simp
  have "inject_tsm_response_headers (message_head line hs) rid action = message_head line (hs @ tsm_headers rid action)"
    using inject_head [OF assms(5-7), of "[]"] by simp
  then show ?thesis
    unfolding forward_to_target_def Let_def assms(1) prod.case sum.case
    using assms(2-4) loop n by (simp add: rd forward_streaming_response_def out [symmetric])
qed

abbreviation sse_headers :: "h1_header list" where "sse_headers \<equiv> [(''Content-Type'', ''text/event-stream'')]"

lemma sse_head_streams: "announces plain_unicode ok_line sse_headers ''content-type: text/event-stream''"
proof -
  have low: "lowercase plain_unicode (join_with crlf (ok_line # map header_line sse_headers))
      = ''http/1.1 200 ok'' @ crlf @ ''content-type: text/event-stream''"
    by (simp add: lowercase_def header_line_def crlf_def to_lowercase_def char_lower_def ascii_upperp_def char_of_def bit_iff_odd)
  have u: "from_utf8 (join_with crlf (ok_line # map header_line sse_headers)) = Some (join_with crlf (ok_line # map header_line sse_headers))"
    by (rule from_utf8_ascii) (simp add: header_line_def crlf_def)
  show ?thesis unfolding announces_def u option.case low by (simp add: crlf_def starts_with_def)
qed

end
