(* ===== verification/Govern.thy ===== *)
theory Govern
  imports Forward AiReq Policy Store
begin

text \<open>
  The governance decision of \<open>pipeline.rs\<close>: triage of ambiguous texts, the policy
  evaluation, the session pin, the redaction that is resolved before anything is sent,
  and the action on the request. The ONNX classifier and the remote detector are
  parameters; so is the shared session store, whose laws are those of the store
  components.
\<close>

subsection \<open>Triage (\<open>detect/onnx_engine.rs\<close>, \<open>call_python_detector\<close>)\<close>

datatype security_label = OClean | OPiiLeak | OJailbreak | OSecretExposure

record onnx_verdict =
  ov_label :: security_label
  ov_confidence :: f64
  ov_risk :: f64

definition is_actionable :: "onnx_verdict \<Rightarrow> bool" where
  "is_actionable v = fge (ov_confidence v) (of_exact (85 / 100))"

definition needs_escalation :: "onnx_verdict \<Rightarrow> bool" where
  "needs_escalation v = (flt (ov_confidence v) (of_exact (70 / 100)) \<and> ov_label v \<noteq> OClean)"

definition parse_detector_response :: "str \<Rightarrow> f64 \<Rightarrow> str list \<Rightarrow> str \<Rightarrow> str \<Rightarrow> detect_verdict option" where
  "parse_detector_response action risk types sev orig_text =
     Some (if action = ''block'' then VBlock types risk sev []
           else if action = ''redact'' then VRedact types risk orig_text
           else if action = ''route_local'' then VRouteLocal types risk []
           else Clean)"

text \<open>\<open>trim_start_matches\<close> on a string pattern.\<close>

function strip_all :: "str \<Rightarrow> str \<Rightarrow> str" where
  "strip_all p s = (if p \<noteq> [] \<and> starts_with s p then strip_all p (drop (length p) s) else s)"
  by auto
termination
proof (relation "measure (\<lambda>(p, s). length s)")
  fix p s :: str
  assume a: "p \<noteq> [] \<and> starts_with s p"
  then have "length p \<le> length s" unfolding starts_with_def by (metis length_take min.cobounded1)
  with a show "((p, drop (length p) s), p, s) \<in> measure (\<lambda>(p, s). length s)"
    by (cases p) auto
qed simp

declare strip_all.simps [simp del]

definition detector_host :: "str \<Rightarrow> str" where
  "detector_host url =
     (let s = strip_all ''https://'' (strip_all ''http://'' url)
      in case split_once (CHR ''/'') s of Some (h, _) \<Rightarrow> h | None \<Rightarrow> s)"

definition detector_body :: "str \<Rightarrow> str \<Rightarrow> str \<Rightarrow> json" where
  "detector_body txt m org =
     JObj [(''model'', JStr m), (''messages'', JArr [JObj [(''role'', JStr ''user''), (''content'', JStr txt)]]),
           (''prompt'', JStr txt), (''metadata'', JObj [(''org_id'', JStr org)])]"

definition detector_request :: "str \<Rightarrow> str \<Rightarrow> (str \<times> str) list \<Rightarrow> str" where
  "detector_request host_port body trace_hdrs =
     ''POST /detect HTTP/1.1'' @ crlf @ ''Host: '' @ host_port @ crlf @ ''Content-Type: application/json'' @ crlf
     @ ''Content-Length: '' @ dec_digits (length body) @ crlf
     @ concat (map (\<lambda>(k, v). k @ '': '' @ v @ crlf) trace_hdrs) @ crlf @ body"

text \<open>
  \<open>exchange\<close>: the first read of the reply to a request sent to a host, if the connect,
  the write and the read succeed. The reply is read once, so a reply that is split is cut.
\<close>

definition call_detector_http ::
  "(str \<Rightarrow> str \<Rightarrow> str option) \<Rightarrow> (str \<Rightarrow> json option) \<Rightarrow> (json \<Rightarrow> str)
   \<Rightarrow> str \<Rightarrow> str \<Rightarrow> str \<Rightarrow> str \<Rightarrow> (str \<times> str) list \<Rightarrow> detect_verdict option" where
  "call_detector_http exchange parse to_string url txt m org trace_hdrs =
     Option.bind (exchange (detector_host url)
                    (detector_request (detector_host url) (to_string (detector_body txt m org)) trace_hdrs)) (\<lambda>resp.
     Option.bind (from_utf8 (take 16384 resp)) (\<lambda>s.
     Option.bind (find_double_crlf s) (\<lambda>h.
     Option.bind (parse (drop (h + 4) s)) (\<lambda>v.
       parse_detector_response
         (case as_str (jindex v ''action'') of Some a \<Rightarrow> a | None \<Rightarrow> ''allow'')
         (case as_f64 (jindex v ''risk_score'') of Some r \<Rightarrow> r | None \<Rightarrow> Fin 0)
         (case as_array (jindex v ''pii_types'') of Some xs \<Rightarrow> List.map_filter as_str xs | None \<Rightarrow> [])
         (case as_str (jindex v ''severity'') of Some x \<Rightarrow> x | None \<Rightarrow> ''none'')
         txt))))"

definition triage :: "(str \<Rightarrow> onnx_verdict) \<Rightarrow> (str \<Rightarrow> detect_verdict option) \<Rightarrow> str \<Rightarrow> detect_verdict \<Rightarrow> detect_verdict" where
  "triage classify python txt fast =
     (case fast of
        Ambiguous fast_risk _ \<Rightarrow>
          (let v = classify txt in
           if is_actionable v
           then (case ov_label v of
                   OClean \<Rightarrow> Clean
                 | OJailbreak \<Rightarrow> VBlock [''JAILBREAK''] (fmin (fmul (ov_risk v) (Fin 100)) (Fin 100)) ''critical'' []
                 | OPiiLeak \<Rightarrow> Ambiguous (fmax (fmul (ov_risk v) (Fin 100)) fast_risk) NerKeywords
                 | OSecretExposure \<Rightarrow> VBlock [''ENCODED_SECRET''] (fmin (fmul (ov_risk v) (Fin 100)) (Fin 100)) ''critical'' [])
           else if needs_escalation v
           then (case python txt of Some w \<Rightarrow> w | None \<Rightarrow> fast)
           else fast)
      | _ \<Rightarrow> fast)"

subsection \<open>Verdicts and labels\<close>

fun extract_verdict_metadata :: "detect_verdict \<Rightarrow> str list \<times> f64 \<times> redact_span list" where
  "extract_verdict_metadata Clean = ([], Fin 0, [])"
| "extract_verdict_metadata (VBlock types risk _ spans) = (types, risk, spans)"
| "extract_verdict_metadata (VRedact types risk _) = (types, risk, [])"
| "extract_verdict_metadata (VRouteLocal types risk spans) = (types, risk, spans)"
| "extract_verdict_metadata (Ambiguous risk reason) =
     ((case reason of NerKeywords \<Rightarrow> [''NER_REVIEW''] | _ \<Rightarrow> []), risk, [])"

definition derive_rule_name :: "str list \<Rightarrow> str" where
  "derive_rule_name types =
     (if ''JAILBREAK'' \<in> set types then ''block-jailbreak-p30''
      else if list_ex (\<lambda>t. ends_with t ''_KEY'' \<or> ends_with t ''_TOKEN'' \<or> t = ''PRIVATE_KEY'') types
      then ''block-critical-secrets-p20''
      else if list_ex (\<lambda>t. t = ''SSN'' \<or> t = ''CREDIT_CARD'') types then ''block-critical-pii-p10''
      else ''block-sensitive-data-p50'')"

definition estimate_prompt_tokens :: "str \<Rightarrow> nat" where
  "estimate_prompt_tokens txt = ((length (chars txt) + 3) div 4) mod 2 ^ 32"

definition infer_provider :: "str \<Rightarrow> str" where
  "infer_provider m =
     (if starts_with m ''gpt'' \<or> starts_with m ''o1'' \<or> starts_with m ''o3'' then ''openai''
      else if starts_with m ''claude'' then ''anthropic''
      else if starts_with m ''gemini'' \<or> starts_with m ''palm'' then ''google''
      else if starts_with m ''mistral'' \<or> starts_with m ''mixtral'' then ''mistral''
      else if starts_with m ''command'' then ''cohere''
      else if contains m ''llama'' \<or> contains m ''ollama'' then ''local''
      else ''unknown'')"

fun infer_detection_stage :: "detect_verdict \<Rightarrow> str" where
  "infer_detection_stage Clean = ''prefilter''"
| "infer_detection_stage (VBlock types _ _ _) = (if list_ex (\<lambda>t. starts_with t ''BPE:'') types then ''bpe'' else ''regex'')"
| "infer_detection_stage (VRedact _ _ _) = ''regex''"
| "infer_detection_stage (VRouteLocal _ _ _) = ''regex''"
| "infer_detection_stage (Ambiguous _ _) = ''tier1''"

fun final_action :: "action \<Rightarrow> str" where
  "final_action Allow = ''allow''"
| "final_action (Block _) = ''block''"
| "final_action Redact = ''redact''"
| "final_action RouteLocal = ''route_local''"
| "final_action (Quarantine _) = ''quarantine''"
| "final_action _ = ''allow''"

subsection \<open>The decision\<close>

text \<open>\<open>dpin\<close>: the shared store's answer for a session and whether this turn is sensitive.\<close>

record 'd gov =
  g_engine :: policy_engine
  g_dist :: 'd
  g_router :: session_router

record decision =
  d_result :: policy_result
  d_text :: "str option"
  d_types :: "str list"
  d_risk :: f64
  d_spans :: "redact_span list"
  d_pin :: route_pin

definition sensitive_action :: "action \<Rightarrow> bool" where
  "sensitive_action a = (case a of Block _ \<Rightarrow> True | RouteLocal \<Rightarrow> True | Quarantine _ \<Rightarrow> True | _ \<Rightarrow> False)"

definition eval_ctx :: "detect_verdict \<Rightarrow> str \<Rightarrow> str \<Rightarrow> eval_context" where
  "eval_ctx v m org =
     (case extract_verdict_metadata v of (types, risk, _) \<Rightarrow>
        \<lparr>pii_types = types, risk_score = risk, severity = sev_as_str (from_risk risk), model = m, org_id = org, metadata = []\<rparr>)"

definition pin_override :: "route_pin \<Rightarrow> policy_result \<Rightarrow> policy_result" where
  "pin_override p r =
     (if p = Local \<and> result_action r = Allow
      then \<lparr>result_action = RouteLocal, result_rule = ''session-pinned-local''\<rparr> else r)"

text \<open>The redacted text, \<open>Some None\<close> when there is none; \<open>None\<close> is a panic of the redaction.\<close>

definition redaction_text :: "detect_verdict \<Rightarrow> str \<Rightarrow> redact_span list \<Rightarrow> str option option" where
  "redaction_text v txt spans =
     (if spans \<noteq> [] then map_option Some (redact txt spans)
      else case v of VRedact _ _ r \<Rightarrow> Some (if r \<noteq> txt then Some r else None) | _ \<Rightarrow> Some None)"

definition resolve_redaction :: "detect_verdict \<Rightarrow> str \<Rightarrow> redact_span list \<Rightarrow> policy_result \<Rightarrow> (policy_result \<times> str option) option" where
  "resolve_redaction v txt spans r =
     (if result_action r = Redact
      then map_option (\<lambda>rt. case rt of
             Some t \<Rightarrow> (r, Some t)
           | None \<Rightarrow> (r\<lparr>result_action := Block ''Redaction required but no spans available (fail-secure)''\<rparr>, None))
             (redaction_text v txt spans)
      else Some (r, None))"

definition decide_request ::
  "unicode \<Rightarrow> ('d \<Rightarrow> str \<Rightarrow> bool \<Rightarrow> 'd \<times> route_pin) \<Rightarrow> instant \<Rightarrow> 'd gov \<Rightarrow> detect_verdict \<Rightarrow> str \<Rightarrow> str \<Rightarrow> str \<Rightarrow> str
   \<Rightarrow> ('d gov \<times> decision) option" where
  "decide_request u dpin now g v txt m org sid =
     (case extract_verdict_metadata v of (types, risk, spans) \<Rightarrow>
        let r0 = evaluate u (g_engine g) (eval_ctx v m org);
            sensitive = sensitive_action (result_action r0);
            (dist', p) = dpin (g_dist g) sid sensitive;
            router' = fst (route (g_router g) now sid sensitive)
        in map_option (\<lambda>(r, rt). (g\<lparr>g_dist := dist', g_router := router'\<rparr>,
              \<lparr>d_result = r, d_text = rt, d_types = types, d_risk = risk, d_spans = spans, d_pin = p\<rparr>))
             (resolve_redaction v txt spans (pin_override p r0)))"

subsection \<open>What happens to the request\<close>

datatype disposition =
    Refuse str
  | ForwardRedacted str
  | ForwardLocal upstream_target
  | Hold str
  | ForwardOriginal

definition disposition_of :: "str \<Rightarrow> decision \<Rightarrow> disposition" where
  "disposition_of txt d =
     (case result_action (d_result d) of
        Block reason \<Rightarrow> Refuse reason
      | Redact \<Rightarrow> ForwardRedacted (case d_text d of Some t \<Rightarrow> t | None \<Rightarrow> txt)
      | RouteLocal \<Rightarrow>
          (case (case resolve_named ''ollama'' of Some t \<Rightarrow> Some t | None \<Rightarrow> resolve_named ''local'') of
             Some t \<Rightarrow> ForwardLocal t | None \<Rightarrow> ForwardOriginal)
      | Quarantine reason \<Rightarrow> Hold reason
      | _ \<Rightarrow> ForwardOriginal)"

text \<open>The \<open>Debug\<close> rendering of a string; beyond ASCII it is a parameter.\<close>

definition escape_char :: "char \<Rightarrow> str" where
  "escape_char c =
     (if c = CHR 0x22 then [CHR 0x5C, CHR 0x22] else if c = CHR 0x5C then [CHR 0x5C, CHR 0x5C]
      else if c = CHR 0x0A then CHR 0x5C # ''n'' else if c = CHR 0x0D then CHR 0x5C # ''r''
      else if c = CHR 0x09 then CHR 0x5C # ''t'' else if c = CHR 0x00 then CHR 0x5C # ''0''
      else if (of_char c :: nat) < 16 then CHR 0x5C # ''u{'' @ [hex_digit (of_char c)] @ ''}''
      else if (of_char c :: nat) < 32 \<or> (of_char c :: nat) = 127
      then CHR 0x5C # ''u{'' @ [hex_digit (of_char c div 16), hex_digit (of_char c mod 16)] @ ''}''
      else [c])"

definition debug_str :: "(str \<Rightarrow> str) \<Rightarrow> str \<Rightarrow> str" where
  "debug_str dbg s = (if is_ascii s then quoted (concat (map escape_char s)) else dbg s)"

definition quarantine_body :: "(str \<Rightarrow> str) \<Rightarrow> str \<Rightarrow> str \<Rightarrow> str" where
  "quarantine_body dbg reason request_id =
     ''{'' @ quoted ''tsm'' @ '':{'' @ quoted ''status'' @ '':'' @ quoted ''quarantined'' @ '','' @ quoted ''reason'' @ '':''
     @ debug_str dbg reason @ '','' @ quoted ''request_id'' @ '':'' @ debug_str dbg request_id @ '','' @ quoted ''message'' @ '':''
     @ quoted ''Request held for manual review; not forwarded to a model.'' @ ''}}''"

definition print_or_empty :: "(json \<Rightarrow> str option) \<Rightarrow> json \<Rightarrow> str" where
  "print_or_empty print v = (case print v of Some s \<Rightarrow> s | None \<Rightarrow> [])"

text \<open>The last stage: answer or forward. \<open>keep\<close> is whether the client asked to keep the connection.\<close>

definition perform ::
  "io \<Rightarrow> (str \<Rightarrow> str) \<Rightarrow> instant \<Rightarrow> instant \<Rightarrow> world \<Rightarrow> nat \<Rightarrow> ai_request \<Rightarrow> str \<Rightarrow> bool \<Rightarrow> (str \<times> str) list \<Rightarrow> str
   \<Rightarrow> decision \<Rightarrow> (world \<times> relay) option" where
  "perform e dbg now now' w n ai body keep trace_hdrs request_id d =
     (let act = final_action (result_action (d_result d));
          answer = (\<lambda>resp. Some (w, \<lparr>r_out = fst (snd (client_write n [resp])), r_keep = keep, r_usage = None\<rparr>))
      in case disposition_of (user_text ai) d of
           Refuse _ \<Rightarrow> answer (build_response 400 ''Bad Request'' ''application/json''
             (print_or_empty (io_print e) (build_block_response ai (d_types d) (d_risk d) (derive_rule_name (d_types d))
                (map (\<lambda>s. (sp_start s, sp_end s, sp_type s)) (d_spans d)))))
         | ForwardRedacted t \<Rightarrow>
             forward_request e now now' w n (req_model ai) (redacted_bytes (io_print e) ai t) trace_hdrs request_id act
         | ForwardLocal t \<Rightarrow> forward_to_target e now now' w n t body trace_hdrs request_id act
         | Hold reason \<Rightarrow> answer (build_response 202 ''Accepted'' ''application/json'' (quarantine_body dbg reason request_id))
         | ForwardOriginal \<Rightarrow> forward_request e now now' w n (req_model ai) body trace_hdrs request_id act)"

subsection \<open>Which requests leave unchanged\<close>

lemma decide_request_cases:
  assumes "decide_request u dpin now g v txt m org sid = Some (g', d)"
  obtains r where "resolve_redaction v txt (d_spans d) (pin_override (d_pin d) (evaluate u (g_engine g) (eval_ctx v m org))) = Some (r, d_text d)"
    and "d_result d = r" and "extract_verdict_metadata v = (d_types d, d_risk d, d_spans d)"
    and "d_pin d = snd (dpin (g_dist g) sid (sensitive_action (result_action (evaluate u (g_engine g) (eval_ctx v m org)))))"
    and "g' = g\<lparr>g_dist := fst (dpin (g_dist g) sid (sensitive_action (result_action (evaluate u (g_engine g) (eval_ctx v m org))))),
               g_router := fst (route (g_router g) now sid (sensitive_action (result_action (evaluate u (g_engine g) (eval_ctx v m org)))))\<rparr>"
  using assms unfolding decide_request_def Let_def by (auto split: prod.splits)

lemma eval_ctx_fields:
  assumes "extract_verdict_metadata v = (types, risk, spans)"
  shows "pii_types (eval_ctx v m org) = types" "risk_score (eval_ctx v m org) = risk"
    "severity (eval_ctx v m org) = sev_as_str (from_risk risk)"
  using assms by (simp_all add: eval_ctx_def)

lemma severity_critical_iff: "sev_as_str (from_risk r) = ''critical'' \<longleftrightarrow> r = NaN \<or> fge r (Fin 80)"
  by (cases r) (auto simp: from_risk_def flt_def feq_def)

lemma local_target: "resolve_named ''ollama'' = Some (UPSTREAMS ! 2)"
  by (simp add: resolve_named_def find_target_simps)

lemma disposition_simps:
  "disposition_of txt d = ForwardOriginal \<longleftrightarrow> result_action (d_result d) \<in> {Allow, RequireDetector} \<union> range AuditAndContinue"
  "disposition_of txt d = ForwardLocal t \<longleftrightarrow> result_action (d_result d) = RouteLocal \<and> t = UPSTREAMS ! 2"
  by (auto simp: disposition_of_def local_target split: action.splits)

lemma resolve_redaction_action:
  "resolve_redaction v txt spans r = Some (r', rt) \<Longrightarrow> result_action r \<noteq> Redact \<Longrightarrow> r' = r \<and> rt = None"
  "resolve_redaction v txt spans r = Some (r', rt) \<Longrightarrow> result_action r = Redact \<Longrightarrow>
     (\<exists>t. rt = Some t \<and> r' = r \<and> redaction_text v txt spans = Some (Some t))
     \<or> (rt = None \<and> redaction_text v txt spans = Some None \<and> (\<exists>reason. result_action r' = Block reason))"
  by (auto simp: resolve_redaction_def split: option.splits)

lemma pin_override_redact [simp]: "result_action (pin_override p r) = Redact \<longleftrightarrow> result_action r = Redact"
  by (simp add: pin_override_def)

lemma original_iff_allow:
  assumes "g_engine g = load_builtin_rules new_engine" and "decide_request u dpin now g v txt m org sid = Some (g', d)"
  shows "disposition_of txt d = ForwardOriginal \<longleftrightarrow>
     d_pin d = Cloud \<and> result_action (evaluate u (load_builtin_rules new_engine) (eval_ctx v m org)) = Allow"
proof -
  let ?r0 = "evaluate u (g_engine g) (eval_ctx v m org)"
  obtain r where r: "resolve_redaction v txt (d_spans d) (pin_override (d_pin d) ?r0) = Some (r, d_text d)" "d_result d = r"
    using decide_request_cases [OF assms(2)] by metis
  have act: "result_action ?r0 \<noteq> RequireDetector" "result_action ?r0 \<noteq> AuditAndContinue ts" for ts
    unfolding assms(1) builtin_eval by (simp_all add: Let_def)
  have "disposition_of txt d = ForwardOriginal \<longleftrightarrow> result_action (pin_override (d_pin d) ?r0) = Allow"
    using resolve_redaction_action [OF r(1)] act r(2)
    by (cases "result_action (pin_override (d_pin d) ?r0) = Redact")
       (auto simp: disposition_simps pin_override_def split: if_splits)
  also have "\<dots> \<longleftrightarrow> d_pin d = Cloud \<and> result_action ?r0 = Allow"
    by (cases "d_pin d") (auto simp: pin_override_def)
  finally show ?thesis unfolding assms(1) .
qed

text \<open>
  C19: with the built-in policy the unmodified request is sent to the model's provider
  exactly when the session is not pinned local and the detector's types and score are
  those of a harmless text: no jailbreak or review mark, no contact data, and a score
  below 25 or from 35 up to 60. The verdict itself plays no part: a text for which the
  detector's answer is to block, a lone access token with a score of 57 for
  instance, leaves unmodified. A score that is not a number passes unless a secret was found.
\<close>

theorem original_leaves_iff:
  assumes "g_engine g = load_builtin_rules new_engine" and "decide_request u dpin now g v txt m org sid = Some (g', d)"
  shows "disposition_of txt d = ForwardOriginal \<longleftrightarrow>
     d_pin d = Cloud \<and> ''JAILBREAK'' \<notin> set (d_types d) \<and> ''NER_REVIEW'' \<notin> set (d_types d)
     \<and> (if d_risk d = NaN then set secret_types \<inter> set (d_types d) = {}
        else set contact_types \<inter> set (d_types d) = {}
          \<and> (flt (d_risk d) (Fin 25) \<or> fge (d_risk d) (Fin 35) \<and> flt (d_risk d) (Fin 60)))"
proof -
  have md: "extract_verdict_metadata v = (d_types d, d_risk d, d_spans d)"
    using decide_request_cases [OF assms(2)] by metis
  show ?thesis
    unfolding original_iff_allow [OF assms] builtin_eval eval_ctx_fields [OF md] severity_critical_iff Let_def
    by (cases "d_risk d") (auto simp: list_ex_iff flt_def feq_def contact_types_def)
qed

definition fresh_gov :: "memory_store gov" where
  "fresh_gov = \<lparr>g_engine = load_builtin_rules new_engine, g_dist = new_memory_store, g_router = new_router\<rparr>"

definition memory_pin :: "instant \<Rightarrow> memory_store \<Rightarrow> str \<Rightarrow> bool \<Rightarrow> memory_store \<times> route_pin" where
  "memory_pin now st sid sensitive = session_pin st now sid sensitive"

definition token_verdict :: detect_verdict where
  "token_verdict = VBlock [''GITHUB_TOKEN''] (Fin 57) ''critical'' [\<lparr>sp_start = 0, sp_end = 40, sp_type = ''GITHUB_TOKEN''\<rparr>]"

lemma decide_unredacted:
  assumes "result_action (evaluate u (g_engine g) (eval_ctx v m org)) \<noteq> Redact"
  shows "\<exists>g' d. decide_request u dpin now g v tx m org sid = Some (g', d)
     \<and> extract_verdict_metadata v = (d_types d, d_risk d, d_spans d)
     \<and> d_pin d = snd (dpin (g_dist g) sid (sensitive_action (result_action (evaluate u (g_engine g) (eval_ctx v m org)))))"
  using assms unfolding decide_request_def Let_def resolve_redaction_def
  by (auto split: prod.split)

theorem original_leaves_iff_witness:
  "\<exists>g' d. decide_request plain_unicode (memory_pin 0) 0 fresh_gov token_verdict ''x'' ''gpt-4'' ''o'' ''s'' = Some (g', d)
     \<and> disposition_of ''x'' d = ForwardOriginal"
proof -
  let ?r = "evaluate plain_unicode (g_engine fresh_gov) (eval_ctx token_verdict ''gpt-4'' ''o'')"
  have a: "result_action ?r = Allow"
    unfolding fresh_gov_def gov.simps builtin_eval
    by (simp add: eval_ctx_def token_verdict_def Let_def contact_types_def from_risk_def)
  obtain g' d where d: "decide_request plain_unicode (memory_pin 0) 0 fresh_gov token_verdict ''x'' ''gpt-4'' ''o'' ''s'' = Some (g', d)"
    "extract_verdict_metadata token_verdict = (d_types d, d_risk d, d_spans d)"
    "d_pin d = snd (memory_pin 0 (g_dist fresh_gov) ''s'' (sensitive_action (result_action ?r)))"
    using decide_unredacted [of plain_unicode fresh_gov token_verdict "''gpt-4''" "''o''"] a by force
  have dt: "d_types d = [''GITHUB_TOKEN'']" "d_risk d = Fin 57" using d(2) by (simp_all add: token_verdict_def)
  have "d_pin d = Cloud"
    unfolding d(3) a by (simp add: memory_pin_def fresh_gov_def new_memory_store_def session_pin_def sensitive_action_def
        evict_sessions_def MAX_SESSION_SLOTS_def)
  then have "disposition_of ''x'' d = ForwardOriginal"
    using original_leaves_iff [OF _ d(1)] d(2)
    by (simp add: fresh_gov_def dt contact_types_def)
  with d(1) show ?thesis by blast
qed



subsection \<open>Confidentiality of a redacted request\<close>

lemma decide_redacted:
  assumes "extract_verdict_metadata v = (types, risk, spans)" and "spans \<noteq> []" and "redact txt spans = Some t"
    and "result_action (evaluate u (g_engine g) (eval_ctx v m org)) = Redact"
  shows "\<exists>d. decide_request u dpin now g v txt m org sid =
       Some (g\<lparr>g_dist := fst (dpin (g_dist g) sid False), g_router := fst (route (g_router g) now sid False)\<rparr>, d)
     \<and> result_action (d_result d) = Redact \<and> d_text d = Some t"
  using assms
  by (cases "dpin (g_dist g) sid False")
     (simp add: decide_request_def Let_def resolve_redaction_def redaction_text_def sensitive_action_def)

lemma req_model_erase: "req_model (erase_scanned ai) = req_model ai"
  by (cases ai) simp_all


definition chat_of :: "str \<Rightarrow> ai_request" where
  "chat_of s = OpenAIReq (sample_request\<lparr>messages := [\<lparr>msg_role = ''user'', msg_content = CText s, msg_name = None\<rparr>]\<rparr>)"

definition ssn_verdict :: detect_verdict where
  "ssn_verdict = VBlock [''SSN''] (Fin 70) ''critical'' [\<lparr>sp_start = 3, sp_end = 4, sp_type = ''SSN''\<rparr>]"


subsection \<open>Sessions over several turns\<close>

record turn =
  t_now :: instant
  t_verdict :: detect_verdict
  t_text :: str
  t_model :: str
  t_org :: str
  t_sid :: str

fun gov_run :: "unicode \<Rightarrow> memory_store gov \<Rightarrow> turn list \<Rightarrow> decision list option" where
  "gov_run u g [] = Some []"
| "gov_run u g (x # xs) =
     (case decide_request u (memory_pin (t_now x)) (t_now x) g (t_verdict x) (t_text x) (t_model x) (t_org x) (t_sid x) of
        None \<Rightarrow> None
      | Some (g', d) \<Rightarrow> map_option (Cons d) (gov_run u g' xs))"

definition flagged :: "unicode \<Rightarrow> policy_engine \<Rightarrow> turn \<Rightarrow> bool" where
  "flagged u eng x = sensitive_action (result_action (evaluate u eng (eval_ctx (t_verdict x) (t_model x) (t_org x))))"

definition pin_request :: "unicode \<Rightarrow> policy_engine \<Rightarrow> turn \<Rightarrow> instant \<times> str \<times> bool" where
  "pin_request u eng x = (t_now x, t_sid x, flagged u eng x)"

text \<open>The pins of a run are those of the store on the requests that the turns make to it.\<close>

lemma gov_run_pins:
  "gov_run u g xs = Some ds \<Longrightarrow> map d_pin ds = memory.run (g_dist g) (map (pin_request u (g_engine g)) xs)"
proof (induction xs arbitrary: g ds)
  case (Cons x xs)
  obtain g' d ds' where d: "decide_request u (memory_pin (t_now x)) (t_now x) g (t_verdict x) (t_text x) (t_model x) (t_org x) (t_sid x) = Some (g', d)"
    "gov_run u g' xs = Some ds'" "ds = d # ds'"
    using Cons.prems by (auto split: option.splits)
  have step: "memory_step (g_dist g) (pin_request u (g_engine g) x) = memory_pin (t_now x) (g_dist g) (t_sid x) (flagged u (g_engine g) x)"
    by (simp add: memory_step_def memory_pin_def pin_request_def)
  have "d_pin d = snd (memory_step (g_dist g) (pin_request u (g_engine g) x))" "g_engine g' = g_engine g"
    "g_dist g' = fst (memory_step (g_dist g) (pin_request u (g_engine g) x))"
    unfolding step flagged_def by (rule decide_request_cases [OF d(1)], simp)+
  then show ?case using Cons.IH [OF d(2)] d(3) by simp
qed simp

lemma gov_run_nth:
  assumes "gov_run u g xs = Some ds" and "i < length xs"
  shows "\<exists>g1 g2. g_engine g1 = g_engine g \<and> decide_request u (memory_pin (t_now (xs ! i))) (t_now (xs ! i)) g1 (t_verdict (xs ! i)) (t_text (xs ! i))
      (t_model (xs ! i)) (t_org (xs ! i)) (t_sid (xs ! i)) = Some (g2, ds ! i)"
  using assms
proof (induction xs arbitrary: g ds i)
  case (Cons x xs)
  obtain g' d ds' where d: "decide_request u (memory_pin (t_now x)) (t_now x) g (t_verdict x) (t_text x) (t_model x) (t_org x) (t_sid x) = Some (g', d)"
    "gov_run u g' xs = Some ds'" "ds = d # ds'"
    using Cons.prems by (auto split: option.splits)
  have eng: "g_engine g' = g_engine g" by (rule decide_request_cases [OF d(1)]) simp
  show ?case
  proof (cases i)
    case 0
    with d show ?thesis by auto
  next
    case (Suc j)
    with Cons.IH [OF d(2), of j] Cons.prems(2) d(3) eng show ?thesis by simp
  qed
qed simp



end
