(* ===== verification/Sha256.thy ===== *)
theory Sha256
  imports Prelude
begin

text \<open>
  The SHA-256 implementation of \<open>audit/merkle.rs\<close>, on 32-bit words that wrap.
\<close>

text \<open>The initial state and the round constants, in decimal.\<close>

definition H_INIT :: "32 word list" where
  "H_INIT = [1779033703, 3144134277, 1013904242, 2773480762, 1359893119, 2600822924, 528734635, 1541459225]"

definition K_ROUND :: "32 word list" where
  "K_ROUND =
    [1116352408, 1899447441, 3049323471, 3921009573, 961987163, 1508970993, 2453635748, 2870763221,
     3624381080, 310598401, 607225278, 1426881987, 1925078388, 2162078206, 2614888103, 3248222580,
     3835390401, 4022224774, 264347078, 604807628, 770255983, 1249150122, 1555081692, 1996064986,
     2554220882, 2821834349, 2952996808, 3210313671, 3336571891, 3584528711, 113926993, 338241895,
     666307205, 773529912, 1294757372, 1396182291, 1695183700, 1986661051, 2177026350, 2456956037,
     2730485921, 2820302411, 3259730800, 3345764771, 3516065817, 3600352804, 4094571909, 275423344,
     430227734, 506948616, 659060556, 883997877, 958139571, 1322822218, 1537002063, 1747873779,
     1955562222, 2024104815, 2227730452, 2361852424, 2428436474, 2756734187, 3204031479, 3329325298]"

definition be_bytes64 :: "64 word \<Rightarrow> bytes" where
  "be_bytes64 w = map (\<lambda>i. ucast (drop_bit (56 - 8 * i) w)) [0..<8]"

definition be_bytes32 :: "32 word \<Rightarrow> bytes" where
  "be_bytes32 w = map (\<lambda>i. ucast (drop_bit (24 - 8 * i) w)) [0..<4]"

definition be_word32 :: "bytes \<Rightarrow> 32 word" where
  "be_word32 bs = foldl (\<lambda>w b. push_bit 8 w OR ucast b) 0 bs"

text \<open>\<open>while msg.len() % 64 != 56\<close>.\<close>

function pad_loop :: "bytes \<Rightarrow> bytes" where
  "pad_loop msg = (if length msg mod 64 = 56 then msg else pad_loop (msg @ [0]))"
  by auto
termination
proof (relation "measure (\<lambda>msg. (120 - length msg mod 64) mod 64)")
  fix msg :: bytes
  assume a: "length msg mod 64 \<noteq> 56"
  have red: "(120 - r) mod 64 = (if r \<le> 56 then 56 - r else 120 - r)" if "r < 64" for r :: nat
  proof (cases "r \<le> 56")
    case True
    then have "120 - r = 56 - r + 64" by simp
    with True show ?thesis by (simp only: mod_add_self2) simp
  qed (use that in simp)
  have step: "(120 - (if r = 63 then 0 else Suc r)) mod 64 < (120 - r) mod 64" if "r < 64" "r \<noteq> 56" for r :: nat
    using that red [of r] red [of "Suc r"] by (cases "r = 63"; cases "r \<le> 56") auto
  have "Suc (length msg) mod 64 = (if length msg mod 64 = 63 then 0 else Suc (length msg mod 64))"
    by (simp add: mod_Suc)
  then have "(120 - Suc (length msg) mod 64) mod 64 < (120 - length msg mod 64) mod 64"
    using step [of "length msg mod 64"] a by simp
  then show "(msg @ [0], msg) \<in> measure (\<lambda>msg. (120 - length msg mod 64) mod 64)" by simp
qed simp

declare pad_loop.simps [simp del]

definition sha_pad :: "bytes \<Rightarrow> bytes" where
  "sha_pad data = pad_loop (data @ [0x80]) @ be_bytes64 (word_of_nat (length data) * 8)"

fun chunks64 :: "bytes \<Rightarrow> bytes list" where
  "chunks64 bs = (if length bs < 64 then [] else take 64 bs # chunks64 (drop 64 bs))"

declare chunks64.simps [simp del]

definition schedule_step :: "32 word list \<Rightarrow> nat \<Rightarrow> 32 word list" where
  "schedule_step w i =
     (let x = w ! (i - 15); y = w ! (i - 2);
          s0 = word_rotr 7 x XOR word_rotr 18 x XOR drop_bit 3 x;
          s1 = word_rotr 17 y XOR word_rotr 19 y XOR drop_bit 10 y
      in w[i := w ! (i - 16) + s0 + w ! (i - 7) + s1])"

definition schedule :: "bytes \<Rightarrow> 32 word list" where
  "schedule chunk =
     foldl schedule_step
       (foldl (\<lambda>w i. w[i := be_word32 (sub_slice (i * 4) (i * 4 + 4) chunk)]) (replicate 64 0) [0..<16]) [16..<64]"

record sha_state =
  sa :: "32 word"  sb :: "32 word"  sc :: "32 word"  sd :: "32 word"
  se :: "32 word"  sf :: "32 word"  sg :: "32 word"  sh :: "32 word"

definition round_step :: "32 word list \<Rightarrow> sha_state \<Rightarrow> nat \<Rightarrow> sha_state" where
  "round_step w s i =
     (let s1 = word_rotr 6 (se s) XOR word_rotr 11 (se s) XOR word_rotr 25 (se s);
          ch = (se s AND sf s) XOR (NOT (se s) AND sg s);
          temp1 = sh s + s1 + ch + K_ROUND ! i + w ! i;
          s0 = word_rotr 2 (sa s) XOR word_rotr 13 (sa s) XOR word_rotr 22 (sa s);
          maj = (sa s AND sb s) XOR (sa s AND sc s) XOR (sb s AND sc s);
          temp2 = s0 + maj
      in \<lparr>sa = temp1 + temp2, sb = sa s, sc = sb s, sd = sc s, se = sd s + temp1, sf = se s, sg = sf s, sh = sg s\<rparr>)"

definition sha_chunk :: "32 word list \<Rightarrow> bytes \<Rightarrow> 32 word list" where
  "sha_chunk h chunk =
     (let s = foldl (round_step (schedule chunk))
                \<lparr>sa = h ! 0, sb = h ! 1, sc = h ! 2, sd = h ! 3, se = h ! 4, sf = h ! 5, sg = h ! 6, sh = h ! 7\<rparr> [0..<64]
      in [h ! 0 + sa s, h ! 1 + sb s, h ! 2 + sc s, h ! 3 + sd s, h ! 4 + se s, h ! 5 + sf s, h ! 6 + sg s, h ! 7 + sh s])"

definition sha256 :: "bytes \<Rightarrow> bytes" where
  "sha256 data = concat (map be_bytes32 (foldl sha_chunk H_INIT (chunks64 (sha_pad data))))"

text \<open>A number is determined by its big-endian bytes.\<close>

lemma be_bytes64_inj: "be_bytes64 v = be_bytes64 w \<Longrightarrow> v = w"
proof (rule bit_word_eqI)
  fix n assume eq: "be_bytes64 v = be_bytes64 w" and n: "n < LENGTH(64)"
  define i where "i = 7 - n div 8"
  have i: "i < 8" "56 - 8 * i + n mod 8 = n" using n unfolding i_def by (auto simp: algebra_simps)
  have "be_bytes64 v ! i = be_bytes64 w ! i" using eq by simp
  then have "(ucast (drop_bit (56 - 8 * i) v) :: byte) = ucast (drop_bit (56 - 8 * i) w)" using i(1) by (simp add: be_bytes64_def)
  then have "bit (ucast (drop_bit (56 - 8 * i) v) :: byte) (n mod 8) = bit (ucast (drop_bit (56 - 8 * i) w) :: byte) (n mod 8)" by simp
  then show "bit v n = bit w n" using i(2) by (simp add: bit_ucast_iff bit_drop_bit_eq)
qed

lemma sha_chunk_length [simp]: "length (sha_chunk h chunk) = 8"
  by (simp add: sha_chunk_def Let_def)

lemma sha256_length [simp]: "length (sha256 data) = 32"
proof -
  have "length (foldl sha_chunk H_INIT cs) = 8" for cs
    by (cases cs rule: rev_cases) (simp_all add: H_INIT_def)
  then show ?thesis
    by (simp add: sha256_def length_concat be_bytes32_def comp_def sum_list_triv)
qed

lemma pad_loop_form: "\<exists>n<64. pad_loop msg = msg @ replicate n 0 \<and> length (pad_loop msg) mod 64 = 56"
proof (induction msg rule: pad_loop.induct)
  case (1 msg)
  show ?case
  proof (cases "length msg mod 64 = 56")
    case True
    then show ?thesis by (intro exI [of _ 0]) (simp add: pad_loop.simps)
  next
    case False
    with 1 obtain n where n: "n < 64" "pad_loop (msg @ [0]) = (msg @ [0]) @ replicate n 0" "length (pad_loop (msg @ [0])) mod 64 = 56"
      by blast
    have "n \<noteq> 63"
    proof
      assume "n = 63"
      then have "(length msg + 64) mod 64 = 56" using n(2,3) by simp
      with False show False by simp
    qed
    with n False show ?thesis
      by (intro exI [of _ "Suc n"]) (simp add: pad_loop.simps [of msg])
  qed
qed

subsection \<open>Agreement with the published test vectors\<close>

lemma sha256_abc_value: "sha256 [0x61, 0x62, 0x63] =
   [0xba, 0x78, 0x16, 0xbf, 0x8f, 0x01, 0xcf, 0xea, 0x41, 0x41, 0x40, 0xde, 0x5d, 0xae, 0x22, 0x23,
    0xb0, 0x03, 0x61, 0xa3, 0x96, 0x17, 0x7a, 0x9c, 0xb4, 0x10, 0xff, 0x61, 0xf2, 0x00, 0x15, 0xad]"
  by code_simp

lemma sha256_two_blocks_value: "sha256 (concat (map (\<lambda>i. [0x61 + i, 0x62 + i, 0x63 + i, 0x64 + i]) [0, 1, 2, 3, 4, 5, 6, 7, 8, 9, 10, 11, 12, 13])) =
   [0x24, 0x8d, 0x6a, 0x61, 0xd2, 0x06, 0x38, 0xb8, 0xe5, 0xc0, 0x26, 0x93, 0x0c, 0x3e, 0x60, 0x39,
    0xa3, 0x3c, 0xe4, 0x59, 0x64, 0xff, 0x21, 0x67, 0xf6, 0xec, 0xed, 0xd4, 0x19, 0xdb, 0x06, 0xc1]"
  by code_simp

end
