(* ===== verification/Merkle.thy ===== *)
theory Merkle
  imports Sha256
begin

text \<open>
  The Merkle audit chain of \<open>audit/merkle.rs\<close>: a binary tree of 256 leaves per epoch in
  a flat node array, the roots of the epochs chained by hashing. The timestamp of an
  event is an argument; the log line of a sealed epoch is left out.
\<close>

subsection \<open>Hashing\<close>

definition EPOCH_SIZE :: nat where "EPOCH_SIZE = 256"

definition hash_pair :: "bytes \<Rightarrow> bytes \<Rightarrow> bytes" where
  "hash_pair l r = sha256 (l @ r)"

definition hash_leaf :: "64 word \<Rightarrow> str \<Rightarrow> str \<Rightarrow> bytes \<Rightarrow> bytes" where
  "hash_leaf timestamp_us session_id action prev_root =
     sha256 (be_bytes64 timestamp_us @ as_bytes session_id @ as_bytes ''|'' @ as_bytes action @ prev_root)"

abbreviation zero_hash :: bytes where "zero_hash \<equiv> replicate 32 0"

subsection \<open>The tree of an epoch\<close>

record epoch_tree =
  leaves :: "bytes list"
  nodes :: "bytes list"
  tree_root :: bytes

definition padded :: "bytes list \<Rightarrow> bytes list" where
  "padded ls = ls @ replicate (EPOCH_SIZE - length ls) zero_hash"

definition build_nodes :: "nat \<Rightarrow> bytes list \<Rightarrow> bytes list" where
  "build_nodes n ls =
     foldl (\<lambda>ns i. ns[i := hash_pair (ns ! (2 * i + 1)) (ns ! (2 * i + 2))])
       (foldl (\<lambda>ns i. ns[n - 1 + i := ls ! i]) (replicate (2 * n - 1) zero_hash) [0..<length ls])
       (rev [0..<n - 1])"

text \<open>The assertion \<open>leaves.len() <= EPOCH_SIZE\<close> is a panic.\<close>

definition build_tree :: "bytes list \<Rightarrow> epoch_tree option" where
  "build_tree ls =
     (if length ls \<le> EPOCH_SIZE
      then let ns = build_nodes EPOCH_SIZE (padded ls) in Some \<lparr>leaves = ls, nodes = ns, tree_root = ns ! 0\<rparr>
      else None)"

record proof_step =
  ps_hash :: bytes
  ps_is_left :: bool

record merkle_proof =
  path :: "proof_step list"
  proof_root :: bytes

fun path_from :: "bytes list \<Rightarrow> nat \<Rightarrow> proof_step list" where
  "path_from ns idx =
     (if idx = 0 then []
      else \<lparr>ps_hash = ns ! (if idx mod 2 = 0 then idx - 1 else idx + 1), ps_is_left = (idx mod 2 = 0)\<rparr>
             # path_from ns ((idx - 1) div 2))"

declare path_from.simps [simp del]

definition tree_proof :: "epoch_tree \<Rightarrow> nat \<Rightarrow> merkle_proof" where
  "tree_proof t leaf_index = \<lparr>path = path_from (nodes t) (EPOCH_SIZE - 1 + leaf_index), proof_root = tree_root t\<rparr>"

definition climb :: "bytes \<Rightarrow> proof_step list \<Rightarrow> bytes" where
  "climb x steps = foldl (\<lambda>cur s. if ps_is_left s then hash_pair (ps_hash s) cur else hash_pair cur (ps_hash s)) x steps"

definition verify_proof :: "merkle_proof \<Rightarrow> bytes \<Rightarrow> bool" where
  "verify_proof p leaf_hash = (climb leaf_hash (path p) = proof_root p)"

definition root_hex :: "bytes \<Rightarrow> str" where
  "root_hex r = hex_of r"

subsection \<open>The chain\<close>

record sealed_epoch =
  se_index :: nat
  se_root :: bytes
  se_prev :: bytes
  event_count :: nat
  se_tree :: epoch_tree

definition epoch_proof_for :: "sealed_epoch \<Rightarrow> nat \<Rightarrow> merkle_proof option" where
  "epoch_proof_for ep leaf_index =
     (if leaf_index \<ge> event_count ep then None else Some (tree_proof (se_tree ep) leaf_index))"

record merkle_chain =
  sealed :: "sealed_epoch list"
  pending_leaves :: "bytes list"
  chain_root :: bytes
  total_events :: nat

definition new_chain :: merkle_chain where
  "new_chain = \<lparr>sealed = [], pending_leaves = [], chain_root = zero_hash, total_events = 0\<rparr>"

definition seal_epoch :: "merkle_chain \<Rightarrow> merkle_chain option" where
  "seal_epoch c =
     map_option (\<lambda>t.
       let root = hash_pair (tree_root t) (chain_root c)
       in c\<lparr>pending_leaves := [], chain_root := root,
            sealed := sealed c @ [\<lparr>se_index = length (sealed c), se_root = root, se_prev = chain_root c,
              event_count = length (pending_leaves c), se_tree = t\<rparr>]\<rparr>)
       (build_tree (pending_leaves c))"

definition chain_push :: "merkle_chain \<Rightarrow> 64 word \<Rightarrow> str \<Rightarrow> str \<Rightarrow> (merkle_chain \<times> nat) option" where
  "chain_push c ts session_id action =
     (let c1 = c\<lparr>pending_leaves := pending_leaves c @ [hash_leaf ts session_id action (chain_root c)],
                 total_events := total_events c + 1\<rparr>
      in map_option (\<lambda>c2. (c2, total_events c2 - 1))
           (if length (pending_leaves c1) = EPOCH_SIZE then seal_epoch c1 else Some c1))"

definition chain_flush :: "merkle_chain \<Rightarrow> merkle_chain option" where
  "chain_flush c = (if pending_leaves c \<noteq> [] then seal_epoch c else Some c)"

definition proof_for :: "merkle_chain \<Rightarrow> nat \<Rightarrow> merkle_proof option" where
  "proof_for c global_index =
     (if global_index div EPOCH_SIZE < length (sealed c)
      then epoch_proof_for (sealed c ! (global_index div EPOCH_SIZE)) (global_index mod EPOCH_SIZE) else None)"

definition recent_roots :: "merkle_chain \<Rightarrow> nat \<Rightarrow> str list" where
  "recent_roots c n = map (root_hex \<circ> se_root) (take n (rev (sealed c)))"

definition current_epoch :: "merkle_chain \<Rightarrow> nat" where
  "current_epoch c = length (sealed c)"

definition current_leaf :: "merkle_chain \<Rightarrow> nat" where
  "current_leaf c = length (pending_leaves c)"

subsection \<open>The node array is a tree\<close>

definition tree_like :: "nat \<Rightarrow> bytes list \<Rightarrow> bytes list \<Rightarrow> bool" where
  "tree_like n ls ns = (length ns = 2 * n - 1 \<and> (\<forall>i<n. ns ! (n - 1 + i) = ls ! i)
     \<and> (\<forall>i<n - 1. ns ! i = hash_pair (ns ! (2 * i + 1)) (ns ! (2 * i + 2))))"

lemma place_leaves:
  assumes "length ns = 2 * n - 1" and "k \<le> n"
  shows "length (foldl (\<lambda>ns i. ns[n - 1 + i := ls ! i]) ns [0..<k]) = 2 * n - 1
     \<and> (\<forall>i<k. foldl (\<lambda>ns i. ns[n - 1 + i := ls ! i]) ns [0..<k] ! (n - 1 + i) = ls ! i)"
  using assms by (induction k) (auto simp: nth_list_update less_Suc_eq)

lemma fill_inner:
  assumes "length ns = 2 * n - 1" and "k \<le> n - 1"
  shows "length (foldl (\<lambda>ns i. ns[i := hash_pair (ns ! (2 * i + 1)) (ns ! (2 * i + 2))]) ns (rev [k..<n - 1])) = 2 * n - 1
     \<and> (\<forall>j. n - 1 \<le> j \<longrightarrow> foldl (\<lambda>ns i. ns[i := hash_pair (ns ! (2 * i + 1)) (ns ! (2 * i + 2))]) ns (rev [k..<n - 1]) ! j = ns ! j)
     \<and> (\<forall>i. k \<le> i \<and> i < n - 1 \<longrightarrow>
          (let ns' = foldl (\<lambda>ns i. ns[i := hash_pair (ns ! (2 * i + 1)) (ns ! (2 * i + 2))]) ns (rev [k..<n - 1])
           in ns' ! i = hash_pair (ns' ! (2 * i + 1)) (ns' ! (2 * i + 2))))"
  using assms(2)
proof (induction "n - 1 - k" arbitrary: k)
  case 0
  then have "k = n - 1" by simp
  then show ?case using assms(1) by (auto simp: Let_def)
next
  case (Suc d)
  let ?f = "\<lambda>ns i. ns[i := hash_pair (ns ! (2 * i + 1)) (ns ! (2 * i + 2))]"
  let ?a = "foldl ?f ns (rev [Suc k..<n - 1])"
  have IH: "length ?a = 2 * n - 1" "\<forall>j. n - 1 \<le> j \<longrightarrow> ?a ! j = ns ! j"
    "\<forall>i. Suc k \<le> i \<and> i < n - 1 \<longrightarrow> ?a ! i = hash_pair (?a ! (2 * i + 1)) (?a ! (2 * i + 2))"
    using Suc.hyps(1) [of "Suc k"] Suc.hyps(2) Suc.prems by (simp_all add: Let_def)
  have k: "k < n - 1" using Suc.hyps(2) by simp
  then have e: "foldl ?f ns (rev [k..<n - 1]) = ?a[k := hash_pair (?a ! (2 * k + 1)) (?a ! (2 * k + 2))]"
    by (simp add: upt_conv_Cons)
  show ?case
    unfolding e Let_def using IH k by (auto simp: nth_list_update)
qed

lemma build_nodes_tree:
  assumes "length ls = n"
  shows "tree_like n ls (build_nodes n ls)"
proof -
  define p where "p = foldl (\<lambda>ns i. ns[n - 1 + i := ls ! i]) (replicate (2 * n - 1) zero_hash) [0..<n]"
  have p: "length p = 2 * n - 1 \<and> (\<forall>i<n. p ! (n - 1 + i) = ls ! i)"
    unfolding p_def by (rule place_leaves) simp_all
  define q where "q = foldl (\<lambda>ns i. ns[i := hash_pair (ns ! (2 * i + 1)) (ns ! (2 * i + 2))]) p (rev [0..<n - 1])"
  have q: "length q = 2 * n - 1" "\<forall>j. n - 1 \<le> j \<longrightarrow> q ! j = p ! j"
    "\<forall>i. 0 \<le> i \<and> i < n - 1 \<longrightarrow> q ! i = hash_pair (q ! (2 * i + 1)) (q ! (2 * i + 2))"
    using fill_inner [of p n 0] p unfolding q_def Let_def by blast+
  have "q ! (n - 1 + i) = ls ! i" if "i < n" for i
  proof -
    have "q ! (n - 1 + i) = p ! (n - 1 + i)" using q(2) by (meson le_add1)
    with p that show ?thesis by metis
  qed
  with q(1,3) show ?thesis
    unfolding tree_like_def build_nodes_def assms p_def [symmetric] q_def [symmetric] by blast
qed

subsection \<open>Proofs verify and bind\<close>

lemma climb_step: "climb x (s # ss) = climb (if ps_is_left s then hash_pair (ps_hash s) x else hash_pair x (ps_hash s)) ss"
  by (simp add: climb_def)

lemma climb_path:
  assumes "tree_like n ls ns" and "idx < 2 * n - 1"
  shows "climb (ns ! idx) (path_from ns idx) = ns ! 0"
  using assms(2)
proof (induction idx rule: less_induct)
  case (less idx)
  show ?case
  proof (cases "idx = 0")
    case True
    then show ?thesis by (simp add: path_from.simps climb_def)
  next
    case False
    let ?p = "(idx - 1) div 2"
    have p: "?p < idx" "?p < n - 1" using False less.prems by (auto simp: div_less_iff_less_mult)
    have "climb (ns ! idx) (path_from ns idx) = climb (ns ! ?p) (path_from ns ?p)"
    proof (cases "idx mod 2 = 0")
      case True
      then have "idx - 1 = 2 * ?p + 1" "idx = 2 * ?p + 2" using False by presburger+
      then have "hash_pair (ns ! (idx - 1)) (ns ! idx) = ns ! ?p" using assms(1) p(2) by (simp add: tree_like_def)
      with True False show ?thesis by (simp add: path_from.simps [of ns idx] climb_step)
    next
      case odd: False
      then have "idx = 2 * ?p + 1" "idx + 1 = 2 * ?p + 2" by presburger+
      then have "hash_pair (ns ! idx) (ns ! (idx + 1)) = ns ! ?p" using assms(1) p(2) by (simp add: tree_like_def)
      with odd False show ?thesis by (simp add: path_from.simps [of ns idx] climb_step)
    qed
    with less.IH [OF p(1)] p less.prems show ?thesis by simp
  qed
qed

lemma path_from_length: "2 ^ k \<le> Suc idx \<Longrightarrow> Suc idx < 2 ^ Suc k \<Longrightarrow> length (path_from ns idx) = k"
proof (induction k arbitrary: idx)
  case (Suc k)
  have "(2 :: nat) \<le> 2 ^ Suc k" by simp
  with Suc.prems(1) have nz: "idx \<noteq> 0" by linarith
  then have "Suc ((idx - 1) div 2) = Suc idx div 2" by presburger
  with Suc.prems have p: "2 ^ k \<le> Suc ((idx - 1) div 2)" "Suc ((idx - 1) div 2) < 2 ^ Suc k"
    by (simp_all add: less_eq_div_iff_mult_less_eq div_less_iff_less_mult)
  show ?case using Suc.IH [OF p] nz by (simp add: path_from.simps [of ns idx])
qed (simp add: path_from.simps)

lemma padded_length [simp]: "length ls \<le> EPOCH_SIZE \<Longrightarrow> length (padded ls) = EPOCH_SIZE"
  by (simp add: padded_def)

lemma padded_nth: "i < length ls \<Longrightarrow> padded ls ! i = ls ! i"
  by (simp add: padded_def nth_append)

lemma build_tree_tree:
  "build_tree ls = Some t \<Longrightarrow> tree_like EPOCH_SIZE (padded ls) (nodes t) \<and> tree_root t = nodes t ! 0 \<and> leaves t = ls
     \<and> length ls \<le> EPOCH_SIZE"
  by (auto simp: build_tree_def Let_def build_nodes_tree split: if_splits)

lemma tree_proof_verifies:
  assumes "build_tree ls = Some t" and "i < length ls"
  shows "verify_proof (tree_proof t i) (ls ! i) \<and> length (path (tree_proof t i)) = 8"
proof -
  note t = build_tree_tree [OF assms(1)]
  have i: "i < EPOCH_SIZE" using t assms(2) by simp
  then have "nodes t ! (EPOCH_SIZE - 1 + i) = ls ! i"
    using t padded_nth [OF assms(2)] unfolding tree_like_def by metis
  with climb_path [of EPOCH_SIZE "padded ls" "nodes t" "EPOCH_SIZE - 1 + i"] t i
  have "verify_proof (tree_proof t i) (ls ! i)"
    by (simp add: verify_proof_def tree_proof_def EPOCH_SIZE_def)
  moreover have "length (path (tree_proof t i)) = 8"
    using i path_from_length [of 8 "EPOCH_SIZE - 1 + i"] by (simp add: tree_proof_def EPOCH_SIZE_def)
  ultimately show ?thesis by blast
qed

subsection \<open>Reachable chains\<close>

datatype chain_op = Append "64 word" str str | Flush

definition chain_step :: "merkle_chain option \<Rightarrow> chain_op \<Rightarrow> merkle_chain option" where
  "chain_step s op = Option.bind s (\<lambda>c. case op of
     Append ts sid act \<Rightarrow> map_option fst (chain_push c ts sid act) | Flush \<Rightarrow> chain_flush c)"

abbreviation run_chain :: "chain_op list \<Rightarrow> merkle_chain option" where
  "run_chain \<equiv> foldl chain_step (Some new_chain)"

text \<open>Each epoch is the tree of its leaves, its root chained to the previous one.\<close>

definition epoch_ok :: "bytes \<Rightarrow> nat \<Rightarrow> sealed_epoch \<Rightarrow> bool" where
  "epoch_ok prev k ep = (build_tree (leaves (se_tree ep)) = Some (se_tree ep) \<and> leaves (se_tree ep) \<noteq> []
     \<and> (\<forall>l\<in>set (leaves (se_tree ep)). length l = 32)
     \<and> event_count ep = length (leaves (se_tree ep)) \<and> se_index ep = k \<and> se_prev ep = prev
     \<and> se_root ep = hash_pair (tree_root (se_tree ep)) prev)"

fun linked :: "bytes \<Rightarrow> nat \<Rightarrow> sealed_epoch list \<Rightarrow> bool" where
  "linked prev k [] = True"
| "linked prev k (ep # eps) = (epoch_ok prev k ep \<and> linked (se_root ep) (Suc k) eps)"

definition last_root :: "bytes \<Rightarrow> sealed_epoch list \<Rightarrow> bytes" where
  "last_root prev eps = (if eps = [] then prev else se_root (last eps))"

definition all_leaves :: "merkle_chain \<Rightarrow> bytes list" where
  "all_leaves c = concat (map (leaves \<circ> se_tree) (sealed c)) @ pending_leaves c"

definition chain_ok :: "merkle_chain \<Rightarrow> bool" where
  "chain_ok c = (length (pending_leaves c) < EPOCH_SIZE \<and> (\<forall>l\<in>set (pending_leaves c). length l = 32)
     \<and> linked zero_hash 0 (sealed c) \<and> chain_root c = last_root zero_hash (sealed c)
     \<and> total_events c = length (all_leaves c))"

lemma last_root_Cons [simp]: "last_root prev (ep # eps) = last_root (se_root ep) eps"
  by (simp add: last_root_def)

lemma linked_snoc: "linked prev k (eps @ [ep]) = (linked prev k eps \<and> epoch_ok (last_root prev eps) (k + length eps) ep)"
  by (induction eps arbitrary: prev k) (auto simp: last_root_def)

lemma linked_nth: "linked prev k eps \<Longrightarrow> i < length eps \<Longrightarrow> epoch_ok (last_root prev (take i eps)) (k + i) (eps ! i)"
proof (induction eps arbitrary: prev k i)
  case (Cons ep eps)
  then show ?case
    using Cons.IH [of "se_root ep" "Suc k" "i - 1"] by (cases i) (auto simp: last_root_def [of _ "[]"])
qed simp

lemma hash_leaf_length [simp]: "length (hash_leaf ts s a r) = 32"
  by (simp add: hash_leaf_def)

lemma hash_pair_length [simp]: "length (hash_pair l r) = 32"
  by (simp add: hash_pair_def)

lemma seal_epoch_ok:
  assumes "linked zero_hash 0 (sealed c)" and "chain_root c = last_root zero_hash (sealed c)"
    and "total_events c = length (all_leaves c)" and "pending_leaves c \<noteq> []"
    and "length (pending_leaves c) \<le> EPOCH_SIZE" and "\<forall>l\<in>set (pending_leaves c). length l = 32"
  shows "\<exists>c' ep. seal_epoch c = Some c' \<and> chain_ok c' \<and> all_leaves c' = all_leaves c \<and> total_events c' = total_events c
     \<and> sealed c' = sealed c @ [ep] \<and> leaves (se_tree ep) = pending_leaves c \<and> pending_leaves c' = []"
proof -
  obtain t where t: "build_tree (pending_leaves c) = Some t" using assms(5) by (simp add: build_tree_def Let_def)
  then have l: "leaves t = pending_leaves c" by (simp add: build_tree_tree)
  with t assms show ?thesis
    by (auto simp: seal_epoch_def Let_def chain_ok_def linked_snoc epoch_ok_def all_leaves_def last_root_def EPOCH_SIZE_def)
qed

lemma chain_push_ok:
  assumes "chain_ok c"
  shows "\<exists>c'. chain_push c ts s a = Some (c', total_events c) \<and> chain_ok c'
     \<and> all_leaves c' = all_leaves c @ [hash_leaf ts s a (chain_root c)]
     \<and> (\<exists>eps. sealed c' = sealed c @ eps \<and> (\<forall>ep\<in>set eps. length (leaves (se_tree ep)) = EPOCH_SIZE))"
proof -
  let ?c = "c\<lparr>pending_leaves := pending_leaves c @ [hash_leaf ts s a (chain_root c)], total_events := total_events c + 1\<rparr>"
  have al: "all_leaves ?c = all_leaves c @ [hash_leaf ts s a (chain_root c)]" by (simp add: all_leaves_def)
  show ?thesis
  proof (cases "length (pending_leaves ?c) = EPOCH_SIZE")
    case True
    have "\<exists>c' ep. seal_epoch ?c = Some c' \<and> chain_ok c' \<and> all_leaves c' = all_leaves ?c \<and> total_events c' = total_events ?c
        \<and> sealed c' = sealed ?c @ [ep] \<and> leaves (se_tree ep) = pending_leaves ?c \<and> pending_leaves c' = []"
      by (rule seal_epoch_ok) (use assms al True in \<open>auto simp: chain_ok_def\<close>)
    with True al show ?thesis by (auto simp: chain_push_def Let_def)
  next
    case False
    moreover have "chain_ok ?c" using assms False al by (auto simp: chain_ok_def)
    ultimately show ?thesis using al by (auto simp: chain_push_def Let_def)
  qed
qed

lemma chain_flush_ok:
  assumes "chain_ok c"
  shows "\<exists>c'. chain_flush c = Some c' \<and> chain_ok c' \<and> all_leaves c' = all_leaves c \<and> prefix (sealed c) (sealed c')"
proof (cases "pending_leaves c = []")
  case False
  with seal_epoch_ok [of c] assms show ?thesis by (fastforce simp: chain_flush_def chain_ok_def)
qed (use assms in \<open>simp add: chain_flush_def\<close>)

interpretation mc: invariant_machine "Some new_chain" chain_step "\<lambda>s. \<exists>c. s = Some c \<and> chain_ok c"
proof
  show "\<exists>c. Some new_chain = Some c \<and> chain_ok c"
    by (simp add: new_chain_def chain_ok_def last_root_def all_leaves_def EPOCH_SIZE_def)
next
  fix s op
  assume "\<exists>c. s = Some c \<and> chain_ok c"
  then show "\<exists>c. chain_step s op = Some c \<and> chain_ok c"
    by (cases op) (use chain_push_ok chain_flush_ok in \<open>fastforce simp: chain_step_def\<close>)+
qed

subsection \<open>Inclusion proofs of a chain that only appends\<close>

abbreviation append_all :: "(64 word \<times> str \<times> str) list \<Rightarrow> chain_op list" where
  "append_all evs \<equiv> map (\<lambda>(ts, s, a). Append ts s a) evs"

text \<open>The hash of the event at position \<open>i\<close>: it covers the chain root at the time of the append.\<close>

definition leaf_at :: "(64 word \<times> str \<times> str) list \<Rightarrow> nat \<Rightarrow> bytes" where
  "leaf_at evs i = (case evs ! i of (ts, s, a) \<Rightarrow> hash_leaf ts s a (chain_root (the (run_chain (append_all (take i evs))))))"

lemma concat_nth_uniform:
  "\<forall>xs\<in>set xss. length xs = n \<Longrightarrow> i < n * length xss \<Longrightarrow> concat xss ! i = xss ! (i div n) ! (i mod n)"
proof (induction xss arbitrary: i)
  case (Cons xs xss)
  show ?case
  proof (cases "i < n")
    case False
    then have "i div n = Suc ((i - n) div n)" "i mod n = (i - n) mod n"
      using Cons.prems(2) by (cases "n = 0", simp, simp add: le_div_geq, simp add: le_mod_geq)
    with False Cons show ?thesis by (simp add: nth_append)
  qed (use Cons in \<open>simp add: nth_append\<close>)
qed simp

lemma length_concat_uniform: "\<forall>xs\<in>set xss. length xs = n \<Longrightarrow> length (concat xss) = n * length xss"
  by (induction xss) auto

lemma run_appends:
  "\<exists>c. run_chain (append_all evs) = Some c \<and> chain_ok c \<and> all_leaves c = map (leaf_at evs) [0..<length evs]
     \<and> (\<forall>ep\<in>set (sealed c). length (leaves (se_tree ep)) = EPOCH_SIZE)"
proof (induction evs rule: rev_induct)
  case Nil
  then show ?case by (simp add: new_chain_def chain_ok_def last_root_def all_leaves_def EPOCH_SIZE_def)
next
  case (snoc e evs)
  then obtain c where c: "run_chain (append_all evs) = Some c" "chain_ok c"
    "all_leaves c = map (leaf_at evs) [0..<length evs]" "\<forall>ep\<in>set (sealed c). length (leaves (se_tree ep)) = EPOCH_SIZE"
    by blast
  obtain ts s a where e: "e = (ts, s, a)" by (cases e) auto
  have l: "leaf_at (evs @ [e]) i = leaf_at evs i" if "i < length evs" for i
    using that by (simp add: leaf_at_def nth_append)
  have m: "leaf_at (evs @ [e]) (length evs) = hash_leaf ts s a (chain_root c)"
    using c(1) e by (simp add: leaf_at_def)
  obtain c' eps where c': "chain_push c ts s a = Some (c', total_events c)" "chain_ok c'"
    "all_leaves c' = all_leaves c @ [hash_leaf ts s a (chain_root c)]" "sealed c' = sealed c @ eps"
    "\<forall>ep\<in>set eps. length (leaves (se_tree ep)) = EPOCH_SIZE"
    using chain_push_ok [OF c(2), of ts s a] by blast
  have "run_chain (append_all (evs @ [e])) = Some c'" using c(1) c'(1) e by (simp add: chain_step_def)
  moreover have "all_leaves c' = map (leaf_at (evs @ [e])) [0..<length (evs @ [e])]"
    using c'(3) c(3) l m by simp
  ultimately show ?case using c'(2,4,5) c(4) by auto
qed

lemma proof_for_sealed:
  assumes "run_chain (append_all evs) = Some c" and "i < length evs"
  shows "(proof_for c i = None \<longleftrightarrow> length evs < EPOCH_SIZE * (i div EPOCH_SIZE + 1))
     \<and> (\<forall>p. proof_for c i = Some p \<longrightarrow> verify_proof p (leaf_at evs i) \<and> length (path p) = 8)"
proof -
  have c: "chain_ok c" "all_leaves c = map (leaf_at evs) [0..<length evs]"
    "\<forall>ep\<in>set (sealed c). length (leaves (se_tree ep)) = EPOCH_SIZE"
    using run_appends [of evs] assms(1) by auto
  let ?L = "map (leaves \<circ> se_tree) (sealed c)"
  have u: "\<forall>xs\<in>set ?L. length xs = EPOCH_SIZE" using c(3) by simp
  have "length evs = length (all_leaves c)" using c(2) by simp
  then have len: "length evs = EPOCH_SIZE * length (sealed c) + length (pending_leaves c)"
    using length_concat_uniform [OF u] by (simp add: all_leaves_def)
  have pend: "length (pending_leaves c) < EPOCH_SIZE" using c(1) by (simp add: chain_ok_def)
  have iff: "i div EPOCH_SIZE < length (sealed c) \<longleftrightarrow> EPOCH_SIZE * (i div EPOCH_SIZE + 1) \<le> length evs"
    using len pend by (simp add: EPOCH_SIZE_def) linarith
  have "proof_for c i = Some (tree_proof (se_tree (sealed c ! (i div EPOCH_SIZE))) (i mod EPOCH_SIZE))
      \<and> verify_proof (tree_proof (se_tree (sealed c ! (i div EPOCH_SIZE))) (i mod EPOCH_SIZE)) (leaf_at evs i)
      \<and> length (path (tree_proof (se_tree (sealed c ! (i div EPOCH_SIZE))) (i mod EPOCH_SIZE))) = 8"
    if k: "i div EPOCH_SIZE < length (sealed c)"
  proof -
    let ?ep = "sealed c ! (i div EPOCH_SIZE)"
    have m: "i mod EPOCH_SIZE < EPOCH_SIZE" by (simp add: EPOCH_SIZE_def)
    have ok: "epoch_ok (last_root zero_hash (take (i div EPOCH_SIZE) (sealed c))) (0 + i div EPOCH_SIZE) ?ep"
      by (rule linked_nth) (use c(1) k in \<open>auto simp: chain_ok_def\<close>)
    have n: "length (leaves (se_tree ?ep)) = EPOCH_SIZE" using c(3) k by simp
    have i: "i < EPOCH_SIZE * length (sealed c)" using k by (simp add: EPOCH_SIZE_def div_less_iff_less_mult mult.commute)
    have "leaf_at evs i = all_leaves c ! i" using c(2) assms(2) by simp
    also have "\<dots> = concat ?L ! i" using i length_concat_uniform [OF u] by (simp add: all_leaves_def nth_append)
    also have "\<dots> = leaves (se_tree ?ep) ! (i mod EPOCH_SIZE)" using concat_nth_uniform [OF u, of i] i k by simp
    finally show ?thesis
      using ok k m n tree_proof_verifies [of "leaves (se_tree ?ep)" "se_tree ?ep" "i mod EPOCH_SIZE"]
      by (simp add: epoch_ok_def proof_for_def epoch_proof_for_def)
  qed
  then show ?thesis using iff by (cases "i div EPOCH_SIZE < length (sealed c)") (auto simp: proof_for_def not_le not_less)
qed

text \<open>
  C23: appending events never panics, numbers them in order, and an event's inclusion proof
  is available exactly when its epoch of 256 events is complete; every proof handed out
  has eight steps and verifies against the leaf that was hashed for that event.
\<close>

theorem append_proofs_verify:
  assumes "i < length evs"
  shows "\<exists>c. run_chain (append_all evs) = Some c \<and> total_events c = length evs
     \<and> (proof_for c i = None \<longleftrightarrow> length evs < EPOCH_SIZE * (i div EPOCH_SIZE + 1))
     \<and> (\<forall>p. proof_for c i = Some p \<longrightarrow> verify_proof p (leaf_at evs i) \<and> length (path p) = 8)"
proof -
  obtain c where c: "run_chain (append_all evs) = Some c" "chain_ok c" "all_leaves c = map (leaf_at evs) [0..<length evs]"
    using run_appends [of evs] by blast
  have t: "total_events c = length evs" using c(2,3) by (simp add: chain_ok_def)
  note p = proof_for_sealed [OF c(1) assms]
  show ?thesis by (intro exI [of _ c] conjI c(1) t p [THEN conjunct1] p [THEN conjunct2])
qed

theorem append_proofs_verify_witness:
  "\<exists>c p. run_chain (append_all (replicate 300 (7, ''session'', ''block''))) = Some c
     \<and> proof_for c 255 = Some p \<and> verify_proof p (leaf_at (replicate 300 (7, ''session'', ''block'')) 255)"
proof -
  define evs :: "(64 word \<times> str \<times> str) list" where "evs = replicate 300 (7, ''session'', ''block'')"
  have len: "length evs = 300" by (simp only: evs_def length_replicate)
  obtain c where c: "run_chain (append_all evs) = Some c" "proof_for c 255 = None \<longleftrightarrow> (300 :: nat) < 256 * (255 div 256 + 1)"
    "\<forall>p. proof_for c 255 = Some p \<longrightarrow> verify_proof p (leaf_at evs 255) \<and> length (path p) = 8"
    using append_proofs_verify [of 255 evs] unfolding len EPOCH_SIZE_def by fastforce
  have "proof_for c 255 \<noteq> None" unfolding c(2) by simp
  with c(1,3) show ?thesis unfolding evs_def [symmetric] by blast
qed

subsection \<open>The chain root commits to the history\<close>

text \<open>
  The inputs hashed for the inner nodes of a tree and for the link of an epoch. Two
  different ones with the same digest are a collision of the hash function that
  can be read off the two chains.
\<close>

definition tree_inputs :: "bytes list \<Rightarrow> bytes set" where
  "tree_inputs ns = (\<lambda>i. ns ! (2 * i + 1) @ ns ! (2 * i + 2)) ` {..<EPOCH_SIZE - 1}"

definition epoch_inputs :: "sealed_epoch \<Rightarrow> bytes set" where
  "epoch_inputs ep = insert (tree_root (se_tree ep) @ se_prev ep) (tree_inputs (nodes (se_tree ep)))"

definition chain_inputs :: "sealed_epoch list \<Rightarrow> bytes set" where
  "chain_inputs eps = (\<Union>ep\<in>set eps. epoch_inputs ep)"

definition collision_in :: "bytes set \<Rightarrow> bytes set \<Rightarrow> bool" where
  "collision_in A B = (\<exists>a\<in>A. \<exists>b\<in>B. a \<noteq> b \<and> sha256 a = sha256 b)"

lemma collision_mono: "collision_in A B \<Longrightarrow> A \<subseteq> A' \<Longrightarrow> B \<subseteq> B' \<Longrightarrow> collision_in A' B'"
  unfolding collision_in_def by blast

lemma hash_pair_binds:
  assumes "hash_pair a b = hash_pair c d" and "length a = length c" and "a @ b \<in> A" and "c @ d \<in> B"
    and "\<not> collision_in A B"
  shows "a = c \<and> b = d"
  using assms by (metis append_eq_append_conv collision_in_def hash_pair_def)

lemma tree_like_lengths:
  assumes "tree_like n ls ns" and "\<forall>l\<in>set ls. length l = 32" and "length ls = n" and "i < 2 * n - 1"
  shows "length (ns ! i) = 32"
proof (cases "i < n - 1")
  case True
  with assms(1) show ?thesis by (simp add: tree_like_def)
next
  case False
  then obtain j where j: "i = n - 1 + j" by (metis le_add_diff_inverse not_less)
  with assms(4) have "j < n" by linarith
  with assms j show ?thesis unfolding tree_like_def by (metis nth_mem)
qed

lemma tree_binds:
  assumes "tree_like EPOCH_SIZE ls ns" and "tree_like EPOCH_SIZE ls' ns'"
    and "\<forall>i<2 * EPOCH_SIZE - 1. length (ns ! i) = 32 \<and> length (ns' ! i) = 32"
    and "ns ! 0 = ns' ! 0" and nc: "\<not> collision_in (tree_inputs ns) (tree_inputs ns')"
    and "i < 2 * EPOCH_SIZE - 1"
  shows "ns ! i = ns' ! i"
  using assms(6)
proof (induction i rule: less_induct)
  case (less i)
  show ?case
  proof (cases "i = 0")
    case False
    let ?p = "(i - 1) div 2"
    have p: "?p < i" "?p < EPOCH_SIZE - 1" using False less.prems by (auto simp: div_less_iff_less_mult)
    have ch: "i = 2 * ?p + 1 \<or> i = 2 * ?p + 2" using False by presburger
    have "ns ! ?p = ns' ! ?p" using less.IH [OF p(1)] p less.prems by simp
    then have "hash_pair (ns ! (2 * ?p + 1)) (ns ! (2 * ?p + 2)) = hash_pair (ns' ! (2 * ?p + 1)) (ns' ! (2 * ?p + 2))"
      using assms(1,2) p(2) by (simp add: tree_like_def)
    moreover have "length (ns ! (2 * ?p + 1)) = length (ns' ! (2 * ?p + 1))" using assms(3) p(2) by simp
    ultimately have "ns ! (2 * ?p + 1) = ns' ! (2 * ?p + 1) \<and> ns ! (2 * ?p + 2) = ns' ! (2 * ?p + 2)"
      using nc p(2) by (intro hash_pair_binds) (auto simp: tree_inputs_def)
    with ch show ?thesis by metis
  qed (use assms(4) in simp)
qed

lemma padded_lengths: "\<forall>l\<in>set ls. length l = 32 \<Longrightarrow> \<forall>l\<in>set (padded ls). length l = 32"
  by (auto simp: padded_def set_replicate_conv_if split: if_splits)

lemma epoch_binds:
  assumes a: "epoch_ok prev k ep" and b: "epoch_ok prev' k ep'" and r: "se_root ep = se_root ep'"
    and nc: "\<not> collision_in (epoch_inputs ep) (epoch_inputs ep')"
  shows "prev = prev' \<and> padded (leaves (se_tree ep)) = padded (leaves (se_tree ep'))"
proof -
  let ?t = "se_tree ep" and ?u = "se_tree ep'"
  have t: "tree_like EPOCH_SIZE (padded (leaves ?t)) (nodes ?t)" "tree_root ?t = nodes ?t ! 0" "length (leaves ?t) \<le> EPOCH_SIZE"
   and u: "tree_like EPOCH_SIZE (padded (leaves ?u)) (nodes ?u)" "tree_root ?u = nodes ?u ! 0" "length (leaves ?u) \<le> EPOCH_SIZE"
    using a b build_tree_tree unfolding epoch_ok_def by blast+
  have l: "\<forall>i<2 * EPOCH_SIZE - 1. length (nodes ?t ! i) = 32 \<and> length (nodes ?u ! i) = 32"
    using tree_like_lengths [OF t(1) padded_lengths] tree_like_lengths [OF u(1) padded_lengths] t(3) u(3) a b
    unfolding epoch_ok_def by simp
  have "hash_pair (tree_root ?t) prev = hash_pair (tree_root ?u) prev'" using a b r by (simp add: epoch_ok_def)
  then have e: "tree_root ?t = tree_root ?u \<and> prev = prev'"
    by (rule hash_pair_binds [OF _ _ _ _ nc])
       (use l t(2) u(2) a b in \<open>auto simp: epoch_inputs_def epoch_ok_def EPOCH_SIZE_def\<close>)
  have nc': "\<not> collision_in (tree_inputs (nodes ?t)) (tree_inputs (nodes ?u))"
    using nc collision_mono by (metis epoch_inputs_def subset_insertI)
  have n: "nodes ?t ! i = nodes ?u ! i" if "i < 2 * EPOCH_SIZE - 1" for i
    by (rule tree_binds [OF t(1) u(1) l _ nc' that]) (use e t(2) u(2) in simp)
  have "padded (leaves ?t) = padded (leaves ?u)"
  proof (rule nth_equalityI)
    fix i
    assume "i < length (padded (leaves ?t))"
    then have i: "i < EPOCH_SIZE" using t(3) by simp
    then have "nodes ?t ! (EPOCH_SIZE - 1 + i) = nodes ?u ! (EPOCH_SIZE - 1 + i)" by (intro n) simp
    with i t(1) u(1) show "padded (leaves ?t) ! i = padded (leaves ?u) ! i" unfolding tree_like_def by metis
  qed (use t(3) u(3) in simp)
  with e show ?thesis by blast
qed

lemma linked_binds:
  assumes "linked prev 0 eps" and "linked prev 0 eps'" and "length eps = length eps'"
    and "last_root prev eps = last_root prev eps'" and "\<not> collision_in (chain_inputs eps) (chain_inputs eps')"
  shows "map (padded \<circ> leaves \<circ> se_tree) eps = map (padded \<circ> leaves \<circ> se_tree) eps'"
  using assms
proof (induction eps arbitrary: eps' rule: rev_induct)
  case (snoc ep eps)
  then obtain ep' xs where e: "eps' = xs @ [ep']" "length eps = length xs" by (cases eps' rule: rev_cases) auto
  have nc: "\<not> collision_in (epoch_inputs ep) (epoch_inputs ep')" "\<not> collision_in (chain_inputs eps) (chain_inputs xs)"
    using snoc.prems(5) collision_mono unfolding e chain_inputs_def by fastforce+
  have "last_root prev eps = last_root prev xs \<and> padded (leaves (se_tree ep)) = padded (leaves (se_tree ep'))"
    by (rule epoch_binds [of _ "length xs", OF _ _ _ nc(1)]) (use snoc.prems e in \<open>auto simp: linked_snoc last_root_def\<close>)
  with snoc.IH [of xs] snoc.prems e nc(2) show ?case by (simp add: linked_snoc)
qed simp

text \<open>
  C24: the chain root commits to the sealed history. Two chains, whatever was appended and
  flushed, that sealed the same number of epochs and show the same chain root hold the same
  (padded) leaves in every epoch, unless two of the inputs they hashed are different and
  have the same SHA-256 digest.
\<close>

theorem chain_root_commits:
  assumes "run_chain ops = Some c" and "run_chain ops' = Some c'"
    and "length (sealed c) = length (sealed c')" and "chain_root c = chain_root c'"
  shows "map (padded \<circ> leaves \<circ> se_tree) (sealed c) = map (padded \<circ> leaves \<circ> se_tree) (sealed c')
     \<or> collision_in (chain_inputs (sealed c)) (chain_inputs (sealed c'))"
proof -
  have "chain_ok c" "chain_ok c'" using mc.run_inv [of ops] mc.run_inv [of ops'] assms(1,2) by auto
  with linked_binds [of zero_hash "sealed c" "sealed c'"] assms(3,4) show ?thesis
    unfolding chain_ok_def by metis
qed

subsection \<open>Flushing\<close>

definition flushed_twice :: "merkle_chain option" where
  "flushed_twice = run_chain [Append 1 ''s'' ''allow'', Flush, Append 2 ''s'' ''block'', Flush]"

lemma flushed_twice_run:
  "\<exists>c. flushed_twice = Some c \<and> length (sealed c) = 2 \<and> (\<forall>ep\<in>set (sealed c). event_count ep = 1)"
  by (simp add: flushed_twice_def chain_step_def chain_push_def chain_flush_def seal_epoch_def new_chain_def
      build_tree_def Let_def EPOCH_SIZE_def)

theorem chain_root_commits_witness:
  "\<exists>c. flushed_twice = Some c \<and> length (sealed c) = 2
     \<and> (map (padded \<circ> leaves \<circ> se_tree) (sealed c) = map (padded \<circ> leaves \<circ> se_tree) (sealed c)
        \<or> collision_in (chain_inputs (sealed c)) (chain_inputs (sealed c)))"
proof -
  obtain c where c: "flushed_twice = Some c" "length (sealed c) = 2" using flushed_twice_run by blast
  from chain_root_commits [OF c(1) [unfolded flushed_twice_def] c(1) [unfolded flushed_twice_def] refl refl] c
  show ?thesis by blast
qed

text \<open>
  Once a flush has sealed a partial epoch, the global event index no longer leads to
  the event. With one event, a flush, a second event and a flush, both events are sealed,
  yet the second one (global index 1) has no proof, and index 256, which was never
  assigned, is answered with a proof for the second event's leaf.
\<close>

lemma flush_breaks_global_index:
  "\<exists>c p. flushed_twice = Some c \<and> total_events c = 2 \<and> pending_leaves c = [] \<and> proof_for c 1 = None
     \<and> proof_for c EPOCH_SIZE = Some p \<and> verify_proof p (all_leaves c ! 1)"
proof -
  obtain c where c: "flushed_twice = Some c" "length (sealed c) = 2" "\<forall>ep\<in>set (sealed c). event_count ep = 1"
    using flushed_twice_run by blast
  have ok: "chain_ok c"
    using mc.run_inv [of "[Append 1 ''s'' ''allow'', Flush, Append 2 ''s'' ''block'', Flush]"] c(1)
    unfolding flushed_twice_def by (metis option.inject)
  obtain e0 e1 where s: "sealed c = [e0, e1]" using c(2) by (auto simp: length_Suc_conv numeral_2_eq_2)
  have k: "epoch_ok (last_root zero_hash (take 1 (sealed c))) (0 + 1) (sealed c ! 1)"
    by (rule linked_nth) (use ok c(2) in \<open>auto simp: chain_ok_def\<close>)
  have e: "event_count e0 = 1" "event_count e1 = 1" using c(3) s by simp_all
  have p: "pending_leaves c = []" and t: "total_events c = 2"
    using c(1) by (auto simp: flushed_twice_def chain_step_def chain_push_def chain_flush_def seal_epoch_def new_chain_def
      build_tree_def Let_def EPOCH_SIZE_def)
  have l0: "length (leaves (se_tree e0)) = 1" using ok e s by (simp add: chain_ok_def epoch_ok_def)
  have "verify_proof (tree_proof (se_tree e1) 0) (leaves (se_tree e1) ! 0)"
    using tree_proof_verifies [of "leaves (se_tree e1)" "se_tree e1" 0] k s by (simp add: epoch_ok_def)
  moreover have "all_leaves c ! 1 = leaves (se_tree e1) ! 0"
    using s p l0 by (simp add: all_leaves_def nth_append)
  ultimately show ?thesis
    using c(1) p t s e
    by (intro exI [of _ c] exI [of _ "tree_proof (se_tree e1) 0"]) (simp add: proof_for_def epoch_proof_for_def EPOCH_SIZE_def)
qed

end
