(* ===== verification/AuditLog.thy ===== *)
theory AuditLog
  imports F64 Utf8
begin

text \<open>
  The keyed audit log of \<open>audit/chain.rs\<close>: entries chained by HMAC-SHA256, one JSON object
  per line, the verifier that replays the chain, and the calendar arithmetic of the
  timestamps. The \<open>hmac\<close> crate is the parameter \<open>mac\<close> (key and message to digest), the
  derived (de)serializers of the entry are the parameters \<open>to_json\<close> and \<open>from_json\<close>.
\<close>

subsection \<open>Calendar\<close>

definition is_leap :: "nat \<Rightarrow> bool" where
  "is_leap y = (y mod 4 = 0 \<and> y mod 100 \<noteq> 0 \<or> y mod 400 = 0)"

definition month_days :: "bool \<Rightarrow> nat list" where
  "month_days leap = (if leap then [31, 29, 31, 30, 31, 30, 31, 31, 30, 31, 30, 31]
     else [31, 28, 31, 30, 31, 30, 31, 31, 30, 31, 30, 31])"

fun month_loop :: "nat list \<Rightarrow> nat \<Rightarrow> nat \<Rightarrow> nat \<times> nat" where
  "month_loop [] month days = (month, days)"
| "month_loop (md # mds) month days = (if days < md then (month, days) else month_loop mds (month + 1) (days - md))"

definition unix_to_ymd_hms :: "nat \<Rightarrow> nat \<times> nat \<times> nat \<times> nat \<times> nat \<times> nat" where
  "unix_to_ymd_hms secs0 =
     (let sec = secs0 mod 60; secs1 = secs0 div 60;
          min' = secs1 mod 60; secs2 = secs1 div 60;
          hour = secs2 mod 24; secs3 = secs2 div 24;
          days0 = secs3 mod 2 ^ 32;
          cycles400 = days0 div 146097; days1 = days0 mod 146097;
          cycles100 = min (days1 div 36524) 3; days2 = min days1 (36524 * 3) - cycles100 * 36524;
          cycles4 = days2 div 1461; days3 = days2 mod 1461;
          cycles1 = min (days3 div 365) 3; days4 = min days3 (365 * 3) - cycles1 * 365;
          year = cycles400 * 400 + cycles100 * 100 + cycles4 * 4 + cycles1 + 1970;
          (month, days5) = month_loop (month_days (is_leap year)) 1 days4
      in (year, month, days5 + 1, hour, min', sec))"

definition pad_zero :: "nat \<Rightarrow> nat \<Rightarrow> str" where
  "pad_zero w n = (let ds = dec_digits n in replicate (w - length ds) CHR ''0'' @ ds)"

definition iso8601 :: "nat \<Rightarrow> str" where
  "iso8601 secs = (case unix_to_ymd_hms secs of (y, mo, d, h, mi, sec) \<Rightarrow>
     pad_zero 4 y @ ''-'' @ pad_zero 2 mo @ ''-'' @ pad_zero 2 d @ ''T'' @ pad_zero 2 h @ '':'' @ pad_zero 2 mi
       @ '':'' @ pad_zero 2 sec @ ''Z'')"

subsection \<open>The log\<close>

record audit_entry =
  e_seq :: nat
  e_timestamp :: str
  e_request_id :: str
  e_org_id :: str
  e_model :: str
  e_action :: str
  e_pii_types :: "str list"
  e_risk_score :: f64
  e_latency_ms :: f64
  e_client_ip :: str
  e_prev_hash :: str
  e_hash :: str

text \<open>
  The log file and the writer's buffer. A flush either succeeds or fails after some
  bytes were written, and then the rest stays in the buffer; the capacity of the buffer is
  not modelled.
\<close>

record audit_log =
  log_file :: str
  log_buffer :: str
  log_seq :: nat
  log_prev :: str
  log_secret :: str

datatype io_outcome = IoOk | IoFailed nat

abbreviation genesis :: str where "genesis \<equiv> replicate 64 CHR ''0''"

definition hex_encode :: "bytes \<Rightarrow> str" where
  "hex_encode bs = concat (map (\<lambda>b. [''0123456789abcdef'' ! unat (drop_bit 4 b), ''0123456789abcdef'' ! unat (b AND 0xf)]) bs)"

definition compute_hmac :: "(str \<Rightarrow> str \<Rightarrow> bytes) \<Rightarrow> str \<Rightarrow> str \<Rightarrow> str \<Rightarrow> str" where
  "compute_hmac mac secret prev_hash json_body = hex_encode (mac secret (prev_hash @ json_body))"

definition open_log :: "str \<Rightarrow> str \<Rightarrow> audit_log" where
  "open_log file secret = \<lparr>log_file = file, log_buffer = [], log_seq = 0, log_prev = genesis, log_secret = secret\<rparr>"

definition flush_log :: "io_outcome \<Rightarrow> audit_log \<Rightarrow> bool \<times> audit_log" where
  "flush_log io l = (case io of
     IoOk \<Rightarrow> (True, l\<lparr>log_file := log_file l @ log_buffer l, log_buffer := []\<rparr>)
   | IoFailed k \<Rightarrow> (False, l\<lparr>log_file := log_file l @ take k (log_buffer l), log_buffer := drop k (log_buffer l)\<rparr>))"

text \<open>The arguments of \<open>append\<close>, the clock reading first.\<close>

record append_args =
  a_now :: nat
  a_request_id :: str
  a_org_id :: str
  a_model :: str
  a_action :: str
  a_pii_types :: "str list"
  a_risk_score :: f64
  a_latency_ms :: f64
  a_client_ip :: str

definition new_entry :: "audit_log \<Rightarrow> append_args \<Rightarrow> audit_entry" where
  "new_entry l a = \<lparr>e_seq = log_seq l + 1, e_timestamp = iso8601 (a_now a), e_request_id = a_request_id a,
     e_org_id = a_org_id a, e_model = a_model a, e_action = a_action a, e_pii_types = a_pii_types a,
     e_risk_score = a_risk_score a, e_latency_ms = a_latency_ms a, e_client_ip = a_client_ip a,
     e_prev_hash = log_prev l, e_hash = []\<rparr>"

definition append_log :: "(str \<Rightarrow> str \<Rightarrow> bytes) \<Rightarrow> (audit_entry \<Rightarrow> str) \<Rightarrow> io_outcome \<Rightarrow> append_args \<Rightarrow> audit_log
     \<Rightarrow> audit_entry option \<times> audit_log" where
  "append_log mac to_json io a l =
     (let entry0 = new_entry l a;
          hash_hex = compute_hmac mac (log_secret l) (log_prev l) (to_json entry0);
          entry = entry0\<lparr>e_hash := hash_hex\<rparr>;
          l1 = l\<lparr>log_buffer := log_buffer l @ to_json entry @ [CHR 0x0A]\<rparr>
      in case flush_log io l1 of
           (False, l2) \<Rightarrow> (None, l2)
         | (True, l2) \<Rightarrow> (Some entry, l2\<lparr>log_seq := e_seq entry, log_prev := hash_hex\<rparr>))"

definition last_hashes :: "audit_log \<Rightarrow> str \<times> str" where
  "last_hashes l = (if log_seq l = 0 then (genesis, genesis) else (genesis, log_prev l))"

subsection \<open>Verification\<close>

text \<open>\<open>BufRead::lines\<close>: the pieces between line feeds, a carriage return before the feed dropped.\<close>

definition strip_cr :: "str \<Rightarrow> str" where
  "strip_cr l = (if l \<noteq> [] \<and> last l = CHR 0x0D then butlast l else l)"

definition file_lines :: "str \<Rightarrow> str list" where
  "file_lines s = (let ps = split_on (CHR 0x0A) s in
     map strip_cr (butlast ps) @ (if last ps = [] then [] else [last ps]))"

datatype verify_result =
    Verified nat
  | NotUtf8 nat
  | Unparsable nat
  | ChainBroken nat nat
  | SlicePanic

fun verify_lines :: "(str \<Rightarrow> str \<Rightarrow> bytes) \<Rightarrow> (audit_entry \<Rightarrow> str) \<Rightarrow> (str \<Rightarrow> audit_entry option) \<Rightarrow> str
     \<Rightarrow> str \<Rightarrow> nat \<Rightarrow> nat \<Rightarrow> str list \<Rightarrow> verify_result" where
  "verify_lines mac to_json from_json secret prev cnt line_no [] = Verified cnt"
| "verify_lines mac to_json from_json secret prev cnt line_no (line # rest) =
     (if from_utf8 line = None then NotUtf8 (line_no + 1)
      else if trim line = [] then verify_lines mac to_json from_json secret prev cnt (line_no + 1) rest
      else case from_json line of
          None \<Rightarrow> Unparsable (line_no + 1)
        | Some entry \<Rightarrow>
            let stored_hash = e_hash entry;
                expected = compute_hmac mac secret prev (to_json (entry\<lparr>e_hash := []\<rparr>))
            in if stored_hash \<noteq> expected
               then if length stored_hash < 8 \<or> \<not> is_char_boundary stored_hash 8 then SlicePanic
                    else ChainBroken (e_seq entry) (line_no + 1)
               else verify_lines mac to_json from_json secret stored_hash (e_seq entry) (line_no + 1) rest)"

definition verify_log :: "(str \<Rightarrow> str \<Rightarrow> bytes) \<Rightarrow> (audit_entry \<Rightarrow> str) \<Rightarrow> (str \<Rightarrow> audit_entry option) \<Rightarrow> str \<Rightarrow> str \<Rightarrow> verify_result" where
  "verify_log mac to_json from_json secret file = verify_lines mac to_json from_json secret genesis 0 0 (file_lines file)"

subsection \<open>The calendar is right on three years in four\<close>

definition year_length :: "nat \<Rightarrow> nat" where
  "year_length y = (if is_leap y then 366 else 365)"

text \<open>Days from 1970-01-01 to a date of the Gregorian calendar.\<close>

definition day_number :: "nat \<Rightarrow> nat \<Rightarrow> nat \<Rightarrow> nat" where
  "day_number y m d = sum_list (map year_length [1970..<y]) + sum_list (take (m - 1) (month_days (is_leap y))) + (d - 1)"

definition valid_date :: "nat \<Rightarrow> nat \<Rightarrow> nat \<Rightarrow> bool" where
  "valid_date y m d = (1970 \<le> y \<and> 1 \<le> m \<and> m \<le> 12 \<and> 1 \<le> d \<and> d \<le> month_days (is_leap y) ! (m - 1))"

lemma month_loop_split:
  "days < sum_list mds \<Longrightarrow> month_loop mds m days = (m', d') \<Longrightarrow>
     m \<le> m' \<and> m' < m + length mds \<and> d' < mds ! (m' - m) \<and> sum_list (take (m' - m) mds) + d' = days"
proof (induction mds arbitrary: m days)
  case (Cons md mds)
  show ?case
  proof (cases "days < md")
    case False
    with Cons.prems have *: "days - md < sum_list mds" "month_loop mds (m + 1) (days - md) = (m', d')" by auto
    have "m' - m = Suc (m' - (m + 1))" using Cons.IH [OF *] by linarith
    with Cons.IH [OF *] False show ?thesis by (auto simp: not_less)
  qed (use Cons.prems in simp)
qed simp

lemma month_days_sum: "sum_list (month_days l) = (if l then 366 else 365)" "length (month_days l) = 12"
  by (simp_all add: month_days_def)

lemma leap_1970_2069:
  assumes "1970 \<le> y" and "y < 2070"
  shows "is_leap y = (y mod 4 = 0)"
proof -
  have "y = 2000" if "y mod 100 = 0"
  proof -
    from that obtain k where k: "y = 100 * k" by (auto elim: dvdE)
    with assms have "19 < k" "k < 21" by linarith+
    with k show ?thesis by simp
  qed
  moreover have "y mod 100 = 0" if "y mod 400 = 0" using that by presburger
  ultimately show ?thesis unfolding is_leap_def by (cases "y = 2000") auto
qed

lemma year_length_block:
  assumes "q < 25" and "r < 4"
  shows "year_length (1970 + (4 * q + r)) = (if r = 2 then 366 else 365)"
proof -
  have "(1970 + (4 * q + r)) mod 4 = 0 \<longleftrightarrow> r = 2" using assms(2) by presburger
  with leap_1970_2069 [of "1970 + (4 * q + r)"] assms show ?thesis by (simp add: year_length_def)
qed

definition years_before :: "nat \<Rightarrow> nat" where
  "years_before n = sum_list (map year_length [1970..<1970 + n])"

lemma years_before_Suc: "years_before (Suc n) = years_before n + year_length (1970 + n)"
  using upt_Suc_append [of 1970 "1970 + n"] by (simp add: years_before_def del: upt_Suc)

lemma years_before_within:
  assumes "q < 25" and "r \<le> 4"
  shows "years_before (4 * q + r) = years_before (4 * q) + 365 * r + (if 2 < r then 1 else 0)"
  using assms(2)
proof (induction r)
  case (Suc r)
  then show ?case using assms(1) by (auto simp: years_before_Suc year_length_block)
qed simp

lemma years_before_block: "q \<le> 25 \<Longrightarrow> years_before (4 * q) = 1461 * q"
proof (induction q)
  case (Suc q)
  have "years_before (4 * Suc q) = years_before (4 * q + 4)" by (simp add: ac_simps)
  with Suc years_before_within [of q 4] show ?case by simp
qed (simp add: years_before_def)

text \<open>The decomposition before 2069-12-31: the day number is \<open>1461 * q + d\<close>.\<close>

lemma ymd_unfold:
  assumes "secs div 86400 = 1461 * q + d" and "d < 1461" and "1461 * q + d < 36524"
  shows "unix_to_ymd_hms secs = (let r = min (d div 365) 3; dd = min d 1095 - r * 365; y = 1970 + 4 * q + r;
     (m, k) = month_loop (month_days (is_leap y)) 1 dd in (y, m, k + 1, secs div 3600 mod 24, secs div 60 mod 60, secs mod 60))"
proof -
  have d: "secs div 60 div 60 div 24 = 1461 * q + d" using assms(1) by (simp add: div_mult2_eq [symmetric])
  have "(1461 * q + d) mod 2 ^ 32 = 1461 * q + d" "(1461 * q + d) div 146097 = 0" "(1461 * q + d) mod 146097 = 1461 * q + d"
    "(1461 * q + d) div 36524 = 0" "min (1461 * q + d) (36524 * 3) = 1461 * q + d"
    "(1461 * q + d) div 1461 = q" "(1461 * q + d) mod 1461 = d"
    using assms(2,3) by simp_all
  then show ?thesis
    unfolding unix_to_ymd_hms_def Let_def d
    by (simp only: div_mult2_eq [symmetric] mult_0 min_0L add_0 diff_zero) (simp add: ac_simps)
qed

lemma ymd_day_number:
  assumes "secs div 86400 = 1461 * q + d" and "d < 1461" and "1461 * q + d < 36524"
    and "unix_to_ymd_hms secs = (y, m, dd, h, mi, sec)"
  shows "valid_date y m dd \<and> day_number y m dd = 1461 * q + (if d < 1095 then d else 1096)
     \<and> h = secs div 3600 mod 24 \<and> mi = secs div 60 mod 60 \<and> sec = secs mod 60"
proof -
  define r where "r = min (d div 365) 3"
  define k where "k = min d 1095 - r * 365"
  have q: "q < 25" using assms(3) by linarith
  have r: "r < 4" by (simp add: r_def)
  have k: "k < 365" unfolding k_def r_def using assms(2) by (simp add: min_def) linarith
  obtain m' d' where ml: "month_loop (month_days (is_leap (1970 + 4 * q + r))) 1 k = (m', d')" by fastforce
  have e: "y = 1970 + 4 * q + r" "m = m'" "dd = d' + 1" "h = secs div 3600 mod 24" "mi = secs div 60 mod 60" "sec = secs mod 60"
    using ymd_unfold [OF assms(1,2,3)] assms(4) ml by (simp_all add: Let_def r_def [symmetric] k_def [symmetric])
  note sp = month_loop_split [OF _ ml, unfolded month_days_sum]
  have sp: "1 \<le> m'" "m' < 13" "d' < month_days (is_leap y) ! (m' - 1)" "sum_list (take (m' - 1) (month_days (is_leap y))) + d' = k"
    using sp k e(1) by auto
  have yb: "sum_list (map year_length [1970..<y]) = 1461 * q + 365 * r + (if 2 < r then 1 else 0)"
    using years_before_within [of q r] years_before_block [of q] q r e(1) by (simp add: years_before_def add.assoc)
  have "365 * r + (if 2 < r then 1 else 0) + k = (if d < 1095 then d else 1096)"
    unfolding k_def r_def using assms(2) by (simp add: min_def) linarith
  then have "day_number y m dd = 1461 * q + (if d < 1095 then d else 1096)"
    using yb sp(4) e by (simp add: day_number_def)
  moreover have "valid_date y m dd" using sp e by (simp add: valid_date_def)
  ultimately show ?thesis using e by simp
qed

lemma time_of_day: "secs = 86400 * (secs div 86400) + 3600 * (secs div 3600 mod 24) + 60 * (secs div 60 mod 60) + secs mod 60"
  for secs :: nat
proof -
  have "secs div 86400 = secs div 3600 div 24" "secs div 3600 = secs div 60 div 60" by (simp_all add: div_mult2_eq [symmetric])
  with mult_div_mod_eq [of 60 secs] mult_div_mod_eq [of 60 "secs div 60"] mult_div_mod_eq [of 24 "secs div 3600"]
  show ?thesis by linarith
qed

lemma may_2025: "unix_to_ymd_hms (20236 * 86400) = (2025, 1, 1, 0, 0, 0)"
  using ymd_unfold [of "20236 * 86400" 13 1243]
  by (simp add: Let_def month_days_def)

text \<open>
  Before 2069-12-31 a timestamp is always a date of the calendar, and it denotes the
  second it was made from exactly when the day falls in the first 1095 days of its
  four-year cycle counted from 1970, or on day 1096; every other day of the fourth year is
  stamped with the first of January.
\<close>

lemma timestamp_right_iff:
  assumes "secs div 86400 < 36524"
  shows "case unix_to_ymd_hms secs of (y, m, d, h, mi, sec) \<Rightarrow>
     valid_date y m d \<and> h < 24 \<and> mi < 60 \<and> sec < 60
     \<and> (86400 * day_number y m d + 3600 * h + 60 * mi + sec = secs
        \<longleftrightarrow> secs div 86400 mod 1461 < 1095 \<or> secs div 86400 mod 1461 = 1096)
     \<and> (1095 \<le> secs div 86400 mod 1461 \<longrightarrow> m = 1 \<and> d = 1)"
proof -
  define q where "q = secs div 86400 div 1461"
  define t where "t = secs div 86400 mod 1461"
  have D: "secs div 86400 = 1461 * q + t" "t < 1461" "1461 * q + t < 36524" using assms by (simp_all add: q_def t_def)
  obtain y m d h mi sec where u: "unix_to_ymd_hms secs = (y, m, d, h, mi, sec)" by (metis prod_cases6)
  note f = ymd_day_number [OF D u]
  note tod = time_of_day [of secs]
  have "m = 1 \<and> d = 1" if "1095 \<le> t"
    using ymd_unfold [OF D] u that by (simp add: Let_def month_days_def split: if_splits)
  moreover have "86400 * day_number y m d + 3600 * h + 60 * mi + sec = secs \<longleftrightarrow> t < 1095 \<or> t = 1096"
  proof -
    have s: "secs = 86400 * (1461 * q + t) + 3600 * h + 60 * mi + sec" using f tod [unfolded D(1)] by simp
    have "86400 * (1461 * q + x) + 3600 * h + 60 * mi + sec = secs \<longleftrightarrow> x = t" for x
      unfolding s by simp
    with f show ?thesis by auto
  qed
  ultimately show ?thesis using f unfolding u t_def [symmetric] by simp
qed

subsection \<open>What the verifier accepts\<close>

fun parse_entries :: "(str \<Rightarrow> audit_entry option) \<Rightarrow> str list \<Rightarrow> audit_entry list option" where
  "parse_entries from_json [] = Some []"
| "parse_entries from_json (line # rest) =
     (if from_utf8 line = None then None else if trim line = [] then parse_entries from_json rest
      else case from_json line of None \<Rightarrow> None | Some e \<Rightarrow> map_option (Cons e) (parse_entries from_json rest))"

definition entry_body :: "(audit_entry \<Rightarrow> str) \<Rightarrow> audit_entry \<Rightarrow> str" where
  "entry_body to_json e = to_json (e\<lparr>e_hash := []\<rparr>)"

definition last_hash :: "str \<Rightarrow> audit_entry list \<Rightarrow> str" where
  "last_hash prev es = (if es = [] then prev else e_hash (last es))"

fun chained :: "(str \<Rightarrow> str \<Rightarrow> bytes) \<Rightarrow> (audit_entry \<Rightarrow> str) \<Rightarrow> str \<Rightarrow> str \<Rightarrow> audit_entry list \<Rightarrow> bool" where
  "chained mac to_json secret prev [] = True"
| "chained mac to_json secret prev (e # es) =
     (e_hash e = compute_hmac mac secret prev (entry_body to_json e) \<and> chained mac to_json secret (e_hash e) es)"

lemma last_hash_simps [simp]: "last_hash prev [] = prev" "last_hash prev (e # es) = last_hash (e_hash e) es"
  "last_hash prev (es @ [e]) = e_hash e"
  by (simp_all add: last_hash_def)

lemma chained_append: "chained mac to_json secret prev (es @ fs) =
   (chained mac to_json secret prev es \<and> chained mac to_json secret (last_hash prev es) fs)"
  by (induction es arbitrary: prev) auto

lemma verify_lines_iff:
  "verify_lines mac to_json from_json secret prev cnt lno lines = Verified n \<longleftrightarrow>
     (\<exists>es. parse_entries from_json lines = Some es \<and> chained mac to_json secret prev es
        \<and> n = (if es = [] then cnt else e_seq (last es)))"
proof (induction lines arbitrary: prev cnt lno)
  case (Cons line rest)
  consider (skip) "from_utf8 line \<noteq> None" "trim line = []" | (bad) "from_utf8 line = None \<or> trim line \<noteq> [] \<and> from_json line = None"
    | (entry) e y where "from_utf8 line = Some y" "trim line \<noteq> []" "from_json line = Some e"
    by (metis option.exhaust)
  then show ?case
  proof cases
    case skip
    with Cons.IH [of prev cnt "lno + 1"] show ?thesis by auto
  next
    case bad
    then have "parse_entries from_json (line # rest) = None" by auto
    moreover have "verify_lines mac to_json from_json secret prev cnt lno (line # rest) \<noteq> Verified n" using bad by auto
    ultimately show ?thesis by simp
  next
    case entry
    show ?thesis
    proof (cases "e_hash e = compute_hmac mac secret prev (entry_body to_json e)")
      case True
      have "verify_lines mac to_json from_json secret prev cnt lno (line # rest)
          = verify_lines mac to_json from_json secret (e_hash e) (e_seq e) (lno + 1) rest"
        using entry True by (simp add: Let_def entry_body_def)
      moreover have "parse_entries from_json (line # rest) = map_option (Cons e) (parse_entries from_json rest)"
        using entry by simp
      ultimately show ?thesis using Cons.IH [of "e_hash e" "e_seq e" "lno + 1"] True
        by (cases "parse_entries from_json rest") (simp_all del: verify_lines.simps parse_entries.simps)
    next
      case f: False
      then have "verify_lines mac to_json from_json secret prev cnt lno (line # rest) \<noteq> Verified n"
        using entry by (simp add: Let_def entry_body_def)
      with f entry show ?thesis by auto
    qed
  qed
qed auto

subsection \<open>A log written without failures\<close>

fun entries_from :: "(str \<Rightarrow> str \<Rightarrow> bytes) \<Rightarrow> (audit_entry \<Rightarrow> str) \<Rightarrow> audit_log \<Rightarrow> append_args list \<Rightarrow> audit_entry list" where
  "entries_from mac to_json l [] = []"
| "entries_from mac to_json l (a # as) = (case append_log mac to_json IoOk a l of
     (None, l') \<Rightarrow> entries_from mac to_json l' as | (Some e, l') \<Rightarrow> e # entries_from mac to_json l' as)"

definition run_log :: "(str \<Rightarrow> str \<Rightarrow> bytes) \<Rightarrow> (audit_entry \<Rightarrow> str) \<Rightarrow> audit_log \<Rightarrow> append_args list \<Rightarrow> audit_log" where
  "run_log mac to_json l as = foldl (\<lambda>l a. snd (append_log mac to_json IoOk a l)) l as"

definition log_text :: "(audit_entry \<Rightarrow> str) \<Rightarrow> audit_entry list \<Rightarrow> str" where
  "log_text to_json es = concat (map (\<lambda>e. to_json e @ [CHR 0x0A]) es)"

text \<open>What is assumed of the derived serializer on the entries at hand: it can be read back, and the text is one non-blank line.\<close>

definition codec_ok :: "(audit_entry \<Rightarrow> str) \<Rightarrow> (str \<Rightarrow> audit_entry option) \<Rightarrow> audit_entry \<Rightarrow> bool" where
  "codec_ok to_json from_json e = (from_json (to_json e) = Some e \<and> CHR 0x0A \<notin> set (to_json e) \<and> CHR 0x0D \<notin> set (to_json e)
     \<and> from_utf8 (to_json e) \<noteq> None \<and> trim (to_json e) \<noteq> [])"

lemma append_ok:
  assumes "log_buffer l = []"
  obtains e l' where "append_log mac to_json IoOk a l = (Some e, l')" and "e_seq e = Suc (log_seq l)"
    and "e_hash e = compute_hmac mac (log_secret l) (log_prev l) (entry_body to_json e)"
    and "log_buffer l' = []" and "log_secret l' = log_secret l" and "log_seq l' = Suc (log_seq l)" and "log_prev l' = e_hash e"
    and "log_file l' = log_file l @ to_json e @ [CHR 0x0A]" and "entry_body to_json e = to_json (new_entry l a)"
proof -
  let ?h = "compute_hmac mac (log_secret l) (log_prev l) (to_json (new_entry l a))"
  have b: "(new_entry l a)\<lparr>e_hash := []\<rparr> = new_entry l a" by (simp add: new_entry_def)
  show thesis
    by (rule that [of "(new_entry l a)\<lparr>e_hash := ?h\<rparr>" "l\<lparr>log_file := log_file l @ to_json ((new_entry l a)\<lparr>e_hash := ?h\<rparr>) @ [CHR 0x0A],
          log_seq := Suc (log_seq l), log_prev := ?h\<rparr>"])
       (use assms b in \<open>simp_all add: append_log_def flush_log_def Let_def entry_body_def new_entry_def\<close>)
qed

lemma run_log_ok:
  assumes "log_buffer l = []"
  shows "log_file (run_log mac to_json l as) = log_file l @ log_text to_json (entries_from mac to_json l as)
    \<and> chained mac to_json (log_secret l) (log_prev l) (entries_from mac to_json l as)
    \<and> map e_seq (entries_from mac to_json l as) = [Suc (log_seq l)..<Suc (log_seq l) + length as]
    \<and> log_prev (run_log mac to_json l as) = last_hash (log_prev l) (entries_from mac to_json l as)"
  using assms
proof (induction as arbitrary: l)
  case Nil
  then show ?case by (simp add: run_log_def log_text_def)
next
  case (Cons a as)
  obtain e l' where ap: "append_log mac to_json IoOk a l = (Some e, l')" and e: "e_seq e = Suc (log_seq l)"
    "e_hash e = compute_hmac mac (log_secret l) (log_prev l) (entry_body to_json e)"
    and l': "log_buffer l' = []" "log_secret l' = log_secret l" "log_seq l' = Suc (log_seq l)" "log_prev l' = e_hash e"
      "log_file l' = log_file l @ to_json e @ [CHR 0x0A]"
    using append_ok [OF Cons.prems] by metis
  have "run_log mac to_json l (a # as) = run_log mac to_json l' as" by (simp add: run_log_def ap)
  moreover have "entries_from mac to_json l (a # as) = e # entries_from mac to_json l' as" by (simp add: ap)
  ultimately show ?case
    using Cons.IH [OF l'(1)] e l' by (simp add: log_text_def upt_conv_Cons del: entries_from.simps upt_Suc)
qed

lemma entries_length: "log_buffer l = [] \<Longrightarrow> length (entries_from mac to_json l as) = length as"
  using run_log_ok [of l mac to_json as] by (metis add_diff_cancel_left' length_map length_upt)

lemma split_text:
  "\<forall>e\<in>set es. CHR 0x0A \<notin> set (to_json e) \<Longrightarrow> split_on (CHR 0x0A) (log_text to_json es) = map to_json es @ [[]]"
  by (induction es) (simp_all add: log_text_def split_on_append_sep)

lemma strip_cr_id: "CHR 0x0D \<notin> set l \<Longrightarrow> strip_cr l = l"
  unfolding strip_cr_def by (metis last_in_set)

lemma file_lines_text:
  "\<forall>e\<in>set es. CHR 0x0A \<notin> set (to_json e) \<and> CHR 0x0D \<notin> set (to_json e) \<Longrightarrow> file_lines (log_text to_json es) = map to_json es"
  by (simp add: file_lines_def Let_def split_text strip_cr_id)

lemma parse_entries_text:
  "\<forall>e\<in>set es. codec_ok to_json from_json e \<Longrightarrow> parse_entries from_json (map to_json es) = Some es"
  by (induction es) (auto simp: codec_ok_def)

lemma codec_lines: "\<forall>e\<in>set es. codec_ok to_json from_json e \<Longrightarrow> file_lines (log_text to_json es) = map to_json es"
  by (rule file_lines_text) (simp add: codec_ok_def)


subsection \<open>A log that is reopened\<close>

lemma hex_encode_hex_of: "hex_encode bs = hex_of bs"
proof -
  have "unat (drop_bit 4 b) = unat b div 16" for b :: byte
    by (simp only: unat_drop_bit_eq) (simp add: drop_bit_eq_div)
  moreover have "unat (b AND 0xf) = unat b mod 16" for b :: byte
  proof -
    have "b AND 0xf = take_bit 4 b" by (simp add: take_bit_eq_mask mask_eq_exp_minus_1)
    then show ?thesis by (simp only: unsigned_take_bit_eq) (simp add: take_bit_eq_mod)
  qed
  ultimately show ?thesis unfolding hex_encode_def hex_of_def hex_digit_def by simp
qed

lemma hex_digit_ascii: "n < 16 \<Longrightarrow> \<not> contb (of_char (hex_digit n))"
proof -
  assume "n < 16"
  moreover have "\<forall>c\<in>set ''0123456789abcdef''. \<not> contb (of_char c)" by (simp add: contb_def)
  ultimately show ?thesis unfolding hex_digit_def by (metis nth_mem length_hex_digits)
qed

lemma hex_of_boundary: "length bs = 32 \<Longrightarrow> is_char_boundary (hex_of bs) 8"
proof -
  assume l: "length bs = 32"
  have lt: "unat b div 16 < 16" for b :: byte using byte_lt [of b] by simp
  have "\<forall>c\<in>set (hex_of bs). \<not> contb (of_char c)"
    using lt by (auto simp: hex_of_def hex_digit_ascii)
  with l show ?thesis unfolding is_char_boundary_def by simp
qed

lemma hmac_facts:
  assumes "\<And>k m. length (mac k m) = 32"
  shows "length (compute_hmac mac s p b) = 64" and "is_char_boundary (compute_hmac mac s p b) 8"
    and "compute_hmac mac s p b = compute_hmac mac s p' b' \<longleftrightarrow> mac s (p @ b) = mac s (p' @ b')"
  using assms hex_of_inj by (auto simp: compute_hmac_def hex_encode_hex_of hex_of_boundary)

lemma verify_lines_good_prefix:
  "parse_entries from_json (map to_json es) = Some es \<Longrightarrow> \<forall>e\<in>set es. codec_ok to_json from_json e \<Longrightarrow>
   chained mac to_json secret prev es \<Longrightarrow> e_hash e \<noteq> compute_hmac mac secret (last_hash prev es) (entry_body to_json e) \<Longrightarrow>
   length (e_hash e) \<ge> 8 \<Longrightarrow> is_char_boundary (e_hash e) 8 \<Longrightarrow> codec_ok to_json from_json e \<Longrightarrow>
   verify_lines mac to_json from_json secret prev cnt lno (map to_json es @ to_json e # rest) = ChainBroken (e_seq e) (lno + length es + 1)"
proof (induction es arbitrary: prev cnt lno)
  case Nil
  then show ?case by (auto simp: codec_ok_def Let_def entry_body_def)
next
  case (Cons e0 es)
  then have "parse_entries from_json (map to_json es) = Some es" using parse_entries_text by simp
  with Cons show ?case by (auto simp: codec_ok_def Let_def entry_body_def)
qed

text \<open>
  A log that is opened again and appended to no longer verifies: the sequence and the
  previous hash restart at the genesis values, so verification stops at the first entry
  after the reopening, whose sequence number is 1 again. The digests of that entry under
  the genesis hash and under the hash it should have continued are assumed to differ.
\<close>

lemma reopened_log_breaks:
  assumes "\<And>k m. length (mac k m) = 32" and "as = a0 # as'" and "bs = b # bs'"
    and "l = run_log mac to_json (open_log [] secret) as" and "l' = open_log (log_file l) secret"
    and "\<forall>e\<in>set (entries_from mac to_json (open_log [] secret) as @ entries_from mac to_json l' bs). codec_ok to_json from_json e"
    and "mac secret (genesis @ to_json (new_entry l' b)) \<noteq> mac secret (log_prev l @ to_json (new_entry l' b))"
  shows "verify_log mac to_json from_json secret (log_file (run_log mac to_json l' bs)) = ChainBroken 1 (length as + 1)"
proof -
  let ?es = "entries_from mac to_json (open_log [] secret) as"
  have l: "log_file l = log_text to_json ?es" "chained mac to_json secret genesis ?es" "log_prev l = last_hash genesis ?es"
    using run_log_ok [of "open_log [] secret" mac to_json as] by (simp_all add: assms(4) open_log_def)
  have b0: "log_buffer l' = []" "log_secret l' = secret" "log_prev l' = genesis" "log_seq l' = 0" "log_file l' = log_file l"
    by (simp_all add: assms(5) open_log_def)
  obtain e l2 where e: "append_log mac to_json IoOk b l' = (Some e, l2)" "e_seq e = Suc (log_seq l')"
    "e_hash e = compute_hmac mac (log_secret l') (log_prev l') (entry_body to_json e)" "entry_body to_json e = to_json (new_entry l' b)"
    using append_ok [OF b0(1)] by metis
  obtain fs where f: "entries_from mac to_json l' bs = e # fs" using e(1) assms(3) by simp
  have "log_file (run_log mac to_json l' bs) = log_text to_json (?es @ e # fs)"
    using run_log_ok [OF b0(1), of mac to_json bs] l(1) f b0(5) by (simp add: log_text_def)
  then have fl: "file_lines (log_file (run_log mac to_json l' bs)) = map to_json ?es @ to_json e # map to_json fs"
    using codec_lines [of "?es @ e # fs" to_json from_json] assms(6) f by simp
  have "e_hash e \<noteq> compute_hmac mac secret (last_hash genesis ?es) (entry_body to_json e)"
    using e(3,4) assms(7) l(3) b0 hmac_facts(3) [where mac = mac, OF assms(1)] by simp
  moreover have "length ?es = length as" using entries_length [of "open_log [] secret"] by (simp add: open_log_def)
  ultimately show ?thesis
    unfolding verify_log_def fl
    using verify_lines_good_prefix [of from_json to_json ?es mac secret genesis e 0 0 "map to_json fs"]
      parse_entries_text [of ?es to_json from_json] assms(6) f l(2) e(2,3) b0(4) hmac_facts(1,2) [where mac = mac, OF assms(1)]
    by simp
qed

subsection \<open>The last hash commits to the log\<close>

fun log_inputs :: "(audit_entry \<Rightarrow> str) \<Rightarrow> str \<Rightarrow> audit_entry list \<Rightarrow> str set" where
  "log_inputs to_json prev [] = {}"
| "log_inputs to_json prev (e # es) = insert (prev @ entry_body to_json e) (log_inputs to_json (e_hash e) es)"

lemma log_inputs_snoc:
  "log_inputs to_json prev (es @ [e]) = insert (last_hash prev es @ entry_body to_json e) (log_inputs to_json prev es)"
  by (induction es arbitrary: prev) auto

lemma chained_hash_length:
  "(\<And>k m. length (mac k m) = 32) \<Longrightarrow> chained mac to_json secret prev es \<Longrightarrow> length prev = 64 \<Longrightarrow> length (last_hash prev es) = 64"
proof (induction es arbitrary: prev)
  case (Cons e es)
  have "length (e_hash e) = 64" using Cons.prems(2) hmac_facts(1) [where mac = mac, OF Cons.prems(1)] by simp
  with Cons.IH [OF Cons.prems(1), of "e_hash e"] Cons.prems(2) show ?case by (metis chained.simps(2) last_hash_simps(2))
qed simp

lemma chained_binds:
  assumes mac: "\<And>k m. length (mac k m) = 32"
    and "chained mac to_json secret prev es" and "chained mac to_json secret prev es'" and "length es = length es'"
    and "length prev = 64" and "last_hash prev es = last_hash prev es'"
    and nc: "\<forall>x\<in>log_inputs to_json prev es. \<forall>y\<in>log_inputs to_json prev es'. mac secret x = mac secret y \<longrightarrow> x = y"
  shows "map (entry_body to_json) es = map (entry_body to_json) es'"
  using assms(2-7)
proof (induction es arbitrary: es' rule: rev_induct)
  case (snoc e es)
  then obtain e' xs where x: "es' = xs @ [e']" "length es = length xs" by (cases es' rule: rev_cases) auto
  let ?p = "last_hash prev es" and ?q = "last_hash prev xs"
  have c: "chained mac to_json secret prev es" "chained mac to_json secret prev xs"
    and h: "compute_hmac mac secret ?p (entry_body to_json e) = compute_hmac mac secret ?q (entry_body to_json e')"
    using snoc.prems x by (simp_all add: chained_append)
  have "?p @ entry_body to_json e = ?q @ entry_body to_json e'"
    using h hmac_facts(3) [where mac = mac, OF mac] snoc.prems(6) x by (simp add: log_inputs_snoc)
  moreover have "length ?p = length ?q" using chained_hash_length [where mac = mac, OF mac] c snoc.prems(4) by simp
  ultimately have "?p = ?q" "entry_body to_json e = entry_body to_json e'" by simp_all
  with snoc.IH [of xs] snoc.prems c x show ?case by (simp add: log_inputs_snoc)
qed simp


subsection \<open>A concrete log\<close>

definition demo_mac :: "str \<Rightarrow> str \<Rightarrow> bytes" where
  "demo_mac k m = replicate 32 (if take 1 m = ''0'' then 0x11 else 0x22)"

definition demo_args :: append_args where
  "demo_args = \<lparr>a_now = 0, a_request_id = ''r'', a_org_id = ''o'', a_model = ''m'', a_action = ''block'', a_pii_types = [],
     a_risk_score = Fin 0, a_latency_ms = Fin 0, a_client_ip = ''127.0.0.1''\<rparr>"

definition demo_entry :: audit_entry where
  "demo_entry = (new_entry (open_log [] ''k'') demo_args)\<lparr>e_hash := hex_encode (replicate 32 0x11)\<rparr>"

definition demo_to :: "audit_entry \<Rightarrow> str" where
  "demo_to e = (if e_hash e = [] then ''b'' else ''e'')"

definition demo_from :: "str \<Rightarrow> audit_entry option" where
  "demo_from s = (if s = ''e'' then Some demo_entry else None)"

lemma demo_trim: "from_utf8 ''e'' \<noteq> None \<and> trim ''e'' \<noteq> []"
  by code_simp

lemma demo_hash: "hex_encode (replicate 32 0x11) = CHR ''1'' # CHR ''1'' # hex_of (replicate 31 0x11)"
proof -
  have "replicate 32 (0x11 :: byte) = 0x11 # replicate 31 0x11" by (simp flip: replicate_Suc)
  then show ?thesis by (simp add: hex_encode_hex_of hex_of_def hex_digit_def)
qed

lemma demo_hash_not_Nil: "e_hash demo_entry \<noteq> []"
  by (simp add: demo_entry_def demo_hash)

lemma demo_codec: "codec_ok demo_to demo_from demo_entry"
  using demo_trim demo_hash_not_Nil by (simp add: codec_ok_def demo_to_def demo_from_def)

lemma demo_append: "entries_from demo_mac demo_to (open_log f ''k'') [demo_args] = [demo_entry]"
  by (simp add: append_log_def flush_log_def Let_def open_log_def new_entry_def demo_entry_def
      compute_hmac_def demo_mac_def demo_to_def) 



end
