(* ===== verification/Hpack.thy ===== *)
theory Hpack
  imports Prelude
begin

text \<open>
  The HPACK decoder of \<open>http/hpack.rs\<close>: the static and dynamic tables, the integer and
  string decoders, the Huffman tree built from the source's code table and the loop
  over the four field representations. Sizes that come from the wire are 64-bit words
  that wrap; a slice whose end lies before its start is a panic.
\<close>

datatype 'a hres = HOk 'a | HErr str | HPanic

type_synonym hfield = "bytes \<times> bytes"

subsection \<open>The static table\<close>

definition static_strings :: "(str \<times> str) list" where
  "static_strings =
    [('':authority'', ''''), ('':method'', ''GET''), ('':method'', ''POST''), ('':path'', ''/''),
     ('':path'', ''/index.html''), ('':scheme'', ''http''), ('':scheme'', ''https''), ('':status'', ''200''),
     ('':status'', ''204''), ('':status'', ''206''), ('':status'', ''304''), ('':status'', ''400''),
     ('':status'', ''404''), ('':status'', ''500''), (''accept-charset'', ''''),
     (''accept-encoding'', ''gzip, deflate''), (''accept-language'', ''''), (''accept-ranges'', ''''),
     (''accept'', ''''), (''access-control-allow-origin'', ''''), (''age'', ''''), (''allow'', ''''),
     (''authorization'', ''''), (''cache-control'', ''''), (''content-disposition'', ''''),
     (''content-encoding'', ''''), (''content-language'', ''''), (''content-length'', ''''),
     (''content-location'', ''''), (''content-range'', ''''), (''content-type'', ''''), (''cookie'', ''''),
     (''date'', ''''), (''etag'', ''''), (''expect'', ''''), (''expires'', ''''), (''from'', ''''),
     (''host'', ''''), (''if-match'', ''''), (''if-modified-since'', ''''), (''if-none-match'', ''''),
     (''if-range'', ''''), (''if-unmodified-since'', ''''), (''last-modified'', ''''), (''link'', ''''),
     (''location'', ''''), (''max-forwards'', ''''), (''proxy-authenticate'', ''''),
     (''proxy-authorization'', ''''), (''range'', ''''), (''referer'', ''''), (''refresh'', ''''),
     (''retry-after'', ''''), (''server'', ''''), (''set-cookie'', ''''), (''strict-transport-security'', ''''),
     (''transfer-encoding'', ''''), (''user-agent'', ''''), (''vary'', ''''), (''via'', ''''),
     (''www-authenticate'', '''')]"

definition STATIC_TABLE :: "hfield list" where
  "STATIC_TABLE = map (\<lambda>(n, v). (as_bytes n, as_bytes v)) static_strings"

subsection \<open>Huffman strings\<close>

definition HUFF_TABLE :: "(32 word \<times> nat) list" where
  "HUFF_TABLE =
    [
     (0x1ff8, 13), (0x7fffd8, 23), (0xfffffe2, 28), (0xfffffe3, 28), (0xfffffe4, 28), (0xfffffe5, 28),
     (0xfffffe6, 28), (0xfffffe7, 28), (0xfffffe8, 28), (0xffffea, 24), (0x3ffffffc, 30), (0xfffffe9, 28),
     (0xfffffea, 28), (0x3ffffffd, 30), (0xfffffeb, 28), (0xfffffec, 28), (0xfffffed, 28), (0xfffffee, 28),
     (0xfffffef, 28), (0xffffff0, 28), (0xffffff1, 28), (0xffffff2, 28), (0x3ffffffe, 30), (0xffffff3, 28),
     (0xffffff4, 28), (0xffffff5, 28), (0xffffff6, 28), (0xffffff7, 28), (0xffffff8, 28), (0xffffff9, 28),
     (0xffffffa, 28), (0xffffffb, 28), (0x14, 6), (0x3f8, 10), (0x3f9, 10), (0xffa, 12), (0x1ff9, 13), (0x15, 6),
     (0xf8, 8), (0x7fa, 11), (0x3fa, 10), (0x3fb, 10), (0xf9, 8), (0x7fb, 11), (0xfa, 8), (0x16, 6), (0x17, 6),
     (0x18, 6), (0x0, 5), (0x1, 5), (0x2, 5), (0x19, 6), (0x1a, 6), (0x1b, 6), (0x1c, 6), (0x1d, 6), (0x1e, 6),
     (0x1f, 6), (0x5c, 7), (0xfb, 8), (0x7ffc, 15), (0x20, 6), (0xffb, 12), (0x3fc, 10), (0x1ffa, 13), (0x21, 6),
     (0x5d, 7), (0x5e, 7), (0x5f, 7), (0x22, 6), (0x7ffd, 15), (0x60, 7), (0x61, 7), (0x62, 7), (0x63, 7),
     (0x64, 7), (0x65, 7), (0x66, 7), (0x67, 7), (0x68, 7), (0x69, 7), (0x6a, 7), (0x6b, 7), (0x6c, 7), (0x6d, 7),
     (0x6e, 7), (0x6f, 7), (0x70, 7), (0x71, 7), (0x72, 7), (0xfc, 8), (0x73, 7), (0xfd, 8), (0x1ffb, 13),
     (0x7fff0, 19), (0x1ffc, 13), (0x3ffc, 14), (0x23, 6), (0x6e, 7), (0x24, 6), (0x74, 7), (0x75, 7), (0x28, 6),
     (0x76, 7), (0x77, 7), (0x78, 7), (0x25, 6), (0x79, 7), (0x7a, 7), (0x26, 6), (0x7b, 7), (0x7c, 7), (0x7d, 7),
     (0x7e, 7), (0x7f, 7), (0x80, 7), (0x81, 7), (0x82, 7), (0x83, 7), (0x84, 7), (0x85, 7), (0x86, 7), (0x87, 7),
     (0x88, 7), (0x89, 7), (0x8a, 7), (0x8b, 7), (0x8c, 7), (0x8d, 7), (0x8e, 7), (0x8f, 7), (0x90, 7), (0x91, 7),
     (0x92, 7), (0x93, 7), (0x94, 7), (0x95, 7), (0x96, 7), (0x97, 7), (0x98, 7), (0x99, 7), (0x9a, 7), (0x9b, 7),
     (0x9c, 7), (0x9d, 7), (0x9e, 7), (0x9f, 7), (0xa0, 7), (0xa1, 7), (0xa2, 7), (0xa3, 7), (0xa4, 7), (0xa5, 7),
     (0xa6, 7), (0xa7, 7), (0xa8, 7), (0xa9, 7), (0xaa, 7), (0xab, 7), (0xac, 7), (0xad, 7), (0xae, 7), (0xaf, 7),
     (0xb0, 7), (0xb1, 7), (0xb2, 7), (0xb3, 7), (0xb4, 7), (0xb5, 7), (0xb6, 7), (0xb7, 7), (0xb8, 7), (0xb9, 7),
     (0xba, 7), (0xbb, 7), (0xbc, 7), (0xbd, 7), (0xbe, 7), (0xbf, 7), (0xc0, 7), (0xc1, 7), (0xc2, 7), (0xc3, 7),
     (0xc4, 7), (0xc5, 7), (0xc6, 7), (0xc7, 7), (0xc8, 7), (0xc9, 7), (0xca, 7), (0xcb, 7), (0xcc, 7), (0xcd, 7),
     (0xce, 7), (0xcf, 7), (0xd0, 7), (0xd1, 7), (0xd2, 7), (0xd3, 7), (0xd4, 7), (0xd5, 7), (0xd6, 7), (0xd7, 7),
     (0xd8, 7), (0xd9, 7), (0xda, 7), (0xdb, 7), (0xdc, 7), (0xdd, 7), (0xde, 7), (0xdf, 7), (0xe0, 7), (0xe1, 7),
     (0xe2, 7), (0xe3, 7), (0xe4, 7), (0xe5, 7), (0xe6, 7), (0xe7, 7), (0xe8, 7), (0xe9, 7), (0xea, 7), (0xeb, 7),
     (0xec, 7), (0xed, 7), (0xee, 7), (0xef, 7), (0xf0, 7), (0xf1, 7), (0xf2, 7), (0xf3, 7), (0xf4, 7), (0xf5, 7),
     (0xf6, 7), (0xf7, 7), (0xfffffe0, 28), (0xfffffe1, 28)]"

datatype huff_node = HuffNode "byte option" "huff_node option" "huff_node option"

abbreviation new_inner :: huff_node where "new_inner \<equiv> HuffNode None None None"

fun huff_insert :: "bool list \<Rightarrow> byte \<Rightarrow> huff_node \<Rightarrow> huff_node" where
  "huff_insert [] smb (HuffNode s l r) = HuffNode (Some smb) l r"
| "huff_insert (b # bs) smb (HuffNode s l r) =
     (if \<not> b then HuffNode s (Some (huff_insert bs smb (case l of None \<Rightarrow> new_inner | Some n \<Rightarrow> n))) r
      else HuffNode s l (Some (huff_insert bs smb (case r of None \<Rightarrow> new_inner | Some n \<Rightarrow> n))))"

definition code_bits :: "32 word \<Rightarrow> nat \<Rightarrow> bool list" where
  "code_bits code nbits = map (\<lambda>p. drop_bit p code AND 1 \<noteq> 0) (rev [0..<nbits])"

definition huff_tree :: huff_node where
  "huff_tree = foldl (\<lambda>t (smb, code, nbits). huff_insert (code_bits code nbits) (word_of_nat smb) t) new_inner
     (enumerate 0 HUFF_TABLE)"

definition byte_bits :: "byte \<Rightarrow> bool list" where
  "byte_bits b = map (\<lambda>p. drop_bit p b AND 1 \<noteq> 0) (rev [0..<8])"

fun huff_walk :: "huff_node \<Rightarrow> huff_node \<Rightarrow> nat \<Rightarrow> bool list \<Rightarrow> bytes hres" where
  "huff_walk rt cur bit_count [] = (if bit_count > 7 then HErr ''huffman padding too long'' else HOk [])"
| "huff_walk rt (HuffNode _ l r) bit_count (b # bs) =
     (case (if \<not> b then l else r) of
        None \<Rightarrow> HErr ''invalid huffman code''
      | Some (HuffNode None l' r') \<Rightarrow> huff_walk rt (HuffNode None l' r') (bit_count + 1) bs
      | Some (HuffNode (Some smb) l' r') \<Rightarrow>
          (case huff_walk rt rt 0 bs of HOk out \<Rightarrow> HOk (smb # out) | HErr e \<Rightarrow> HErr e | HPanic \<Rightarrow> HPanic))"

definition huffman_decode :: "bytes \<Rightarrow> bytes hres" where
  "huffman_decode encoded = huff_walk huff_tree huff_tree 0 (concat (map byte_bits encoded))"

subsection \<open>The dynamic table\<close>

record dyn_table =
  dt_entries :: "hfield list"
  dt_size :: nat
  dt_max :: nat

definition entry_size :: "hfield \<Rightarrow> nat" where
  "entry_size e = length (fst e) + length (snd e) + 32"

definition new_table :: "nat \<Rightarrow> dyn_table" where
  "new_table m = \<lparr>dt_entries = [], dt_size = 0, dt_max = m\<rparr>"

text \<open>The eviction loop of \<open>add\<close>; with nothing to make room for it is the loop of \<open>evict\<close>.\<close>

function evict_for :: "nat \<Rightarrow> dyn_table \<Rightarrow> dyn_table" where
  "evict_for need t =
     (if dt_size t + need > dt_max t \<and> dt_entries t \<noteq> []
      then evict_for need (t\<lparr>dt_entries := butlast (dt_entries t), dt_size := dt_size t - entry_size (last (dt_entries t))\<rparr>)
      else t)"
  by auto
termination
  by (relation "measure (\<lambda>(need, t). length (dt_entries t))") auto

declare evict_for.simps [simp del]

definition update_max_size :: "nat \<Rightarrow> dyn_table \<Rightarrow> dyn_table" where
  "update_max_size new_max t = evict_for 0 (t\<lparr>dt_max := new_max\<rparr>)"

definition dt_add :: "hfield \<Rightarrow> dyn_table \<Rightarrow> dyn_table" where
  "dt_add e t =
     (let t' = evict_for (entry_size e) t
      in if entry_size e \<le> dt_max t' then t'\<lparr>dt_size := dt_size t' + entry_size e, dt_entries := e # dt_entries t'\<rparr> else t')"

definition dt_get :: "nat \<Rightarrow> dyn_table \<Rightarrow> hfield option" where
  "dt_get i t = (if i < length (dt_entries t) then Some (dt_entries t ! i) else None)"

subsection \<open>Integers and strings\<close>

fun int_loop :: "bytes \<Rightarrow> 64 word \<Rightarrow> nat \<Rightarrow> nat \<Rightarrow> (64 word \<times> nat) hres" where
  "int_loop [] val shift i = HErr ''HPACK: integer truncated''"
| "int_loop (b # bs) val shift i =
     (let val' = val + push_bit shift (ucast (b AND 0x7f))
      in if b AND 0x80 = 0 then HOk (val', i + 1)
         else if shift + 7 > 63 then HErr ''HPACK: integer overflow''
         else int_loop bs val' (shift + 7) (i + 1))"

definition decode_int :: "bytes \<Rightarrow> nat \<Rightarrow> (64 word \<times> nat) hres" where
  "decode_int buf prefix_bits =
     (case buf of [] \<Rightarrow> HErr ''HPACK: empty buffer for integer''
      | b # bs \<Rightarrow>
          let mask = push_bit prefix_bits 1 - 1; pre = b AND mask
          in if pre < mask then HOk (ucast pre, 1) else int_loop bs (ucast pre) 0 1)"

definition decode_string :: "bytes \<Rightarrow> (bytes \<times> nat) hres" where
  "decode_string buf =
     (case buf of [] \<Rightarrow> HErr ''HPACK: empty buffer for string''
      | b # bs \<Rightarrow>
         (case decode_int buf 7 of HErr e \<Rightarrow> HErr e | HPanic \<Rightarrow> HPanic
          | HOk (len, c) \<Rightarrow>
             let fin = word_of_nat c + len
             in if word_of_nat (length buf) < fin then HErr ''HPACK: string truncated''
                else if fin < word_of_nat c then HPanic
                else let raw = sub_slice c (unat fin) buf
                     in if b AND 0x80 \<noteq> 0
                        then case huffman_decode raw of HOk out \<Rightarrow> HOk (out, unat fin) | HErr e \<Rightarrow> HErr e | HPanic \<Rightarrow> HPanic
                        else HOk (raw, unat fin)))"

subsection \<open>The decoder\<close>

definition lookup_field :: "dyn_table \<Rightarrow> 64 word \<Rightarrow> hfield hres" where
  "lookup_field t idx =
     (if idx = 0 then HErr ''HPACK index 0 is invalid''
      else if idx \<le> word_of_nat (length STATIC_TABLE) then HOk (STATIC_TABLE ! (unat idx - 1))
      else case dt_get (unat idx - length STATIC_TABLE - 1) t of
          Some e \<Rightarrow> HOk e | None \<Rightarrow> HErr ''HPACK dynamic table index out of range'')"

definition hbind :: "'a hres \<Rightarrow> ('a \<Rightarrow> 'b hres) \<Rightarrow> 'b hres" where
  "hbind r f = (case r of HOk x \<Rightarrow> f x | HErr e \<Rightarrow> HErr e | HPanic \<Rightarrow> HPanic)"

text \<open>A literal field after its first byte was classified: the name, by index or as a string, and the value.\<close>

definition literal_field :: "dyn_table \<Rightarrow> nat \<Rightarrow> bytes \<Rightarrow> (hfield \<times> nat) hres" where
  "literal_field t prefix_bits buf =
     hbind (decode_int buf prefix_bits) (\<lambda>(idx, c0).
     hbind (if idx = 0 then decode_string (drop c0 buf)
            else hbind (lookup_field t idx) (\<lambda>(n, v). HOk (n, 0))) (\<lambda>(nm, c1).
     hbind (decode_string (drop (c0 + c1) buf)) (\<lambda>(v, c2). HOk ((nm, v), c0 + c1 + c2))))"

text \<open>One turn of the loop: the header it pushes, the table afterwards and the bytes consumed.\<close>

definition field_step :: "dyn_table \<Rightarrow> bytes \<Rightarrow> (hfield option \<times> dyn_table \<times> nat) hres" where
  "field_step t buf =
     (let b = hd buf in
      if b AND 0x80 \<noteq> 0
      then hbind (decode_int buf 7) (\<lambda>(idx, c). hbind (lookup_field t idx) (\<lambda>e. HOk (Some e, t, c)))
      else if b AND 0x40 \<noteq> 0
      then hbind (literal_field t 6 buf) (\<lambda>(e, c). HOk (Some e, dt_add e t, c))
      else if b AND 0x20 \<noteq> 0
      then hbind (decode_int buf 5) (\<lambda>(new_size, c). HOk (None, update_max_size (unat new_size) t, c))
      else hbind (literal_field t 4 buf) (\<lambda>(e, c). HOk (Some e, t, c)))"

lemma hbind_simps [simp]: "hbind (HOk x) f = f x" "hbind (HErr e) f = HErr e" "hbind HPanic f = HPanic"
  by (simp_all add: hbind_def)

lemma hbind_HOk_iff: "hbind r f = HOk y \<longleftrightarrow> (\<exists>x. r = HOk x \<and> f x = HOk y)"
  by (cases r) simp_all

lemma int_loop_consumes: "int_loop bs val shift i = HOk (n, c) \<Longrightarrow> i < c \<and> c \<le> i + length bs"
  by (induction bs val shift i rule: int_loop.induct) (fastforce simp: Let_def split: if_splits)+

lemma decode_int_consumes: "decode_int buf p = HOk (n, c) \<Longrightarrow> 0 < c \<and> c \<le> length buf"
  by (fastforce simp: decode_int_def Let_def split: list.splits if_splits dest: int_loop_consumes)

lemma field_step_consumes: "field_step t buf = HOk (h, t', c) \<Longrightarrow> 0 < c"
  by (auto simp: field_step_def literal_field_def Let_def hbind_HOk_iff split: if_splits dest: decode_int_consumes)

text \<open>The table keeps what was added before an error.\<close>

function hpack_decode :: "dyn_table \<Rightarrow> bytes \<Rightarrow> dyn_table \<times> hfield list hres" where
  "hpack_decode t buf =
     (if buf = [] then (t, HOk [])
      else case field_step t buf of
          HErr e \<Rightarrow> (t, HErr e) | HPanic \<Rightarrow> (t, HPanic)
        | HOk (h, t', c) \<Rightarrow>
            (case hpack_decode t' (drop c buf) of (t'', r) \<Rightarrow>
               (t'', hbind r (\<lambda>hs. HOk (case h of Some e \<Rightarrow> e # hs | None \<Rightarrow> hs)))))"
  by auto
termination
  by (relation "measure (\<lambda>(t, buf). length buf)") (auto dest: field_step_consumes)

declare hpack_decode.simps [simp del]

subsection \<open>The dynamic table stays within its limit\<close>

definition table_ok :: "dyn_table \<Rightarrow> bool" where
  "table_ok t = (dt_size t = sum_list (map entry_size (dt_entries t)) \<and> dt_size t \<le> dt_max t)"

lemma evict_for_spec:
  "dt_size t = sum_list (map entry_size (dt_entries t)) \<Longrightarrow>
     dt_size (evict_for need t) = sum_list (map entry_size (dt_entries (evict_for need t)))
     \<and> dt_max (evict_for need t) = dt_max t \<and> prefix (dt_entries (evict_for need t)) (dt_entries t)
     \<and> (dt_size (evict_for need t) + need \<le> dt_max t \<or> dt_entries (evict_for need t) = [])"
proof (induction need t rule: evict_for.induct)
  case (1 need t)
  show ?case
  proof (cases "dt_size t + need > dt_max t \<and> dt_entries t \<noteq> []")
    case True
    let ?t = "t\<lparr>dt_entries := butlast (dt_entries t), dt_size := dt_size t - entry_size (last (dt_entries t))\<rparr>"
    obtain xs x where x: "dt_entries t = xs @ [x]" using True by (cases "dt_entries t" rule: rev_cases) auto
    have "dt_size ?t = sum_list (map entry_size (dt_entries ?t))" using 1(2) by (simp add: x)
    note IH = 1(1) [OF True this]
    have e: "evict_for need t = evict_for need ?t" using True by (subst evict_for.simps) simp
    have "prefix (dt_entries (evict_for need ?t)) (dt_entries t)"
      using IH prefix_order.trans [OF _ prefixeq_butlast [of "dt_entries t"]] by simp
    moreover have "dt_max ?t = dt_max t" by simp
    ultimately show ?thesis using IH unfolding e by metis
  next
    case False
    then have e: "evict_for need t = t" by (subst evict_for.simps) (rule if_not_P)
    show ?thesis unfolding e using False 1(2) by auto
  qed
qed

lemma dt_add_ok [inv_intros]: "table_ok t \<Longrightarrow> table_ok (dt_add e t)"
  using evict_for_spec [of t "entry_size e"] by (auto simp: table_ok_def dt_add_def Let_def)

lemma update_max_ok [inv_intros]: "table_ok t \<Longrightarrow> table_ok (update_max_size n t)"
  using evict_for_spec [of "t\<lparr>dt_max := n\<rparr>" 0] by (auto simp: table_ok_def update_max_size_def)

lemma field_step_ok: "table_ok t \<Longrightarrow> field_step t buf = HOk (h, t', c) \<Longrightarrow> table_ok t'"
  by (auto simp: field_step_def Let_def hbind_HOk_iff split: if_splits intro: inv_intros)

lemma hpack_decode_ok [inv_intros]: "table_ok t \<Longrightarrow> table_ok (fst (hpack_decode t buf))"
proof (induction t buf rule: hpack_decode.induct)
  case (1 t buf)
  show ?case
  proof (cases "buf = []")
    case True
    with 1 show ?thesis by (simp add: hpack_decode.simps)
  next
    case False
    show ?thesis
    proof (cases "field_step t buf")
      case (HOk x)
      obtain h t' c where x: "x = (h, t', c)" by (cases x) auto
      have "table_ok t'" using field_step_ok 1(2) HOk x by blast
      with 1(1) [OF False HOk x [symmetric] refl] HOk x False show ?thesis
        by (cases "hpack_decode t' (drop c buf)") (simp add: hpack_decode.simps [of t buf])
    qed (use False 1(2) in \<open>simp_all add: hpack_decode.simps [of t buf]\<close>)
  qed
qed

datatype hpack_op = DecodeBlock bytes | SetTableMax nat

definition hpack_step :: "dyn_table \<Rightarrow> hpack_op \<Rightarrow> dyn_table" where
  "hpack_step t op = (case op of DecodeBlock buf \<Rightarrow> fst (hpack_decode t buf) | SetTableMax n \<Rightarrow> update_max_size n t)"

interpretation hp: invariant_machine "new_table m" hpack_step table_ok
proof
  show "table_ok (new_table m)" by (simp add: table_ok_def new_table_def)
  show "table_ok (hpack_step t op)" if "table_ok t" for t op
    using that by (cases op) (auto simp: hpack_step_def intro: inv_intros)
qed

text \<open>
  C28: whatever header blocks are decoded (malformed ones included) and whatever limits are
  set, the recorded size of the dynamic table is the sum of its entries' sizes, it never
  exceeds the limit, and so the table holds at most a 32nd of the limit in entries.
\<close>

theorem dynamic_table_bounded:
  "let t = foldl hpack_step (new_table m) ops in
     dt_size t = sum_list (map entry_size (dt_entries t)) \<and> dt_size t \<le> dt_max t \<and> 32 * length (dt_entries t) \<le> dt_max t"
proof -
  have ok: "table_ok (foldl hpack_step (new_table m) ops)" by (rule hp.run_inv)
  have "32 * length es \<le> sum_list (map entry_size es)" for es
    by (induction es) (simp_all add: entry_size_def)
  with ok show ?thesis unfolding table_ok_def Let_def by (metis order_trans)
qed

subsection \<open>Integers read back\<close>

fun int_groups :: "nat \<Rightarrow> bytes" where
  "int_groups n = (if n < 128 then [word_of_nat n] else word_of_nat (n mod 128 + 128) # int_groups (n div 128))"

declare int_groups.simps [simp del]

text \<open>The encoding of section 5.1 of the RFC: \<open>flag\<close> is the pattern above the prefix of \<open>p\<close> bits.\<close>

definition enc_int :: "nat \<Rightarrow> nat \<Rightarrow> nat \<Rightarrow> bytes" where
  "enc_int flag p n = (if n < 2 ^ p - 1 then [word_of_nat (flag + n)]
     else word_of_nat (flag + (2 ^ p - 1)) # int_groups (n - (2 ^ p - 1)))"

lemma byte_flag: "k < 8 \<Longrightarrow> b AND 2 ^ k = 0 \<longleftrightarrow> even (unat b div 2 ^ k)" for b :: byte
proof -
  assume k: "k < 8"
  have "b AND 2 ^ k = 0 \<longleftrightarrow> \<not> bit b k" by (simp add: and_exp_eq_0_iff_not_bit)
  also have "\<dots> \<longleftrightarrow> \<not> bit (unat b) k" using k by (simp add: bit_unsigned_iff)
  finally show ?thesis by (simp add: bit_iff_odd)
qed

lemma byte_mask: "p < 8 \<Longrightarrow> unat (b AND (push_bit p 1 - 1)) = unat b mod 2 ^ p" for b :: byte
proof -
  have "b AND (push_bit p 1 - 1) = take_bit p b"
    by (simp add: take_bit_eq_mask mask_eq_exp_minus_1 push_bit_eq_mult)
  then show ?thesis by (simp only: unsigned_take_bit_eq) (simp add: take_bit_eq_mod)
qed

lemma unat_byte_nat: "n < 256 \<Longrightarrow> unat (word_of_nat n :: byte) = n"
  by (simp add: unat_of_nat)

lemma int_loop_groups:
  assumes "n * 2 ^ shift < 2 ^ 64"
  shows "int_loop (int_groups n @ rest) val shift i = HOk (val + word_of_nat (n * 2 ^ shift), i + length (int_groups n))"
  using assms
proof (induction n arbitrary: val shift i rule: int_groups.induct)
  case (1 n)
  have low: "ucast (b AND 0x7f) = (word_of_nat (unat b mod 128) :: 64 word)" for b :: byte
  proof -
    have "unat (b AND 0x7f) = unat b mod 128" using byte_mask [of 7 b] by simp
    then show ?thesis by (metis of_nat_unat)
  qed
  have hi: "b AND 0x80 = 0 \<longleftrightarrow> even (unat b div 128)" for b :: byte using byte_flag [of 7 b] by simp
  have push: "push_bit shift (word_of_nat x :: 64 word) = word_of_nat (x * 2 ^ shift)" for x
    by (simp add: push_bit_eq_mult)
  show ?case
  proof (cases "n < 128")
    case True
    then show ?thesis by (simp add: int_groups.simps [of n] hi low push unat_byte_nat Let_def)
  next
    case False
    define bb where "bb = (word_of_nat (n mod 128 + 128) :: byte)"
    have b: "unat bb = n mod 128 + 128" unfolding bb_def by (rule unat_byte_nat) simp
    have g: "int_groups n = bb # int_groups (n div 128)" using False unfolding bb_def by (subst int_groups.simps) simp
    have lt: "shift + 7 \<le> 63"
    proof (rule ccontr)
      assume "\<not> shift + 7 \<le> 63"
      then have "2 ^ 64 \<le> (2 :: nat) ^ (shift + 7)" by (intro power_increasing) simp_all
      also have "\<dots> = 128 * 2 ^ shift" by (simp add: power_add)
      also have "\<dots> \<le> n * 2 ^ shift" using False by simp
      finally show False using 1(2) by simp
    qed
    have split: "n * 2 ^ shift = (n mod 128) * 2 ^ shift + (n div 128) * 2 ^ (shift + 7)"
    proof -
      have "(128 * q + r) * 2 ^ shift = r * 2 ^ shift + q * 2 ^ (shift + 7)" for q r :: nat
        by (simp add: power_add algebra_simps)
      from this [of "n div 128" "n mod 128"] show ?thesis by simp
    qed
    have "int_loop (int_groups n @ rest) val shift i
        = int_loop (int_groups (n div 128) @ rest) (val + word_of_nat (n mod 128 * 2 ^ shift)) (shift + 7) (i + 1)"
      using lt by (simp add: g hi low push b Let_def del: of_nat_mult)
    also have "\<dots> = HOk (val + word_of_nat (n mod 128 * 2 ^ shift) + word_of_nat (n div 128 * 2 ^ (shift + 7)), i + 1 + length (int_groups (n div 128)))"
      by (rule 1(1)) (use False split 1(2) in simp_all)
    finally show ?thesis by (simp add: g split add.assoc of_nat_add [symmetric] del: of_nat_add of_nat_mult)
  qed
qed

lemma decode_int_enc:
  assumes "n < 2 ^ 64" and "0 < p" and "p < 8" and "flag mod 2 ^ p = 0" and "flag + 2 ^ p \<le> 256"
  shows "decode_int (enc_int flag p n @ rest) p = HOk (word_of_nat n, length (enc_int flag p n))"
proof -
  let ?m = "2 ^ p - 1 :: nat"
  have m: "?m < 2 ^ p" by simp
  have mask: "unat (push_bit p 1 - 1 :: byte) = ?m"
  proof -
    have "p \<in> {1, 2, 3, 4, 5, 6, 7}" using assms(2,3) by auto
    then show ?thesis by auto
  qed
  have pre: "unat ((word_of_nat (flag + x) :: byte) AND (push_bit p 1 - 1)) = x" if "x < 2 ^ p" for x
  proof -
    have "unat (word_of_nat (flag + x) :: byte) = flag + x" using that assms(5) by (intro unat_byte_nat) simp
    then have "unat ((word_of_nat (flag + x) :: byte) AND (push_bit p 1 - 1)) = (flag + x) mod 2 ^ p"
      using byte_mask [OF assms(3)] by simp
    also have "\<dots> = (flag mod 2 ^ p + x) mod 2 ^ p" by (simp add: mod_add_left_eq)
    also have "\<dots> = x" using that assms(4) by simp
    finally show ?thesis .
  qed
  have uc: "ucast w = (word_of_nat (unat w) :: 64 word)" for w :: byte by simp
  show ?thesis
  proof (cases "n < ?m")
    case True
    then show ?thesis
      using pre [of n] mask by (simp add: decode_int_def enc_int_def Let_def word_less_nat_alt uc)
  next
    case False
    have "int_loop (int_groups (n - ?m) @ rest) (word_of_nat ?m) 0 1
        = HOk (word_of_nat ?m + word_of_nat ((n - ?m) * 2 ^ 0), 1 + length (int_groups (n - ?m)))"
    proof (rule int_loop_groups)
      have "n - ?m \<le> n" by (rule diff_le_self)
      then show "(n - ?m) * 2 ^ 0 < 2 ^ 64" using assms(1) by (metis le_less_trans mult.right_neutral power_0)
    qed
    moreover have "word_of_nat ?m + word_of_nat ((n - ?m) * 2 ^ 0) = (word_of_nat n :: 64 word)"
      using False by (metis add_diff_inverse_nat mult.right_neutral of_nat_add power_0)
    ultimately show ?thesis
      using False pre [OF m] mask by (simp add: decode_int_def enc_int_def Let_def word_less_nat_alt uc)
  qed
qed

subsection \<open>Header blocks of plain strings\<close>

text \<open>
  The representations of section 6 of the RFC, their meaning over the address space that
  puts the dynamic table behind the static one, and their encoding.
\<close>

datatype hkind = Incremental | WithoutIndexing | NeverIndexed

datatype hname = NameIndex nat | NameString bytes

datatype hrep = IndexedField nat | LiteralField hkind hname bytes | SizeUpdate nat

definition field_at :: "dyn_table \<Rightarrow> nat \<Rightarrow> hfield option" where
  "field_at t n = (let space = STATIC_TABLE @ dt_entries t in if 0 < n \<and> n \<le> length space then Some (space ! (n - 1)) else None)"

fun rep_step :: "dyn_table \<Rightarrow> hrep \<Rightarrow> (hfield option \<times> dyn_table) option" where
  "rep_step t (IndexedField n) = map_option (\<lambda>e. (Some e, t)) (field_at t n)"
| "rep_step t (LiteralField k nm v) =
     map_option (\<lambda>n. (Some (n, v), if k = Incremental then dt_add (n, v) t else t))
       (case nm of NameIndex i \<Rightarrow> map_option fst (field_at t i) | NameString n \<Rightarrow> Some n)"
| "rep_step t (SizeUpdate n) = Some (None, update_max_size n t)"

fun rep_run :: "dyn_table \<Rightarrow> hrep list \<Rightarrow> dyn_table \<times> hfield list option" where
  "rep_run t [] = (t, Some [])"
| "rep_run t (r # rs) = (case rep_step t r of None \<Rightarrow> (t, None)
     | Some (h, t') \<Rightarrow> (case rep_run t' rs of (t'', hs) \<Rightarrow>
         (t'', map_option (\<lambda>hs. case h of Some e \<Rightarrow> e # hs | None \<Rightarrow> hs) hs)))"

fun kind_flag :: "hkind \<Rightarrow> nat \<times> nat" where
  "kind_flag Incremental = (64, 6)"
| "kind_flag WithoutIndexing = (0, 4)"
| "kind_flag NeverIndexed = (16, 4)"

definition enc_string :: "bytes \<Rightarrow> bytes" where
  "enc_string s = enc_int 0 7 (length s) @ s"

fun enc_rep :: "hrep \<Rightarrow> bytes" where
  "enc_rep (IndexedField n) = enc_int 128 7 n"
| "enc_rep (LiteralField k nm v) =
     (case nm of NameIndex i \<Rightarrow> enc_int (fst (kind_flag k)) (snd (kind_flag k)) i
      | NameString n \<Rightarrow> enc_int (fst (kind_flag k)) (snd (kind_flag k)) 0 @ enc_string n) @ enc_string v"
| "enc_rep (SizeUpdate n) = enc_int 32 5 n"

fun rep_ok :: "hrep \<Rightarrow> bool" where
  "rep_ok (IndexedField n) = (n < 2 ^ 64)"
| "rep_ok (LiteralField k nm v) = (case nm of NameIndex i \<Rightarrow> 0 < i \<and> i < 2 ^ 64 | NameString n \<Rightarrow> True)"
| "rep_ok (SizeUpdate n) = (n < 2 ^ 64)"

lemma enc_int_length: "0 < length (enc_int flag p n)"
  by (simp add: enc_int_def)

lemma unat_word64: "k < 2 ^ 64 \<Longrightarrow> unat (word_of_nat k :: 64 word) = k"
  by (simp add: unat_of_nat)

lemma decode_string_plain:
  assumes "buf = b # bs" and "b AND 0x80 = 0" and "decode_int buf 7 = HOk (word_of_nat n, c)"
    and "c + n \<le> length buf" and "length buf < 2 ^ 63"
  shows "decode_string buf = HOk (sub_slice c (c + n) buf, c + n)"
proof -
  define fin where "fin = (word_of_nat c + word_of_nat n :: 64 word)"
  have "fin = word_of_nat (c + n)" by (simp add: fin_def)
  then have u: "unat fin = c + n" using assms(4,5) unat_word64 [of "c + n"] by simp
  have uc: "unat (word_of_nat c :: 64 word) = c" "unat (word_of_nat (length buf) :: 64 word) = length buf"
    using assms(4,5) by (auto intro!: unat_word64)
  have "\<not> word_of_nat (length buf) < fin" "\<not> fin < word_of_nat c"
    using assms(4) u uc by (simp_all add: word_less_nat_alt)
  then show ?thesis
    using assms(1,2,3) u unfolding decode_string_def fin_def [symmetric] by (simp add: Let_def fin_def [symmetric])
qed

lemma enc_int_Cons: "\<exists>b bs. enc_int flag p n = b # bs \<and> b = word_of_nat (flag + min n (2 ^ p - 1))"
proof (cases "n < 2 ^ p - 1")
  case True
  then have "min n (2 ^ p - 1) = n" by simp
  with True show ?thesis by (simp only: enc_int_def if_True) blast
next
  case False
  then have "min n (2 ^ p - 1) = 2 ^ p - 1" by (intro min_absorb2) simp
  with False show ?thesis by (simp only: enc_int_def if_False) blast
qed

lemma decode_string_enc:
  assumes "length (enc_string s @ rest) < 2 ^ 63"
  shows "decode_string (enc_string s @ rest) = HOk (s, length (enc_string s))"
proof -
  let ?n = "length (enc_int 0 7 (length s))"
  obtain b bs where b: "enc_int 0 7 (length s) = b # bs" "b = word_of_nat (min (length s) 127)"
    using enc_int_Cons [of 0 7 "length s"] by auto
  have buf: "enc_string s @ rest = enc_int 0 7 (length s) @ s @ rest" by (simp add: enc_string_def)
  have di: "decode_int (enc_string s @ rest) 7 = HOk (word_of_nat (length s), ?n)"
    unfolding buf by (rule decode_int_enc) (use assms in \<open>simp_all add: enc_string_def\<close>)
  have "unat b = min (length s) 127" unfolding b(2) by (rule unat_byte_nat) simp
  then have hb: "b AND 0x80 = 0" using byte_flag [of 7 b] by simp
  have "decode_string (enc_string s @ rest) = HOk (sub_slice ?n (?n + length s) (enc_string s @ rest), ?n + length s)"
    by (rule decode_string_plain [OF _ hb di]) (use b(1) assms in \<open>simp_all add: enc_string_def\<close>)
  then show ?thesis by (simp add: buf sub_slice_def) (simp add: enc_string_def)
qed

lemma static_length: "length STATIC_TABLE = 61"
  by (simp add: STATIC_TABLE_def static_strings_def)

lemma lookup_field_at:
  assumes "n < 2 ^ 64"
  shows "lookup_field t (word_of_nat n) = (case field_at t n of Some e \<Rightarrow> HOk e
     | None \<Rightarrow> if n = 0 then HErr ''HPACK index 0 is invalid'' else HErr ''HPACK dynamic table index out of range'')"
proof -
  define w where "w = (word_of_nat n :: 64 word)"
  have u: "unat w = n" unfolding w_def by (rule unat_word64 [OF assms])
  have z: "w = 0 \<longleftrightarrow> n = 0" using u by (simp add: unat_eq_0 [symmetric])
  have le: "w \<le> 61 \<longleftrightarrow> n \<le> 61"
    using u by (simp add: word_le_nat_alt)
  consider "n = 0" | "0 < n" "n \<le> 61" | "61 < n" "n \<le> 61 + length (dt_entries t)" | "61 + length (dt_entries t) < n"
    by linarith
  then have "lookup_field t w = (case field_at t n of Some e \<Rightarrow> HOk e
     | None \<Rightarrow> if n = 0 then HErr ''HPACK index 0 is invalid'' else HErr ''HPACK dynamic table index out of range'')"
  proof cases
    case 3
    then have "n - Suc 0 - 61 = n - 61 - 1" "n - 61 - 1 < length (dt_entries t)" "\<not> n - Suc 0 < 61" by linarith+
    with 3 show ?thesis
      by (simp add: lookup_field_def z le u static_length field_at_def dt_get_def nth_append)
  next
    case 4
    then have "\<not> n - 61 - 1 < length (dt_entries t)" by linarith
    with 4 show ?thesis by (simp add: lookup_field_def z le u static_length field_at_def dt_get_def)
  next
    case 2
    then have "n - 1 < 61" by linarith
    with 2 show ?thesis by (simp add: lookup_field_def z le u static_length field_at_def nth_append)
  qed (simp add: lookup_field_def z field_at_def)
  then show ?thesis unfolding w_def .
qed

lemma first_byte:
  assumes "rest' = enc_int flag p n @ rest" and "0 < p" and "p < 8" and "flag mod 2 ^ p = 0" and "flag + 2 ^ p \<le> 256" and "p \<le> k" and "k < 8"
  shows "hd rest' AND 2 ^ k = 0 \<longleftrightarrow> even (flag div 2 ^ k)"
proof -
  define x where "x = min n (2 ^ p - 1)"
  have "x \<le> 2 ^ p - 1" unfolding x_def by (rule min.cobounded2)
  then have x: "x < 2 ^ p" by (rule le_less_trans) simp
  have "hd rest' = word_of_nat (flag + x)" using enc_int_Cons [of flag p n] by (auto simp: assms(1) x_def)
  moreover have "unat (word_of_nat (flag + x) :: byte) = flag + x" using x assms(5) by (intro unat_byte_nat) simp
  moreover have "(flag + x) div 2 ^ k = flag div 2 ^ k"
  proof -
    obtain q where q: "flag = 2 ^ p * q" using assms(4) by (metis dvdE mod_0_imp_dvd)
    obtain j where j: "k = p + j" using assms(6) le_Suc_ex by blast
    have "(flag + x) div 2 ^ p = q" using x q by simp
    then show ?thesis unfolding j power_add div_mult2_eq using q by simp
  qed
  ultimately show ?thesis using byte_flag [OF assms(7)] by simp
qed

lemma field_step_enc:
  assumes "rep_ok r" and "length (enc_rep r @ rest) < 2 ^ 63"
  shows "case rep_step t r of Some (h, t') \<Rightarrow> field_step t (enc_rep r @ rest) = HOk (h, t', length (enc_rep r))
     | None \<Rightarrow> \<exists>e. field_step t (enc_rep r @ rest) = HErr e"
proof (cases r)
  case (IndexedField n)
  have "decode_int (enc_int 128 7 n @ rest) 7 = HOk (word_of_nat n, length (enc_int 128 7 n))"
    by (rule decode_int_enc) (use assms(1) IndexedField in simp_all)
  moreover have "hd (enc_int 128 7 n @ rest) AND 0x80 \<noteq> 0" using first_byte [OF refl, of 7 128 7 n rest] by simp
  ultimately show ?thesis
    using IndexedField lookup_field_at [of n t] assms(1) by (auto simp: field_step_def Let_def split: option.splits)
next
  case (SizeUpdate n)
  have "decode_int (enc_int 32 5 n @ rest) 5 = HOk (word_of_nat n, length (enc_int 32 5 n))"
    by (rule decode_int_enc) (use assms(1) SizeUpdate in simp_all)
  moreover have "hd (enc_int 32 5 n @ rest) AND 0x80 = 0" "hd (enc_int 32 5 n @ rest) AND 0x40 = 0" "hd (enc_int 32 5 n @ rest) AND 0x20 \<noteq> 0"
    using first_byte [OF refl, of 5 32 7 n rest] first_byte [OF refl, of 5 32 6 n rest] first_byte [OF refl, of 5 32 5 n rest] by simp_all
  ultimately show ?thesis
    using SizeUpdate assms(1) by (simp add: field_step_def Let_def unat_of_nat)
next
  case (LiteralField k nm v)
  obtain flag p where fp: "kind_flag k = (flag, p)" by fastforce
  then have p: "0 < p" "p < 8" "flag mod 2 ^ p = 0" "flag + 2 ^ p \<le> 256" by (cases k; auto)+
  have lit: "case nm of NameString n \<Rightarrow> literal_field t p (enc_rep r @ rest) = HOk ((n, v), length (enc_rep r))
      | NameIndex i \<Rightarrow> (case field_at t i of Some e \<Rightarrow> literal_field t p (enc_rep r @ rest) = HOk ((fst e, v), length (enc_rep r))
          | None \<Rightarrow> \<exists>e. literal_field t p (enc_rep r @ rest) = HErr e)"
  proof (cases nm)
    case (NameString n)
    have b: "enc_rep r @ rest = enc_int flag p 0 @ enc_string n @ enc_string v @ rest" using LiteralField NameString fp by simp
    have "decode_int (enc_rep r @ rest) p = HOk (0, length (enc_int flag p 0))"
      unfolding b using decode_int_enc [of 0 p flag] p by simp
    moreover have "decode_string (enc_string n @ enc_string v @ rest) = HOk (n, length (enc_string n))"
      by (rule decode_string_enc) (use assms(2) b in simp)
    moreover have "decode_string (enc_string v @ rest) = HOk (v, length (enc_string v))"
      by (rule decode_string_enc) (use assms(2) b in simp)
    ultimately show ?thesis using NameString LiteralField fp by (simp add: literal_field_def b)
  next
    case (NameIndex i)
    then have i: "0 < i" "i < 2 ^ 64" using assms(1) LiteralField by simp_all
    have b: "enc_rep r @ rest = enc_int flag p i @ enc_string v @ rest" using LiteralField NameIndex fp by simp
    have "decode_int (enc_rep r @ rest) p = HOk (word_of_nat i, length (enc_int flag p i))"
      unfolding b using decode_int_enc [of i p flag] p i by simp
    moreover have "(word_of_nat i :: 64 word) \<noteq> 0" using i unat_word64 [of i] by auto
    moreover have "decode_string (enc_string v @ rest) = HOk (v, length (enc_string v))"
      by (rule decode_string_enc) (use assms(2) b in simp)
    ultimately show ?thesis
      using NameIndex LiteralField fp lookup_field_at [OF i(2)]
      by (auto simp: literal_field_def b split: option.splits)
  qed
  obtain m rest2 where m: "enc_rep r @ rest = enc_int flag p m @ rest2"
    using LiteralField fp by (cases nm) auto
  note fb = first_byte [OF m p]
  show ?thesis
  proof (cases k)
    case Incremental
    then have fl: "flag = 64" "p = 6" using fp by simp_all
    have "hd (enc_rep r @ rest) AND 0x80 = 0" "hd (enc_rep r @ rest) AND 0x40 \<noteq> 0"
      using fb [of 7] fb [of 6] fl by simp_all
    then show ?thesis using lit LiteralField Incremental fl
      by (cases nm) (auto simp: field_step_def Let_def split: option.splits)
  next
    case WithoutIndexing
    then have fl: "flag = 0" "p = 4" using fp by simp_all
    have "hd (enc_rep r @ rest) AND 0x80 = 0" "hd (enc_rep r @ rest) AND 0x40 = 0" "hd (enc_rep r @ rest) AND 0x20 = 0"
      using fb [of 7] fb [of 6] fb [of 5] fl by simp_all
    then show ?thesis using lit LiteralField WithoutIndexing fl
      by (cases nm) (auto simp: field_step_def Let_def split: option.splits)
  next
    case NeverIndexed
    then have fl: "flag = 16" "p = 4" using fp by simp_all
    have "hd (enc_rep r @ rest) AND 0x80 = 0" "hd (enc_rep r @ rest) AND 0x40 = 0" "hd (enc_rep r @ rest) AND 0x20 = 0"
      using fb [of 7] fb [of 6] fb [of 5] fl by simp_all
    then show ?thesis using lit LiteralField NeverIndexed fl
      by (cases nm) (auto simp: field_step_def Let_def split: option.splits)
  qed
qed

lemma plain_block:
  assumes "\<forall>r\<in>set reps. rep_ok r" and "length (concat (map enc_rep reps)) < 2 ^ 63"
  shows "case rep_run t reps of
      (t', Some hs) \<Rightarrow> hpack_decode t (concat (map enc_rep reps)) = (t', HOk hs)
    | (t', None) \<Rightarrow> \<exists>e. hpack_decode t (concat (map enc_rep reps)) = (t', HErr e)"
  using assms
proof (induction reps arbitrary: t)
  case Nil
  then show ?case by (simp add: hpack_decode.simps)
next
  case (Cons r rs)
  let ?rest = "concat (map enc_rep rs)"
  have "enc_int flag p n \<noteq> []" for flag p n by (simp add: enc_int_def)
  then have ne: "enc_rep r \<noteq> []" by (cases r) (auto split: hname.splits)
  have fs: "case rep_step t r of Some (h, t') \<Rightarrow> field_step t (enc_rep r @ ?rest) = HOk (h, t', length (enc_rep r))
     | None \<Rightarrow> \<exists>e. field_step t (enc_rep r @ ?rest) = HErr e"
    by (rule field_step_enc) (use Cons.prems in simp_all)
  show ?case
  proof (cases "rep_step t r")
    case None
    with fs ne show ?thesis by (auto simp: hpack_decode.simps [of t])
  next
    case (Some x)
    obtain h t1 where x: "x = (h, t1)" by (cases x)
    then have "hpack_decode t (enc_rep r @ ?rest) = (case hpack_decode t1 ?rest of (t'', q) \<Rightarrow>
        (t'', hbind q (\<lambda>hs. HOk (case h of Some e \<Rightarrow> e # hs | None \<Rightarrow> hs))))"
      using fs Some ne by (simp add: hpack_decode.simps [of t])
    moreover obtain t2 o2 where "rep_run t1 rs = (t2, o2)" by fastforce
    ultimately show ?thesis using Cons.IH [of t1] Cons.prems Some x by (cases o2) auto
  qed
qed

text \<open>
  C27: the decoder implements the representations of the RFC on every block whose strings
  are sent without Huffman coding: indexed fields, the three kinds of literals with the name
  given by index or as a string, and size updates. The headers and the table afterwards are
  those of the specification, and the block is refused exactly when an index lies outside
  the two tables.
\<close>

theorem plain_block_decoded:
  assumes "\<forall>r\<in>set reps. rep_ok r" and "length (concat (map enc_rep reps)) < 2 ^ 63"
  shows "case rep_run t reps of
      (t', Some hs) \<Rightarrow> hpack_decode t (concat (map enc_rep reps)) = (t', HOk hs)
    | (t', None) \<Rightarrow> \<exists>e. hpack_decode t (concat (map enc_rep reps)) = (t', HErr e)"
  by (rule plain_block [OF assms])

theorem plain_block_decoded_witness:
  "hpack_decode (new_table 4096) (concat (map enc_rep [IndexedField 2, LiteralField Incremental (NameIndex 1) [97], IndexedField 62]))
   = (dt_add (as_bytes '':authority'', [97]) (new_table 4096), HOk [(as_bytes '':method'', as_bytes ''GET''), (as_bytes '':authority'', [97]), (as_bytes '':authority'', [97])])"
proof -
  let ?reps = "[IndexedField 2, LiteralField Incremental (NameIndex 1) [97], IndexedField 62]"
  have st: "STATIC_TABLE ! 0 = (as_bytes '':authority'', [])" "STATIC_TABLE ! 1 = (as_bytes '':method'', as_bytes ''GET'')"
    by (simp_all add: STATIC_TABLE_def static_strings_def as_bytes_def)
  have add: "dt_entries (dt_add (as_bytes '':authority'', [97]) (new_table 4096)) = [(as_bytes '':authority'', [97])]"
    by (simp add: dt_add_def evict_for.simps new_table_def entry_size_def as_bytes_def)
  have "rep_run (new_table 4096) ?reps = (dt_add (as_bytes '':authority'', [97]) (new_table 4096),
     Some [(as_bytes '':method'', as_bytes ''GET''), (as_bytes '':authority'', [97]), (as_bytes '':authority'', [97])])"
    using st by (simp add: field_at_def static_length Let_def nth_append add)
  moreover have "length (concat (map enc_rep ?reps)) < 2 ^ 63" by (simp add: enc_int_def enc_string_def)
  ultimately show ?thesis using plain_block_decoded [of ?reps "new_table 4096"] by simp
qed

lemma decode_string_wraps:
  assumes "buf = b # bs" and "decode_int buf 7 = HOk (- 1, c)" and "0 < c" and "c \<le> length buf" and "length buf < 2 ^ 63"
  shows "decode_string buf = HPanic"
proof -
  define fin where "fin = (word_of_nat c + - 1 :: 64 word)"
  have "fin = word_of_nat (c - 1)" using assms(3) by (simp add: fin_def of_nat_diff)
  then have u: "unat fin = c - 1" using assms(4,5) unat_word64 [of "c - 1"] by simp
  have uc: "unat (word_of_nat c :: 64 word) = c" "unat (word_of_nat (length buf) :: 64 word) = length buf"
    using assms(4,5) by (auto intro!: unat_word64)
  have "\<not> word_of_nat (length buf) < fin" "fin < word_of_nat c"
    using assms(3,4) u uc by (simp_all add: word_less_nat_alt)
  then show ?thesis
    using assms(1,2) unfolding decode_string_def fin_def by (simp add: Let_def)
qed

text \<open>
  A string literal whose announced length is the largest 64-bit number makes the decoder
  panic, whatever follows: the sum of the offset and the length wraps around, passes the
  truncation check and ends before it starts.
\<close>

lemma huge_string_panics:
  assumes "length (enc_int 0 7 (2 ^ 64 - 1) @ rest) < 2 ^ 63"
  shows "hpack_decode t (enc_int 0 4 0 @ enc_int 0 7 (2 ^ 64 - 1) @ rest) = (t, HPanic)"
proof -
  define e where "e = enc_int 0 7 (2 ^ 64 - 1)"
  obtain b bs where b: "e = b # bs" using enc_int_Cons e_def by blast
  have "decode_int (e @ rest) 7 = HOk (word_of_nat (2 ^ 64 - 1), length e)"
    unfolding e_def by (rule decode_int_enc) simp_all
  then have di: "decode_int (e @ rest) 7 = HOk (- 1, length e)" by simp
  have s: "decode_string (e @ rest) = HPanic"
    by (rule decode_string_wraps [OF _ di]) (use b assms e_def in auto)
  have z: "enc_int 0 4 0 = [0]" by (simp add: enc_int_def)
  have "decode_int (enc_int 0 4 0 @ e @ rest) 4 = HOk (0, 1)" using decode_int_enc [of 0 4 0 "e @ rest"] by (simp add: z)
  then have "field_step t (enc_int 0 4 0 @ e @ rest) = HPanic" using s by (simp add: field_step_def literal_field_def z)
  then show ?thesis unfolding e_def [symmetric] by (simp add: hpack_decode.simps [of t] z)
qed

subsection \<open>The Huffman table\<close>

text \<open>The symbol at the end of a path of the tree: the last table entry with that code.\<close>

definition huff_symbols :: "(bool list \<times> byte) list" where
  "huff_symbols = map (\<lambda>(smb, code, nbits). (code_bits code nbits, word_of_nat smb)) (enumerate 0 HUFF_TABLE)"

fun sym_at :: "huff_node \<Rightarrow> bool list \<Rightarrow> byte option" where
  "sym_at (HuffNode s l r) [] = s"
| "sym_at (HuffNode s l r) (b # bs) = (case (if \<not> b then l else r) of None \<Rightarrow> None | Some n \<Rightarrow> sym_at n bs)"

lemma sym_at_inner: "sym_at new_inner bs = None"
  by (cases bs) simp_all

lemma sym_at_insert: "sym_at (huff_insert bs s t) bs' = (if bs' = bs then Some s else sym_at t bs')"
proof (induction bs s t arbitrary: bs' rule: huff_insert.induct)
  case (1 smb s l r)
  then show ?case by (cases bs') simp_all
next
  case (2 b bs smb s l r)
  show ?case
  proof (cases bs')
    case (Cons c cs)
    show ?thesis
    proof (cases b)
      case True
      with 2(2) [of cs] Cons show ?thesis by (cases c; cases r) (simp_all add: sym_at_inner)
    next
      case False
      with 2(1) [of cs] Cons show ?thesis by (cases c; cases l) (simp_all add: sym_at_inner)
    qed
  qed simp
qed

lemma sym_at_fold: "sym_at (foldl (\<lambda>t (smb, code, nbits). huff_insert (code_bits code nbits) (word_of_nat smb) t) t xs) bs
   = (case map_of (rev (map (\<lambda>(smb, code, nbits). (code_bits code nbits, word_of_nat smb :: byte)) xs)) bs of
        Some s \<Rightarrow> Some s | None \<Rightarrow> sym_at t bs)"
  by (induction xs arbitrary: t rule: rev_induct) (auto simp: sym_at_insert)

lemma sym_at_tree: "sym_at huff_tree bs = map_of (rev huff_symbols) bs"
  by (simp add: huff_tree_def sym_at_fold huff_symbols_def sym_at_inner split: option.splits)

lemma huff_walk_symbol:
  "xs \<noteq> [] \<Longrightarrow> sym_at cur xs = Some s \<Longrightarrow> (\<And>k. 0 < k \<Longrightarrow> k < length xs \<Longrightarrow> sym_at cur (take k xs) = None) \<Longrightarrow>
   huff_walk rt cur cnt (xs @ rest) = (case huff_walk rt rt 0 rest of HOk out \<Rightarrow> HOk (s # out) | HErr e \<Rightarrow> HErr e | HPanic \<Rightarrow> HPanic)"
proof (induction xs arbitrary: cur cnt)
  case (Cons b bs)
  obtain s0 l r where cur: "cur = HuffNode s0 l r" by (cases cur)
  obtain n where n: "(if \<not> b then l else r) = Some n" "sym_at n bs = Some s"
    using Cons.prems(2) cur by (auto split: option.splits)
  obtain s1 l1 r1 where n1: "n = HuffNode s1 l1 r1" by (cases n)
  show ?case
  proof (cases bs)
    case Nil
    with n n1 cur show ?thesis by simp
  next
    case (Cons b' bs')
    have "s1 = None" using Cons.prems(3) [of 1] n n1 cur Cons by simp
    moreover have "sym_at n (take k bs) = None" if "0 < k" "k < length bs" for k
      using Cons.prems(3) [of "Suc k"] that n cur by simp
    ultimately show ?thesis using Cons.IH [of n "cnt + 1"] n n1 cur Cons by simp
  qed
qed simp

lemma huff_walk_pending:
  "sym_at cur (xs @ ys) = Some s \<Longrightarrow> ys \<noteq> [] \<Longrightarrow> (\<And>k. 0 < k \<Longrightarrow> k \<le> length xs \<Longrightarrow> sym_at cur (take k xs) = None) \<Longrightarrow>
   huff_walk rt cur cnt xs = (if cnt + length xs > 7 then HErr ''huffman padding too long'' else HOk [])"
proof (induction xs arbitrary: cur cnt)
  case (Cons b bs)
  obtain s0 l r where cur: "cur = HuffNode s0 l r" by (cases cur)
  obtain n where n: "(if \<not> b then l else r) = Some n" "sym_at n (bs @ ys) = Some s"
    using Cons.prems(1) cur by (auto split: option.splits)
  obtain s1 l1 r1 where n1: "n = HuffNode s1 l1 r1" by (cases n)
  have "s1 = None" using Cons.prems(3) [of 1] n n1 cur by simp
  moreover have "sym_at n (take k bs) = None" if "0 < k" "k \<le> length bs" for k
    using Cons.prems(3) [of "Suc k"] that n cur by simp
  ultimately show ?case using Cons.IH [of n "cnt + 1"] Cons.prems(2) n n1 cur by simp
qed simp

lemma w_path: "map (map_of (rev huff_symbols)) (map (\<lambda>k. take k [True, True, True, True, False, False, False]) [1, 2, 3, 4, 5, 6, 7])
   = [None, None, None, None, None, None, Some 105]"
  by code_simp

text \<open>
  The Huffman table of the source is not the one of the RFC: the byte \<open>0xf1\<close>, the
  RFC's code of the letter w followed by one bit of padding, decodes to the letter i,
  without an error.
\<close>

lemma huffman_table_wrong: "huffman_decode [0xf1] = HOk (as_bytes ''i'')"
proof -
  let ?w = "[True, True, True, True, False, False, False]"
  have s: "sym_at huff_tree ?w = Some 105" using w_path by (simp add: sym_at_tree)
  have n: "sym_at huff_tree (take k ?w) = None" if "0 < k" "k < 7" for k
  proof -
    have "k \<in> {1, 2, 3, 4, 5, 6}" using that by auto
    then show ?thesis using w_path by (auto simp: sym_at_tree)
  qed
  have "huff_walk huff_tree huff_tree 0 (?w @ [True]) = HOk [105]"
  proof -
    have "huff_walk huff_tree huff_tree 0 [True] = HOk []"
      by (subst huff_walk_pending [of _ _ "tl ?w" 105]) (use s n [of 1] in \<open>auto simp: le_Suc_eq\<close>)
    then show ?thesis by (subst huff_walk_symbol [OF _ s]) (use n in auto)
  qed
  moreover have "concat (map byte_bits [0xf1]) = ?w @ [True]" by code_simp
  ultimately show ?thesis by (simp add: huffman_decode_def as_bytes_def)
qed

end
