(* ===== verification/H2.thy ===== *)
theory H2
  imports Hpack
begin

text \<open>
  The HTTP/2 frame parser and stream table of \<open>http/h2.rs\<close>. A connection is a record; every
  handler returns the connection afterwards and the event, with \<open>None\<close> for a panic of the
  HPACK decoder. The flow-control windows are unbounded integers.
\<close>

subsection \<open>Constants\<close>

abbreviation (input) FRAME_HEADER_LEN :: nat where "FRAME_HEADER_LEN \<equiv> 9"

definition DEFAULT_INITIAL_WINDOW :: "32 word" where "DEFAULT_INITIAL_WINDOW = 65535"
definition DEFAULT_MAX_FRAME_SIZE :: "32 word" where "DEFAULT_MAX_FRAME_SIZE = 16384"

abbreviation (input) FRAME_DATA :: byte where "FRAME_DATA \<equiv> 0"
abbreviation (input) FRAME_HEADERS :: byte where "FRAME_HEADERS \<equiv> 1"
abbreviation (input) FRAME_PRIORITY :: byte where "FRAME_PRIORITY \<equiv> 2"
abbreviation (input) FRAME_RST_STREAM :: byte where "FRAME_RST_STREAM \<equiv> 3"
abbreviation (input) FRAME_SETTINGS :: byte where "FRAME_SETTINGS \<equiv> 4"
abbreviation (input) FRAME_PUSH_PROMISE :: byte where "FRAME_PUSH_PROMISE \<equiv> 5"
abbreviation (input) FRAME_PING :: byte where "FRAME_PING \<equiv> 6"
abbreviation (input) FRAME_GOAWAY :: byte where "FRAME_GOAWAY \<equiv> 7"
abbreviation (input) FRAME_WINDOW_UPDATE :: byte where "FRAME_WINDOW_UPDATE \<equiv> 8"
abbreviation (input) FRAME_CONTINUATION :: byte where "FRAME_CONTINUATION \<equiv> 9"

definition FLAG_END_STREAM :: byte where "FLAG_END_STREAM = 0x1"
definition FLAG_END_HEADERS :: byte where "FLAG_END_HEADERS = 0x4"
definition FLAG_PADDED :: byte where "FLAG_PADDED = 0x8"
definition FLAG_PRIORITY :: byte where "FLAG_PRIORITY = 0x20"
definition FLAG_ACK :: byte where "FLAG_ACK = 0x1"

definition ERR_PROTOCOL_ERROR :: "32 word" where "ERR_PROTOCOL_ERROR = 0x1"
definition ERR_FLOW_CONTROL_ERROR :: "32 word" where "ERR_FLOW_CONTROL_ERROR = 0x3"
definition ERR_STREAM_CLOSED :: "32 word" where "ERR_STREAM_CLOSED = 0x5"
definition ERR_FRAME_SIZE_ERROR :: "32 word" where "ERR_FRAME_SIZE_ERROR = 0x6"
definition ERR_COMPRESSION_ERROR :: "32 word" where "ERR_COMPRESSION_ERROR = 0x9"

abbreviation has_flag :: "byte \<Rightarrow> byte \<Rightarrow> bool" where
  "has_flag fs f \<equiv> fs AND f \<noteq> 0"

subsection \<open>Frame headers\<close>

record frame_header =
  fh_length :: "32 word"
  fh_type :: byte
  fh_flags :: byte
  fh_stream :: "32 word"

text \<open>The big-endian combination of four bytes.\<close>

definition be32 :: "byte \<Rightarrow> byte \<Rightarrow> byte \<Rightarrow> byte \<Rightarrow> 32 word" where
  "be32 a b c d = push_bit 24 (ucast a) OR push_bit 16 (ucast b) OR push_bit 8 (ucast c) OR ucast d"

definition parse_frame_header :: "bytes \<Rightarrow> frame_header option" where
  "parse_frame_header buf =
     (if length buf < FRAME_HEADER_LEN then None
      else Some \<lparr>fh_length = push_bit 16 (ucast (buf ! 0)) OR push_bit 8 (ucast (buf ! 1)) OR ucast (buf ! 2),
                 fh_type = buf ! 3, fh_flags = buf ! 4,
                 fh_stream = be32 (buf ! 5) (buf ! 6) (buf ! 7) (buf ! 8) AND 0x7fffffff\<rparr>)"

definition u32_bytes :: "32 word \<Rightarrow> bytes" where
  "u32_bytes w = [ucast (drop_bit 24 w), ucast (drop_bit 16 w), ucast (drop_bit 8 w), ucast w]"

definition serialize_frame_header :: "frame_header \<Rightarrow> bytes" where
  "serialize_frame_header h =
     [ucast (drop_bit 16 (fh_length h)), ucast (drop_bit 8 (fh_length h)), ucast (fh_length h), fh_type h, fh_flags h]
       @ u32_bytes (fh_stream h)"

subsection \<open>Events, streams and settings\<close>

datatype h2_event =
    EvHeaders "32 word" "hfield list" bool
  | EvData "32 word" bytes bool
  | EvSettings bool
  | EvPing bytes bool
  | EvResetStream "32 word" "32 word"
  | EvGoAway "32 word" "32 word"
  | EvWindowUpdate "32 word" "32 word"
  | EvNeedMore
  | EvError "32 word" str

datatype stream_state = StIdle | StOpen | StHalfClosedLocal | StHalfClosedRemote | StClosed

record h2_stream =
  st_state :: stream_state
  st_window :: int
  pending_headers :: bytes

record h2_settings =
  header_table_size :: nat
  enable_push :: bool
  max_concurrent_streams :: "32 word"
  initial_window_size :: "32 word"
  max_frame_size :: "32 word"
  max_header_list_size :: "32 word"

definition default_settings :: h2_settings where
  "default_settings = \<lparr>header_table_size = 4096, enable_push = True, max_concurrent_streams = - 1,
     initial_window_size = DEFAULT_INITIAL_WINDOW, max_frame_size = DEFAULT_MAX_FRAME_SIZE, max_header_list_size = - 1\<rparr>"

record h2_conn =
  h2_hpack :: dyn_table
  h2_streams :: "32 word \<rightharpoonup> h2_stream"
  local_settings :: h2_settings
  peer_settings :: h2_settings
  conn_window :: int
  conn_table_size :: nat
  continuation_sid :: "32 word"

definition new_conn :: h2_conn where
  "new_conn = \<lparr>h2_hpack = new_table 4096, h2_streams = Map.empty, local_settings = default_settings,
     peer_settings = default_settings, conn_window = uint DEFAULT_INITIAL_WINDOW, conn_table_size = 4096, continuation_sid = 0\<rparr>"

subsection \<open>Frames the server builds\<close>

definition server_settings_frame :: bytes where
  "server_settings_frame =
     serialize_frame_header \<lparr>fh_length = 18, fh_type = FRAME_SETTINGS, fh_flags = 0, fh_stream = 0\<rparr>
       @ concat (map (\<lambda>(i, v). [ucast (drop_bit 8 (i :: 16 word)), ucast i] @ u32_bytes v) [(0x1, 4096), (0x3, 100), (0x5, 16384)])"

definition settings_ack_frame :: bytes where
  "settings_ack_frame = serialize_frame_header \<lparr>fh_length = 0, fh_type = FRAME_SETTINGS, fh_flags = FLAG_ACK, fh_stream = 0\<rparr>"

definition ping_ack_frame :: "bytes \<Rightarrow> bytes" where
  "ping_ack_frame d = serialize_frame_header \<lparr>fh_length = 8, fh_type = FRAME_PING, fh_flags = FLAG_ACK, fh_stream = 0\<rparr> @ d"

definition window_update_frame :: "32 word \<Rightarrow> 32 word \<Rightarrow> bytes" where
  "window_update_frame sid increment =
     serialize_frame_header \<lparr>fh_length = 4, fh_type = FRAME_WINDOW_UPDATE, fh_flags = 0, fh_stream = sid\<rparr> @ u32_bytes increment"

subsection \<open>Handlers\<close>

definition strip_padding :: "bytes \<Rightarrow> byte \<Rightarrow> bytes \<times> nat" where
  "strip_padding payload fs =
     (case payload of [] \<Rightarrow> (payload, 0)
      | p # d \<Rightarrow> if \<not> has_flag fs FLAG_PADDED then (payload, 0)
                else let pad_len = unat p in if pad_len \<ge> length d then ([], 0) else (take (length d - pad_len) d, pad_len))"

definition update_stream :: "32 word \<Rightarrow> (h2_stream \<Rightarrow> h2_stream) \<Rightarrow> h2_conn \<Rightarrow> h2_conn" where
  "update_stream sid f c = c\<lparr>h2_streams := (h2_streams c)(sid := map_option f (h2_streams c sid))\<rparr>"

text \<open>The loop over the six-byte settings; an invalid value ends it with the earlier ones applied.\<close>

fun apply_settings :: "bytes \<Rightarrow> h2_conn \<Rightarrow> h2_conn \<times> h2_event" where
  "apply_settings (a # b # c0 # c1 # c2 # c3 # rest) c =
     (let i = push_bit 8 (ucast a) OR ucast b :: 16 word; v = be32 c0 c1 c2 c3
      in if i = 0x1 then apply_settings rest
             (c\<lparr>peer_settings := (peer_settings c)\<lparr>header_table_size := unat v\<rparr>, h2_hpack := update_max_size (unat v) (h2_hpack c)\<rparr>)
         else if i = 0x4 then
           (if v > 0x7fffffff then (c, EvError ERR_FLOW_CONTROL_ERROR ''window too large'')
            else apply_settings rest (c\<lparr>peer_settings := (peer_settings c)\<lparr>initial_window_size := v\<rparr>\<rparr>))
         else if i = 0x5 then
           (if v < 16384 \<or> v > 16777215 then (c, EvError ERR_FRAME_SIZE_ERROR ''invalid max frame size'')
            else apply_settings rest (c\<lparr>peer_settings := (peer_settings c)\<lparr>max_frame_size := v\<rparr>\<rparr>))
         else if i = 0x3 then apply_settings rest (c\<lparr>peer_settings := (peer_settings c)\<lparr>max_concurrent_streams := v\<rparr>\<rparr>)
         else if i = 0x2 then apply_settings rest (c\<lparr>peer_settings := (peer_settings c)\<lparr>enable_push := (v \<noteq> 0)\<rparr>\<rparr>)
         else if i = 0x6 then apply_settings rest (c\<lparr>peer_settings := (peer_settings c)\<lparr>max_header_list_size := v\<rparr>\<rparr>)
         else apply_settings rest c)"
| "apply_settings _ c = (c, EvSettings False)"

definition handle_settings :: "frame_header \<Rightarrow> bytes \<Rightarrow> h2_conn \<Rightarrow> h2_conn \<times> h2_event" where
  "handle_settings hdr payload c =
     (if has_flag (fh_flags hdr) FLAG_ACK then (c, EvSettings True)
      else if length payload mod 6 \<noteq> 0 then (c, EvError ERR_FRAME_SIZE_ERROR ''SETTINGS frame bad length'')
      else apply_settings payload c)"

text \<open>Decoding the collected header block of a stream; \<open>es\<close> is the end-of-stream flag the event carries.\<close>

definition finish_headers :: "32 word \<Rightarrow> bool \<Rightarrow> h2_conn \<Rightarrow> h2_conn \<times> h2_event option" where
  "finish_headers sid es c =
     (case h2_streams c sid of
        None \<Rightarrow> (c, Some (EvError ERR_STREAM_CLOSED ''stream vanished before HEADERS complete''))
      | Some s \<Rightarrow>
          let c1 = update_stream sid (\<lambda>s. s\<lparr>pending_headers := []\<rparr>) c
          in case hpack_decode (h2_hpack c1) (pending_headers s) of
               (t, HOk headers) \<Rightarrow>
                 let c2 = c1\<lparr>h2_hpack := t\<rparr>
                 in (if es then update_stream sid (\<lambda>s. s\<lparr>st_state := StHalfClosedRemote\<rparr>) c2 else c2, Some (EvHeaders sid headers es))
             | (t, HErr e) \<Rightarrow> (c1\<lparr>h2_hpack := t\<rparr>, Some (EvError ERR_COMPRESSION_ERROR ''HPACK decode failed''))
             | (t, HPanic) \<Rightarrow> (c1\<lparr>h2_hpack := t\<rparr>, None))"

definition handle_headers :: "frame_header \<Rightarrow> bytes \<Rightarrow> h2_conn \<Rightarrow> h2_conn \<times> h2_event option" where
  "handle_headers hdr payload c =
     (let sid = fh_stream hdr;
          fragment0 = fst (strip_padding payload (fh_flags hdr));
          fragment = (if has_flag (fh_flags hdr) FLAG_PRIORITY \<and> length fragment0 \<ge> 5 then drop 5 fragment0 else fragment0);
          s0 = (case h2_streams c sid of Some s \<Rightarrow> s
                | None \<Rightarrow> \<lparr>st_state = StIdle, st_window = uint (initial_window_size (peer_settings c)), pending_headers = []\<rparr>);
          c1 = c\<lparr>h2_streams := (h2_streams c)(sid \<mapsto> s0\<lparr>st_state := StOpen, pending_headers := pending_headers s0 @ fragment\<rparr>)\<rparr>
      in if \<not> has_flag (fh_flags hdr) FLAG_END_HEADERS then (c1\<lparr>continuation_sid := sid\<rparr>, Some EvNeedMore)
         else finish_headers sid (has_flag (fh_flags hdr) FLAG_END_STREAM) c1)"

definition handle_data :: "frame_header \<Rightarrow> bytes \<Rightarrow> h2_conn \<Rightarrow> h2_conn \<times> h2_event" where
  "handle_data hdr payload c =
     (let sid = fh_stream hdr;
          end_stream = has_flag (fh_flags hdr) FLAG_END_STREAM;
          d = fst (strip_padding payload (fh_flags hdr));
          c1 = update_stream sid (\<lambda>s. s\<lparr>st_window := st_window s - int (length d)\<rparr>) (c\<lparr>conn_window := conn_window c - int (length d)\<rparr>);
          c2 = (if end_stream then update_stream sid (\<lambda>s. s\<lparr>st_state := StClosed\<rparr>) c1 else c1)
      in (c2, EvData sid d end_stream))"

definition handle_ping :: "frame_header \<Rightarrow> bytes \<Rightarrow> h2_event" where
  "handle_ping hdr payload =
     (if length payload < 8 then EvError ERR_FRAME_SIZE_ERROR ''PING frame too short''
      else EvPing (take 8 payload) (has_flag (fh_flags hdr) FLAG_ACK))"

definition handle_window_update :: "frame_header \<Rightarrow> bytes \<Rightarrow> h2_conn \<Rightarrow> h2_conn \<times> h2_event" where
  "handle_window_update hdr payload c =
     (if length payload < 4 then (c, EvError ERR_FRAME_SIZE_ERROR ''WINDOW_UPDATE too short'')
      else let increment = be32 (payload ! 0) (payload ! 1) (payload ! 2) (payload ! 3) AND 0x7fffffff
           in if increment = 0 then (c, EvError ERR_PROTOCOL_ERROR ''WINDOW_UPDATE increment=0'')
              else ((if fh_stream hdr = 0 then c\<lparr>conn_window := conn_window c + uint increment\<rparr>
                     else update_stream (fh_stream hdr) (\<lambda>s. s\<lparr>st_window := st_window s + uint increment\<rparr>) c),
                    EvWindowUpdate (fh_stream hdr) increment))"

definition handle_rst :: "frame_header \<Rightarrow> bytes \<Rightarrow> h2_conn \<Rightarrow> h2_conn \<times> h2_event" where
  "handle_rst hdr payload c =
     (if length payload < 4 then (c, EvError ERR_FRAME_SIZE_ERROR ''RST_STREAM too short'')
      else (update_stream (fh_stream hdr) (\<lambda>s. s\<lparr>st_state := StClosed\<rparr>) c,
            EvResetStream (fh_stream hdr) (be32 (payload ! 0) (payload ! 1) (payload ! 2) (payload ! 3))))"

definition handle_goaway :: "bytes \<Rightarrow> h2_event" where
  "handle_goaway payload =
     (if length payload < 8 then EvError ERR_FRAME_SIZE_ERROR ''GOAWAY too short''
      else EvGoAway (be32 (payload ! 0) (payload ! 1) (payload ! 2) (payload ! 3) AND 0x7fffffff)
             (be32 (payload ! 4) (payload ! 5) (payload ! 6) (payload ! 7)))"

definition handle_continuation :: "frame_header \<Rightarrow> bytes \<Rightarrow> h2_conn \<Rightarrow> h2_conn \<times> h2_event option" where
  "handle_continuation hdr payload c =
     (let sid = fh_stream hdr
      in if sid \<noteq> continuation_sid c then (c, Some (EvError ERR_PROTOCOL_ERROR ''CONTINUATION stream mismatch''))
         else let c1 = update_stream sid (\<lambda>s. s\<lparr>pending_headers := pending_headers s @ payload\<rparr>) c
              in if \<not> has_flag (fh_flags hdr) FLAG_END_HEADERS then (c1, Some EvNeedMore)
                 else case h2_streams c1 sid of
                     None \<Rightarrow> (c1\<lparr>continuation_sid := 0\<rparr>, Some (EvError ERR_STREAM_CLOSED ''stream vanished before CONTINUATION complete''))
                   | Some s \<Rightarrow> finish_headers sid False (c1\<lparr>continuation_sid := 0\<rparr>))"

definition lift_event :: "h2_conn \<times> h2_event \<Rightarrow> h2_conn \<times> h2_event option" where
  "lift_event r = (fst r, Some (snd r))"

definition dispatch :: "frame_header \<Rightarrow> bytes \<Rightarrow> h2_conn \<Rightarrow> h2_conn \<times> h2_event option" where
  "dispatch hdr payload c =
     (if fh_length hdr > max_frame_size (peer_settings c) then (c, Some (EvError ERR_FRAME_SIZE_ERROR ''frame too large''))
      else if fh_type hdr = FRAME_SETTINGS then lift_event (handle_settings hdr payload c)
      else if fh_type hdr = FRAME_HEADERS then handle_headers hdr payload c
      else if fh_type hdr = FRAME_DATA then lift_event (handle_data hdr payload c)
      else if fh_type hdr = FRAME_PING then (c, Some (handle_ping hdr payload))
      else if fh_type hdr = FRAME_WINDOW_UPDATE then lift_event (handle_window_update hdr payload c)
      else if fh_type hdr = FRAME_RST_STREAM then lift_event (handle_rst hdr payload c)
      else if fh_type hdr = FRAME_GOAWAY then (c, Some (handle_goaway payload))
      else if fh_type hdr = FRAME_CONTINUATION then handle_continuation hdr payload c
      else if fh_type hdr = FRAME_PRIORITY then (c, Some EvNeedMore)
      else if fh_type hdr = FRAME_PUSH_PROMISE then (c, Some (EvError ERR_PROTOCOL_ERROR ''client sent PUSH_PROMISE''))
      else (c, Some EvNeedMore))"

definition process_frame :: "h2_conn \<Rightarrow> bytes \<Rightarrow> h2_conn \<times> h2_event option \<times> nat" where
  "process_frame c buf =
     (case parse_frame_header buf of
        None \<Rightarrow> (c, Some EvNeedMore, 0)
      | Some hdr \<Rightarrow>
          let tot = FRAME_HEADER_LEN + unat (fh_length hdr)
          in if length buf < tot then (c, Some EvNeedMore, 0)
             else case dispatch hdr (sub_slice FRAME_HEADER_LEN tot buf) c of (c', ev) \<Rightarrow> (c', ev, tot))"

subsection \<open>Frame headers read back\<close>

lemma take_bit_small: "unat w < 2 ^ n \<Longrightarrow> take_bit n w = w" for w :: "'a::len word"
  by (simp add: word_unat_eq_iff unsigned_take_bit_eq take_bit_nat_eq_self)

lemma be32_bytes: "be32 (ucast (drop_bit 24 w)) (ucast (drop_bit 16 w)) (ucast (drop_bit 8 w)) (ucast w) = w"
proof (rule bit_word_eqI)
  fix n
  assume "n < LENGTH(32)"
  then consider "n < 8" | "8 \<le> n" "n < 16" | "16 \<le> n" "n < 24" | "24 \<le> n" "n < 32" by force
  then show "bit (be32 (ucast (drop_bit 24 w)) (ucast (drop_bit 16 w)) (ucast (drop_bit 8 w)) (ucast w)) n = bit w n"
    by cases (auto simp: be32_def bit_simps)
qed

lemma be24_bytes:
  fixes w :: "32 word"
  assumes "w < 0x1000000"
  shows "push_bit 16 (ucast (ucast (drop_bit 16 w) :: byte)) OR push_bit 8 (ucast (ucast (drop_bit 8 w) :: byte)) OR ucast (ucast w :: byte) = w"
    (is "?l = w")
proof (rule bit_word_eqI)
  fix n
  assume "n < LENGTH(32)"
  have "take_bit 24 w = w" using assms by (intro take_bit_small) (simp add: word_less_nat_alt)
  then have h: "bit w n \<Longrightarrow> n < 24" by (metis bit_take_bit_iff)
  show "bit ?l n = bit w n"
  proof -
    consider "n < 8" | "8 \<le> n" "n < 16" | "16 \<le> n" "n < 24" | "24 \<le> n" by force
    then show ?thesis using h \<open>n < LENGTH(32)\<close> by cases (auto simp: bit_simps)
  qed
qed

lemma stream_mask: "w < 0x80000000 \<Longrightarrow> w AND 0x7fffffff = w" for w :: "32 word"
proof -
  assume "w < 0x80000000"
  then have "take_bit 31 w = w" by (intro take_bit_small) (simp add: word_less_nat_alt)
  moreover have "w AND 0x7fffffff = take_bit 31 w" by (simp add: take_bit_eq_mask mask_eq_exp_minus_1)
  ultimately show ?thesis by simp
qed

text \<open>
  A frame header with a 24-bit length and a 31-bit stream identifier is parsed back from
  its nine bytes, whatever follows.
\<close>

lemma frame_header_roundtrip:
  assumes "fh_length h < 0x1000000" and "fh_stream h < 0x80000000"
  shows "parse_frame_header (serialize_frame_header h @ rest) = Some h"
  using assms
  by (simp add: parse_frame_header_def serialize_frame_header_def u32_bytes_def nth_append be24_bytes be32_bytes stream_mask)

subsection \<open>Negotiated limits stay in range\<close>

definition settings_ok :: "h2_settings \<Rightarrow> bool" where
  "settings_ok s = (16384 \<le> max_frame_size s \<and> max_frame_size s \<le> 16777215 \<and> initial_window_size s \<le> 0x7fffffff)"

definition conn_ok :: "h2_conn \<Rightarrow> bool" where
  "conn_ok c = (settings_ok (peer_settings c) \<and> table_ok (h2_hpack c))"

lemma update_stream_ok [simp]: "conn_ok (update_stream sid f c) = conn_ok c"
  by (simp add: conn_ok_def update_stream_def)

lemma conn_ok_frame [simp]: "conn_ok (c\<lparr>h2_streams := m\<rparr>) = conn_ok c" "conn_ok (c\<lparr>continuation_sid := i\<rparr>) = conn_ok c"
  "conn_ok (c\<lparr>conn_window := w\<rparr>) = conn_ok c"
  by (simp_all add: conn_ok_def)

lemma apply_settings_ok [inv_intros]: "conn_ok c \<Longrightarrow> conn_ok (fst (apply_settings payload c))"
  by (induction payload c rule: apply_settings.induct)
     (auto simp: Let_def conn_ok_def settings_ok_def not_less intro: update_max_ok)

lemma finish_headers_ok [inv_intros]: "conn_ok c \<Longrightarrow> conn_ok (fst (finish_headers sid es c))"
proof (cases "h2_streams c sid")
  case (Some s)
  assume ok: "conn_ok c"
  obtain t r where d: "hpack_decode (h2_hpack c) (pending_headers s) = (t, r)" by fastforce
  have "table_ok t" using hpack_decode_ok [of "h2_hpack c" "pending_headers s"] ok d by (simp add: conn_ok_def)
  with Some d ok show ?thesis
    by (cases r) (simp_all add: finish_headers_def Let_def update_stream_def conn_ok_def)
qed (simp add: finish_headers_def)

lemma handle_headers_ok: "conn_ok c \<Longrightarrow> conn_ok (fst (handle_headers hdr payload c))"
  unfolding handle_headers_def Let_def by (simp add: finish_headers_ok)

lemma handle_continuation_ok: "conn_ok c \<Longrightarrow> conn_ok (fst (handle_continuation hdr payload c))"
  unfolding handle_continuation_def Let_def by (simp add: finish_headers_ok split: option.split)

lemma handlers_ok:
  "conn_ok c \<Longrightarrow> conn_ok (fst (handle_settings hdr payload c))"
  "conn_ok c \<Longrightarrow> conn_ok (fst (handle_data hdr payload c))"
  "conn_ok c \<Longrightarrow> conn_ok (fst (handle_window_update hdr payload c))"
  "conn_ok c \<Longrightarrow> conn_ok (fst (handle_rst hdr payload c))"
  by (simp_all add: handle_settings_def handle_data_def handle_window_update_def handle_rst_def Let_def apply_settings_ok)

lemma dispatch_ok [inv_intros]: "conn_ok c \<Longrightarrow> conn_ok (fst (dispatch hdr payload c))"
  by (simp add: dispatch_def lift_event_def handlers_ok handle_headers_ok handle_continuation_ok)

lemma process_frame_ok: "conn_ok c \<Longrightarrow> conn_ok (fst (process_frame c buf))"
proof (cases "parse_frame_header buf")
  case (Some hdr)
  assume "conn_ok c"
  then have "conn_ok (fst (dispatch hdr p c))" for p by (rule dispatch_ok)
  with Some \<open>conn_ok c\<close> show ?thesis by (simp add: process_frame_def Let_def case_prod_beta)
qed (simp add: process_frame_def)

interpretation h2m: invariant_machine new_conn "\<lambda>c buf. fst (process_frame c buf)" conn_ok
proof
  show "conn_ok new_conn"
    by (simp add: conn_ok_def new_conn_def settings_ok_def default_settings_def DEFAULT_MAX_FRAME_SIZE_def
        DEFAULT_INITIAL_WINDOW_def table_ok_def new_table_def)
qed (rule process_frame_ok)

text \<open>
  Whatever bytes a peer sends, the negotiated maximal frame size stays between \<open>2^14\<close> and
  \<open>2^24 - 1\<close>, the initial window below \<open>2^31\<close>, and the header table within its limit.
\<close>

lemma h2_limits_invariant:
  "conn_ok (foldl (\<lambda>c buf. fst (process_frame c buf)) new_conn bufs)"
  by (rule h2m.run_inv)

subsection \<open>Frames do not depend on how the bytes arrive\<close>

lemma parse_header_append: "length buf \<ge> 9 \<Longrightarrow> parse_frame_header (buf @ tl2) = parse_frame_header buf"
proof -
  assume l: "length buf \<ge> 9"
  then have "(buf @ tl2) ! i = buf ! i" if "i < 9" for i using that by (simp add: nth_append)
  with l show ?thesis by (simp add: parse_frame_header_def)
qed

lemma process_frame_cases:
  obtains (more) "process_frame c buf = (c, Some EvNeedMore, 0)"
  | (frame) hdr c' ev n where "parse_frame_header buf = Some hdr" "n = 9 + unat (fh_length hdr)" "n \<le> length buf"
      "dispatch hdr (sub_slice 9 n buf) c = (c', ev)" "process_frame c buf = (c', ev, n)"
proof (cases "parse_frame_header buf")
  case None
  then show thesis using more by (simp add: process_frame_def)
next
  case (Some hdr)
  define n where "n = 9 + unat (fh_length hdr)"
  obtain c' ev where "dispatch hdr (sub_slice 9 n buf) c = (c', ev)" by fastforce
  with Some more frame [of hdr n c' ev] n_def show thesis
    by (cases "length buf < n") (simp_all add: process_frame_def)
qed

lemma process_frame_append:
  assumes "process_frame c buf = (c', ev, n)" and "0 < n"
  shows "n \<le> length buf \<and> process_frame c (buf @ rest) = (c', ev, n)"
proof (cases rule: process_frame_cases [of c buf])
  case (frame hdr c2 ev2 m)
  then have [simp]: "c2 = c'" "ev2 = ev" "m = n" using assms(1) by auto
  have "9 \<le> length buf" using frame(2,3) by simp
  then have "parse_frame_header (buf @ rest) = Some hdr" using frame(1) parse_header_append by simp
  moreover have "sub_slice 9 n (buf @ rest) = sub_slice 9 n buf" using frame(3) by (simp add: sub_slice_def)
  ultimately show ?thesis using frame by (simp add: process_frame_def)
qed (use assms in simp)

lemma process_frame_shrinks: "(c', ev, n) = process_frame c buf \<Longrightarrow> 0 < n \<Longrightarrow> length buf - n < length buf"
  using process_frame_append [of c buf c' ev n] by (metis diff_less less_le_trans)

text \<open>All complete frames at the front of a buffer: the events, and the bytes left over.\<close>

function drain_frames :: "h2_conn \<Rightarrow> bytes \<Rightarrow> h2_conn \<times> h2_event option list \<times> bytes" where
  "drain_frames c buf = (case process_frame c buf of (c', ev, n) \<Rightarrow>
     if n = 0 then (c, [], buf)
     else (case drain_frames c' (drop n buf) of (c'', evs, rest) \<Rightarrow> (c'', ev # evs, rest)))"
  by auto
termination
  by (relation "measure (\<lambda>(c, buf). length buf)") (auto dest: process_frame_shrinks)

declare drain_frames.simps [simp del]

definition feed :: "h2_conn \<times> h2_event option list \<times> bytes \<Rightarrow> bytes \<Rightarrow> h2_conn \<times> h2_event option list \<times> bytes" where
  "feed st seg = (case st of (c, evs, buf) \<Rightarrow> case drain_frames c (buf @ seg) of (c', evs', buf') \<Rightarrow> (c', evs @ evs', buf'))"

lemma drain_append:
  "drain_frames c buf = (c', evs, rest) \<Longrightarrow>
   drain_frames c (buf @ seg) = (case drain_frames c' (rest @ seg) of (c'', evs', rest') \<Rightarrow> (c'', evs @ evs', rest'))"
proof (induction c buf arbitrary: c' evs rest rule: drain_frames.induct)
  case (1 c buf)
  obtain c1 ev n where p: "process_frame c buf = (c1, ev, n)" by (metis prod_cases3)
  show ?case
  proof (cases "n = 0")
    case True
    then have "c' = c" "evs = []" "rest = buf" using 1(2) p by (simp_all add: drain_frames.simps [of c buf])
    then show ?thesis by (simp split: prod.split)
  next
    case False
    obtain c2 evs2 rest2 where d: "drain_frames c1 (drop n buf) = (c2, evs2, rest2)" by (metis prod_cases3)
    have e: "c' = c2" "evs = ev # evs2" "rest = rest2" using 1(2) p d False by (simp_all add: drain_frames.simps [of c buf])
    have pa: "n \<le> length buf" "process_frame c (buf @ seg) = (c1, ev, n)" using process_frame_append [OF p] False by auto
    have "drain_frames c1 (drop n buf @ seg) = (case drain_frames c2 (rest2 @ seg) of (c'', evs', rest') \<Rightarrow> (c'', evs2 @ evs', rest'))"
      by (rule 1(1) [OF p [symmetric] refl False d])
    then show ?thesis using pa False e by (simp add: drain_frames.simps [of c "buf @ seg"] split: prod.split)
  qed
qed

text \<open>
  C29: the frames, events and final state do not depend on how the byte stream is cut into
  reads: feeding it segment by segment, with the unconsumed bytes kept, gives what one
  read of all of it gives.
\<close>

theorem frames_independent_of_segmentation:
  "foldl feed (new_conn, [], []) segs = drain_frames new_conn (concat segs)"
proof (induction segs rule: rev_induct)
  case Nil
  have "process_frame new_conn [] = (new_conn, Some EvNeedMore, 0)" by (simp add: process_frame_def parse_frame_header_def)
  then show ?case by (simp add: drain_frames.simps)
next
  case (snoc seg segs)
  obtain c evs rest where d: "drain_frames new_conn (concat segs) = (c, evs, rest)" by (metis prod_cases3)
  show ?case using snoc drain_append [OF d, of seg] d by (simp add: feed_def)
qed

subsection \<open>Header blocks in several frames\<close>

text \<open>A header block sent as a HEADERS frame without END_HEADERS, CONTINUATION frames without it and a last one with it.\<close>

definition continuations :: "32 word \<Rightarrow> bytes list \<Rightarrow> h2_conn \<Rightarrow> h2_conn" where
  "continuations sid frags c = foldl (\<lambda>c f. fst (handle_continuation \<lparr>fh_length = word_of_nat (length f), fh_type = FRAME_CONTINUATION,
     fh_flags = 0, fh_stream = sid\<rparr> f c)) c frags"

lemma no_flags [simp]: "\<not> has_flag 0 f"
  by simp

lemma continuations_collect:
  assumes "h2_streams c sid = Some s" and "continuation_sid c = sid"
  shows "continuations sid frags c = update_stream sid (\<lambda>s. s\<lparr>pending_headers := pending_headers s @ concat frags\<rparr>) c"
  using assms
proof (induction frags arbitrary: c s)
  case Nil
  then show ?case by (simp add: continuations_def update_stream_def fun_upd_idem)
next
  case (Cons f fs)
  let ?c = "update_stream sid (\<lambda>s. s\<lparr>pending_headers := pending_headers s @ f\<rparr>) c"
  have "continuations sid (f # fs) c = continuations sid fs ?c"
    using Cons.prems by (simp add: continuations_def handle_continuation_def Let_def)
  also have "\<dots> = update_stream sid (\<lambda>s. s\<lparr>pending_headers := pending_headers s @ concat fs\<rparr>) ?c"
    by (rule Cons.IH [of _ "s\<lparr>pending_headers := pending_headers s @ f\<rparr>"]) (use Cons.prems in \<open>simp_all add: update_stream_def\<close>)
  finally show ?case by (simp add: update_stream_def option.map_comp comp_def Cons.prems)
qed

text \<open>
  A header block cut into a HEADERS frame and CONTINUATION frames is decoded as the
  whole block and with the same effect on the header table, but the END_STREAM flag of the
  HEADERS frame is lost: the event says that the stream continues and the stream stays
  open, while the same block in one frame ends the stream.
\<close>

lemma continuation_loses_end_stream:
  assumes "h2_streams c sid = None" and "hpack_decode (h2_hpack c) (concat (f0 # frags) @ lastf) = (t, HOk hs)"
    and "hf = \<lparr>fh_length = l0, fh_type = FRAME_HEADERS, fh_flags = FLAG_END_STREAM, fh_stream = sid\<rparr>"
    and "hl = \<lparr>fh_length = l1, fh_type = FRAME_CONTINUATION, fh_flags = FLAG_END_HEADERS, fh_stream = sid\<rparr>"
    and "hw = \<lparr>fh_length = l2, fh_type = FRAME_HEADERS, fh_flags = FLAG_END_STREAM OR FLAG_END_HEADERS, fh_stream = sid\<rparr>"
  shows "(case handle_continuation hl lastf (continuations sid frags (fst (handle_headers hf f0 c))) of (c2, ev) \<Rightarrow>
      ev = Some (EvHeaders sid hs False) \<and> map_option st_state (h2_streams c2 sid) = Some StOpen \<and> h2_hpack c2 = t)
    \<and> (case handle_headers hw (concat (f0 # frags) @ lastf) c of (c2, ev) \<Rightarrow>
      ev = Some (EvHeaders sid hs True) \<and> map_option st_state (h2_streams c2 sid) = Some StHalfClosedRemote \<and> h2_hpack c2 = t)"
proof -
  let ?s = "\<lparr>st_state = StOpen, st_window = uint (initial_window_size (peer_settings c)), pending_headers = f0\<rparr>"
  define c1 where "c1 = fst (handle_headers hf f0 c)"
  have pad: "strip_padding p FLAG_END_STREAM = (p, 0)" "strip_padding p (FLAG_END_STREAM OR FLAG_END_HEADERS) = (p, 0)" for p
    by (simp_all add: strip_padding_def FLAG_END_STREAM_def FLAG_END_HEADERS_def FLAG_PADDED_def split: list.split)
  have fl: "\<not> has_flag FLAG_END_STREAM FLAG_END_HEADERS" "\<not> has_flag FLAG_END_STREAM FLAG_PRIORITY"
    "has_flag FLAG_END_HEADERS FLAG_END_HEADERS" "has_flag (FLAG_END_STREAM OR FLAG_END_HEADERS) FLAG_END_HEADERS"
    "has_flag (FLAG_END_STREAM OR FLAG_END_HEADERS) FLAG_END_STREAM" "\<not> has_flag (FLAG_END_STREAM OR FLAG_END_HEADERS) FLAG_PRIORITY"
    by (simp_all add: FLAG_END_STREAM_def FLAG_END_HEADERS_def FLAG_PRIORITY_def)
  have c1: "c1 = c\<lparr>h2_streams := (h2_streams c)(sid \<mapsto> ?s), continuation_sid := sid\<rparr>"
    using assms(1) pad fl by (simp add: c1_def assms(3) handle_headers_def Let_def)
  have cs: "continuations sid frags c1 = update_stream sid (\<lambda>s. s\<lparr>pending_headers := pending_headers s @ concat frags\<rparr>) c1"
    by (rule continuations_collect [of _ _ ?s]) (simp_all add: c1)
  have "case handle_continuation hl lastf (continuations sid frags c1) of (c2, ev) \<Rightarrow>
      ev = Some (EvHeaders sid hs False) \<and> map_option st_state (h2_streams c2 sid) = Some StOpen \<and> h2_hpack c2 = t"
    unfolding cs unfolding c1 using assms(2) fl
    by (simp add: handle_continuation_def assms(4) Let_def update_stream_def finish_headers_def)
  moreover have "case handle_headers hw (concat (f0 # frags) @ lastf) c of (c2, ev) \<Rightarrow>
      ev = Some (EvHeaders sid hs True) \<and> map_option st_state (h2_streams c2 sid) = Some StHalfClosedRemote \<and> h2_hpack c2 = t"
    using assms(1,2) pad fl
    by (simp add: handle_headers_def assms(5) Let_def update_stream_def finish_headers_def)
  ultimately show ?thesis by (simp add: c1_def)
qed

end
