(* ===== verification/Onnx.thy ===== *)
theory Onnx
  imports Govern
begin

text \<open>
  The local classifier of \<open>detect/onnx_engine.rs\<close>: labels, the WordPiece tokenizer, the
  heuristic used when the ONNX runtime is not linked, loading, and the global entry point.
  The run of the model is a parameter; wall-clock times and the raw logits are left out.
\<close>

subsection \<open>Labels\<close>

fun from_index :: "nat \<Rightarrow> security_label" where
  "from_index i = (if i = 0 then OClean else if i = 1 then OPiiLeak else if i = 2 then OJailbreak
     else if i = 3 then OSecretExposure else OClean)"

fun label_as_str :: "security_label \<Rightarrow> str" where
  "label_as_str OClean = ''clean''"
| "label_as_str OPiiLeak = ''pii_leak''"
| "label_as_str OJailbreak = ''jailbreak''"
| "label_as_str OSecretExposure = ''secret_exposure''"

fun base_risk :: "security_label \<Rightarrow> f64" where
  "base_risk OClean = Fin 0"
| "base_risk OPiiLeak = of_exact (75 / 100)"
| "base_risk OJailbreak = of_exact (90 / 100)"
| "base_risk OSecretExposure = of_exact (95 / 100)"

subsection \<open>The tokenizer\<close>

record wordpiece_tokenizer =
  wp_vocab :: "str \<rightharpoonup> int"
  cls_id :: int
  sep_id :: int
  pad_id :: int
  unk_id :: int
  wp_max_len :: nat

text \<open>\<open>content\<close> is the vocabulary file, \<open>None\<close> when it cannot be read; a token that is listed twice has its last number.\<close>

definition tokenizer_from_file :: "str option \<Rightarrow> wordpiece_tokenizer option" where
  "tokenizer_from_file content =
     Option.bind content (\<lambda>s.
     let vocab = map_of (rev (map (\<lambda>(i, tok). (trim tok, int i)) (enumerate 0 (str_lines (split_on (CHR 0x0A) s)))))
     in Option.bind (vocab ''[CLS]'') (\<lambda>c. Option.bind (vocab ''[SEP]'') (\<lambda>sp.
        Option.bind (vocab ''[PAD]'') (\<lambda>p. Option.bind (vocab ''[UNK]'') (\<lambda>k.
          Some \<lparr>wp_vocab = vocab, cls_id = c, sep_id = sp, pad_id = p, unk_id = k, wp_max_len = 512\<rparr>)))))"

definition candidate :: "bool \<Rightarrow> nat list \<Rightarrow> str" where
  "candidate is_start cs = (if is_start then of_chars cs else ''##'' @ of_chars cs)"

text \<open>The longest piece at the front that is in the vocabulary.\<close>

definition longest_piece :: "wordpiece_tokenizer \<Rightarrow> bool \<Rightarrow> nat list \<Rightarrow> nat option" where
  "longest_piece t is_start cs = find (\<lambda>e. wp_vocab t (candidate is_start (take e cs)) \<noteq> None) (rev [1..<Suc (length cs)])"

lemma find_SomeD: "find P xs = Some x \<Longrightarrow> x \<in> set xs \<and> P x"
  by (induction xs) (auto split: if_splits)

lemma longest_piece_SomeD: "longest_piece t b cs = Some e \<Longrightarrow> 0 < e \<and> e \<le> length cs"
  unfolding longest_piece_def by (drule find_SomeD) (auto simp del: upt_Suc)

function wp_loop :: "wordpiece_tokenizer \<Rightarrow> bool \<Rightarrow> nat list \<Rightarrow> int list" where
  "wp_loop t is_start cs =
     (if cs = [] then []
      else case longest_piece t is_start cs of
          Some e \<Rightarrow> the (wp_vocab t (candidate is_start (take e cs))) # wp_loop t False (drop e cs)
        | None \<Rightarrow> unk_id t # wp_loop t False (drop 1 cs))"
  by auto
termination
  by (relation "measure (\<lambda>(t, b, cs). length cs)") (auto dest: longest_piece_SomeD)

declare wp_loop.simps [simp del]

definition wordpiece :: "wordpiece_tokenizer \<Rightarrow> str \<Rightarrow> int list" where
  "wordpiece t word = (case wp_vocab t word of Some i \<Rightarrow> [i] | None \<Rightarrow> wp_loop t True (chars word))"

fun encode_words :: "wordpiece_tokenizer \<Rightarrow> int list \<Rightarrow> str list \<Rightarrow> int list" where
  "encode_words t ids [] = ids"
| "encode_words t ids (w # ws) =
     (let ids' = ids @ wordpiece t w in if length ids' \<ge> wp_max_len t - 1 then ids' else encode_words t ids' ws)"

definition words :: "str \<Rightarrow> str list" where
  "words s = map of_chars (split_whitespace is_whitespace (chars s))"

definition raw_ids :: "unicode \<Rightarrow> wordpiece_tokenizer \<Rightarrow> str \<Rightarrow> int list" where
  "raw_ids u t txt = encode_words t [cls_id t] (words (lowercase u txt)) @ [sep_id t]"

text \<open>\<open>Vec::resize\<close>.\<close>

definition resize :: "nat \<Rightarrow> 'a \<Rightarrow> 'a list \<Rightarrow> 'a list" where
  "resize n x xs = take n xs @ replicate (n - length xs) x"

definition encode_text :: "unicode \<Rightarrow> wordpiece_tokenizer \<Rightarrow> str \<Rightarrow> int list \<times> int list" where
  "encode_text u t txt =
     (let ids = raw_ids u t txt;
          mask = map (\<lambda>_. 1) ids @ replicate (wp_max_len t - length ids) 0
      in (resize (wp_max_len t) (pad_id t) ids, mask))"

subsection \<open>Classification\<close>

definition SECRET_PREFIXES :: "str list" where
  "SECRET_PREFIXES = [''sk-'', ''sk-proj-'', ''sk-ant-'', ''ghp_'', ''gho_'', ''ghu_'', ''ghs_'', ''ghr_'',
     ''github_pat_'', ''AKIA'', ''AGPA'', ''AIDA'', ''AROA'', ''ASIA'', ''xoxb-'', ''xoxp-'', ''glpat-'', ''-----BEGIN'']"

definition pii_keywords :: "str list" where
  "pii_keywords = [''ssn'', ''social security'', ''credit card'', ''passport'', ''driver license'', ''date of birth'', ''bank account'']"

abbreviation hundredths :: "real \<Rightarrow> f64" where
  "hundredths n \<equiv> of_exact (n / 100)"

definition heuristic_classify :: "unicode \<Rightarrow> str \<Rightarrow> onnx_verdict option" where
  "heuristic_classify u txt =
     map_option (\<lambda>bpe.
       if threat bpe \<noteq> ThreatNone
       then \<lparr>ov_label = OJailbreak, ov_confidence = hundredths 80, ov_risk = fmul (hundredths 80) (base_risk OJailbreak)\<rparr>
       else let has_secret_prefix = list_ex (\<lambda>tok. list_ex (starts_with tok) SECRET_PREFIXES \<and> length tok \<ge> 12) (words txt);
                has_high_entropy = list_ex (\<lambda>tok. length tok \<ge> 20 \<and> flt (of_exact (45 / 10)) (shannon_entropy tok)) (words txt)
            in if has_secret_prefix \<or> has_high_entropy
               then \<lparr>ov_label = OSecretExposure, ov_confidence = (if has_secret_prefix then hundredths 80 else hundredths 75),
                     ov_risk = fmul (hundredths 78) (base_risk OSecretExposure)\<rparr>
               else if list_ex (contains (lowercase u txt)) pii_keywords
               then \<lparr>ov_label = OPiiLeak, ov_confidence = hundredths 72, ov_risk = fmul (hundredths 72) (base_risk OPiiLeak)\<rparr>
               else \<lparr>ov_label = OClean, ov_confidence = hundredths 80, ov_risk = Fin 0\<rparr>)
       (bpe_scan u txt)"

text \<open>
  \<open>Path::exists\<close> is the argument \<open>on_disk\<close>, the environment variable and the build feature are flags.
\<close>

definition ort_available :: "bool \<Rightarrow> (str \<Rightarrow> bool) \<Rightarrow> bool \<Rightarrow> bool" where
  "ort_available env_dylib on_disk linked =
     (env_dylib \<or> on_disk ''/usr/lib/libonnxruntime.so.1.17.3'' \<or> on_disk ''/usr/local/lib/libonnxruntime.so'' \<or> linked)"

record onnx_engine =
  tokenizer :: wordpiece_tokenizer
  runtime_available :: bool
  model_path :: str

definition load_engine :: "bool \<Rightarrow> (str \<Rightarrow> bool) \<Rightarrow> bool \<Rightarrow> (str \<Rightarrow> str option) \<Rightarrow> str \<Rightarrow> str \<Rightarrow> onnx_engine option" where
  "load_engine env_dylib on_disk linked read_file mpath vocab_path =
     map_option (\<lambda>t. \<lparr>tokenizer = t, runtime_available = on_disk mpath \<and> ort_available env_dylib on_disk linked, model_path = mpath\<rparr>)
       (tokenizer_from_file (read_file vocab_path))"

text \<open>The cell of the global engine is written once; the flag says whether this call set it.\<close>

definition init_engine :: "onnx_engine option \<Rightarrow> onnx_engine option \<Rightarrow> bool \<times> onnx_engine option" where
  "init_engine cell loaded = (case loaded of
     None \<Rightarrow> (False, cell)
   | Some e \<Rightarrow> (case cell of None \<Rightarrow> (True, Some e) | Some old \<Rightarrow> (False, Some old)))"

text \<open>
  With the runtime linked, \<open>session\<close> is the run of the model file on a pair of tensors of
  one row each, together with the softmax of its logits; the two tensors are built
  with the length of the token list, and a vector of another length panics (\<open>None\<close>).
  Without it the heuristic answers.
\<close>

definition ort_classify ::
  "unicode \<Rightarrow> (str \<Rightarrow> int list \<Rightarrow> int list \<Rightarrow> onnx_verdict option) option \<Rightarrow> onnx_engine \<Rightarrow> str \<Rightarrow> onnx_verdict option" where
  "ort_classify u session e txt = (case session of
     None \<Rightarrow> heuristic_classify u txt
   | Some run \<Rightarrow>
       (let (input_ids, attention_mask) = encode_text u (tokenizer e) txt
        in if length attention_mask \<noteq> length input_ids then None else run (model_path e) input_ids attention_mask))"

definition engine_classify ::
  "unicode \<Rightarrow> (str \<Rightarrow> int list \<Rightarrow> int list \<Rightarrow> onnx_verdict option) option \<Rightarrow> onnx_engine \<Rightarrow> str \<Rightarrow> onnx_verdict option" where
  "engine_classify u session e txt =
     (if \<not> runtime_available e then heuristic_classify u txt else ort_classify u session e txt)"

definition classify_global ::
  "unicode \<Rightarrow> (str \<Rightarrow> int list \<Rightarrow> int list \<Rightarrow> onnx_verdict option) option \<Rightarrow> onnx_engine option \<Rightarrow> str \<Rightarrow> onnx_verdict option" where
  "classify_global u session eng txt = (case eng of
     Some e \<Rightarrow> engine_classify u session e txt
   | None \<Rightarrow> Some \<lparr>ov_label = OClean, ov_confidence = hundredths 50, ov_risk = Fin 0\<rparr>)"

subsection \<open>Shape of the model input\<close>

lemma encode_text_shape:
  "length (fst (encode_text u t txt)) = wp_max_len t
   \<and> length (snd (encode_text u t txt)) = max (wp_max_len t) (length (raw_ids u t txt))"
  by (auto simp: encode_text_def resize_def Let_def)

lemma wp_loop_length: "length (wp_loop t b cs) \<le> length cs"
proof (induction t b cs rule: wp_loop.induct)
  case (1 t b cs)
  show ?case
  proof (cases "cs = []")
    case True
    then show ?thesis by (simp add: wp_loop.simps)
  next
    case False
    show ?thesis
    proof (cases "longest_piece t b cs")
      case None
      then show ?thesis using 1(1) [OF False None] False by (simp add: wp_loop.simps [of t b cs]) (cases cs; simp)
    next
      case (Some e)
      then show ?thesis using 1(2) [OF False Some] longest_piece_SomeD [OF Some] False
        by (auto simp: wp_loop.simps [of t b cs])
    qed
  qed
qed

lemma wp_loop_unknown:
  assumes "\<And>b ds. ds \<noteq> [] \<Longrightarrow> wp_vocab t (candidate b ds) = None"
  shows "wp_loop t b cs = replicate (length cs) (unk_id t)"
proof (induction cs arbitrary: b)
  case (Cons c cs)
  have "longest_piece t b (c # cs) = None"
    unfolding longest_piece_def find_None_iff
  proof
    assume "\<exists>e. e \<in> set (rev [1..<Suc (length (c # cs))]) \<and> wp_vocab t (candidate b (take e (c # cs))) \<noteq> None"
    then obtain e where "0 < e" "wp_vocab t (candidate b (take e (c # cs))) \<noteq> None" by (auto simp: Suc_le_eq simp del: upt_Suc)
    with assms [of "take e (c # cs)" b] show False by simp
  qed
  with Cons show ?case by (simp add: wp_loop.simps [of t b "c # cs"])
qed (simp add: wp_loop.simps)

text \<open>
  A word of many unknown characters makes the attention mask longer than the token list,
  and the classification of the text panics whatever the model would answer.
\<close>

lemma long_word_panics:
  assumes "runtime_available e" and "words (lowercase u tx) = [w]" and "wp_vocab (tokenizer e) w = None"
    and "wp_max_len (tokenizer e) < length (chars w) + 2"
    and "\<And>b ds. ds \<noteq> [] \<Longrightarrow> wp_vocab (tokenizer e) (candidate b ds) = None"
  shows "engine_classify u (Some run) e tx = None"
proof -
  have "length (raw_ids u (tokenizer e) tx) = length (chars w) + 2"
    using assms(2,3) wp_loop_unknown [OF assms(5)] by (simp add: raw_ids_def wordpiece_def Let_def)
  then have "length (snd (encode_text u (tokenizer e) tx)) \<noteq> length (fst (encode_text u (tokenizer e) tx))"
    using encode_text_shape [of u "tokenizer e" tx] assms(4) by simp
  then show ?thesis using assms(1)
    by (cases "encode_text u (tokenizer e) tx") (simp add: engine_classify_def ort_classify_def)
qed

text \<open>Without the feature the heuristic answers also when a runtime library was found.\<close>

lemma engine_unlinked: "engine_classify u None e tx = heuristic_classify u tx"
  by (simp add: engine_classify_def ort_classify_def)

subsection \<open>Without the runtime nothing is triaged\<close>

lemma hundredths_order:
  assumes "0 \<le> m" and "m + 1 \<le> n" and "n \<le> 1000"
  shows "flt (hundredths m) (hundredths n)" "\<not> fge (hundredths m) (hundredths n)" "fge (hundredths n) (hundredths m)" "\<not> flt (hundredths n) (hundredths m)"
proof -
  obtain a where a: "hundredths m = Fin a" "\<bar>a - m / 100\<bar> \<le> 1 / 1000000000"
    using of_exact_close [of "m / 100"] assms by force
  obtain b where b: "hundredths n = Fin b" "\<bar>b - n / 100\<bar> \<le> 1 / 1000000000"
    using of_exact_close [of "n / 100"] assms by force
  have "a < b" using abs_le_D1 [OF a(2)] abs_le_D2 [OF b(2)] assms(2) by linarith
  then show "flt (hundredths m) (hundredths n)" "\<not> fge (hundredths m) (hundredths n)" "fge (hundredths n) (hundredths m)" "\<not> flt (hundredths n) (hundredths m)"
    unfolding a b by (simp_all add: flt_def feq_def)
qed

lemma heuristic_undecided:
  assumes "heuristic_classify u txt = Some v"
  shows "\<not> is_actionable v \<and> \<not> needs_escalation v"
proof -
  have "ov_confidence v \<in> {hundredths 80, hundredths 75, hundredths 72}"
    using assms by (auto simp: heuristic_classify_def Let_def)
  then show ?thesis
    unfolding is_actionable_def needs_escalation_def
    using hundredths_order [of 80 85] hundredths_order [of 75 85] hundredths_order [of 72 85]
      hundredths_order [of 70 80] hundredths_order [of 70 75] hundredths_order [of 70 72] by auto
qed

text \<open>
  C30: as long as the ONNX runtime is not linked or not found, or the engine was never
  initialised, the triage of an ambiguous text changes nothing: the confidence of the
  heuristic lies between the two thresholds, so its label is ignored and the Python
  detector is never asked, whatever it would answer.
\<close>

theorem triage_inert_without_runtime:
  assumes "classify_global u session eng txt = Some v"
    and "session = None \<or> eng = None \<or> \<not> runtime_available (the eng)"
  shows "triage (\<lambda>_. v) python txt fast = fast"
proof -
  have "\<not> is_actionable v \<and> \<not> needs_escalation v"
  proof (cases eng)
    case None
    then have "v = \<lparr>ov_label = OClean, ov_confidence = hundredths 50, ov_risk = Fin 0\<rparr>" using assms(1) by (simp add: classify_global_def)
    then show ?thesis using hundredths_order [of 50 85] by (simp add: is_actionable_def needs_escalation_def)
  next
    case (Some e)
    then have "heuristic_classify u txt = Some v" using assms
      by (auto simp: classify_global_def engine_unlinked) (simp add: engine_classify_def)
    then show ?thesis by (rule heuristic_undecided)
  qed
  then show ?thesis by (cases fast) (simp_all add: triage_def Let_def)
qed

theorem triage_inert_without_runtime_witness:
  "triage (\<lambda>_. \<lparr>ov_label = OClean, ov_confidence = hundredths 50, ov_risk = Fin 0\<rparr>) (\<lambda>_. Some Clean) ''text'' (Ambiguous (Fin 40) NerKeywords)
   = Ambiguous (Fin 40) NerKeywords"
  by (rule triage_inert_without_runtime [where eng = None and session = None and u = plain_unicode]) (simp_all add: classify_global_def)

end
