(* ===== verification/Metrics.thy ===== *)
theory Metrics
  imports Govern
begin

text \<open>
  The metrics registry (\<open>metrics/counters.rs\<close>, \<open>histogram.rs\<close>, \<open>mod.rs\<close>, \<open>prometheus.rs\<close>):
  counters on 64-bit atomics, cumulative histograms, the ring of recent requests and the
  two renderings. Every atomic addition is one step and the additions commute, so a
  sequence of calls stands for any interleaving of them.
\<close>

subsection \<open>Counters\<close>

record counter =
  c_name :: str
  c_help :: str
  c_value :: "64 word"

definition new_counter :: "str \<Rightarrow> str \<Rightarrow> counter" where
  "new_counter name help = \<lparr>c_name = name, c_help = help, c_value = 0\<rparr>"

definition counter_inc :: "counter \<Rightarrow> counter" where
  "counter_inc c = c\<lparr>c_value := c_value c + 1\<rparr>"

definition counter_inc_by :: "counter \<Rightarrow> 64 word \<Rightarrow> counter" where
  "counter_inc_by c n = c\<lparr>c_value := c_value c + n\<rparr>"

record counter_vec =
  cv_name :: str
  cv_help :: str
  cv_label :: str
  cells :: "(str \<times> 64 word) list"

definition new_counter_vec :: "str \<Rightarrow> str \<Rightarrow> str \<Rightarrow> str list \<Rightarrow> counter_vec" where
  "new_counter_vec name help label values = \<lparr>cv_name = name, cv_help = help, cv_label = label, cells = map (\<lambda>v. (v, 0)) values\<rparr>"

text \<open>The first cell with the label; nothing happens when there is none.\<close>

fun bump :: "str \<Rightarrow> 64 word \<Rightarrow> (str \<times> 64 word) list \<Rightarrow> (str \<times> 64 word) list" where
  "bump l n [] = []"
| "bump l n ((v, c) # cs) = (if v = l then (v, c + n) # cs else (v, c) # bump l n cs)"

definition cv_inc_by :: "counter_vec \<Rightarrow> str \<Rightarrow> 64 word \<Rightarrow> counter_vec" where
  "cv_inc_by cv l n = cv\<lparr>cells := bump l n (cells cv)\<rparr>"

definition cv_inc :: "counter_vec \<Rightarrow> str \<Rightarrow> counter_vec" where
  "cv_inc cv l = cv\<lparr>cells := bump l 1 (cells cv)\<rparr>"

definition cv_get :: "counter_vec \<Rightarrow> str \<Rightarrow> 64 word" where
  "cv_get cv l = (case find (\<lambda>(v, _). v = l) (cells cv) of Some (_, c) \<Rightarrow> c | None \<Rightarrow> 0)"

subsection \<open>Histograms\<close>

record histogram =
  h_name :: str
  h_help :: str
  h_bounds :: "f64 list"
  h_counts :: "64 word list"
  h_sum_us :: "64 word"
  h_total :: "64 word"

definition new_histogram :: "str \<Rightarrow> str \<Rightarrow> f64 list \<Rightarrow> histogram" where
  "new_histogram name help bs =
     \<lparr>h_name = name, h_help = help, h_bounds = bs, h_counts = replicate (length bs + 1) 0, h_sum_us = 0, h_total = 0\<rparr>"

text \<open>\<open>as u64\<close> truncates and saturates; a value that is not a number gives zero.\<close>

fun f64_as_u64 :: "f64 \<Rightarrow> 64 word" where
  "f64_as_u64 (Fin x) = (if x < 0 then 0 else if x \<ge> 2 ^ 64 then -1 else word_of_int \<lfloor>x\<rfloor>)"
| "f64_as_u64 PInf = -1"
| "f64_as_u64 _ = 0"

definition u64_as_f64 :: "64 word \<Rightarrow> f64" where
  "u64_as_f64 w = of_exact (real (unat w))"

text \<open>\<open>partition_point\<close> on the ascending bounds.\<close>

definition bucket_of :: "f64 list \<Rightarrow> f64 \<Rightarrow> nat" where
  "bucket_of bs v = length (takeWhile (\<lambda>b. flt b v) bs)"

definition observe :: "histogram \<Rightarrow> f64 \<Rightarrow> histogram" where
  "observe h v = h\<lparr>h_total := h_total h + 1, h_sum_us := h_sum_us h + f64_as_u64 (fmul v (Fin 1000)),
     h_counts := map (\<lambda>(i, c). if bucket_of (h_bounds h) v \<le> i then c + 1 else c) (enumerate 0 (h_counts h))\<rparr>"

definition h_sum_ms :: "histogram \<Rightarrow> f64" where
  "h_sum_ms h = fdiv (u64_as_f64 (h_sum_us h)) (Fin 1000)"

definition h_buckets :: "histogram \<Rightarrow> (f64 \<times> 64 word) list" where
  "h_buckets h = map (\<lambda>(i, b). (b, h_counts h ! i)) (enumerate 0 (h_bounds h)) @ [(PInf, h_total h)]"

definition LATENCY_BOUNDS_MS :: "f64 list" where
  "LATENCY_BOUNDS_MS = map Fin [1, 2, 5, 10, 25, 50, 100, 250, 500, 1000, 2500, 5000]"

definition DETECTOR_BOUNDS_MS :: "f64 list" where
  "DETECTOR_BOUNDS_MS = map Fin [1 / 2, 1, 2, 5, 10, 25, 50, 100, 250, 500]"

subsection \<open>The store\<close>

definition RING_CAPACITY :: nat where "RING_CAPACITY = 20"

record recent_request =
  rr_request_id :: str
  rr_org_id :: str
  rr_model :: str
  rr_action :: str
  rr_risk_score :: f64
  rr_pii_types :: "str list"
  rr_latency_ms :: f64
  rr_timestamp :: nat

record metrics_store =
  requests_by_action :: counter_vec
  fastpath_hits :: counter_vec
  circuit_open :: counter_vec
  ms_pii_types :: counter_vec
  tokens_prompt :: counter_vec
  tokens_completion :: counter_vec
  detector_calls :: counter
  rate_limited :: counter
  ms_pool_connections :: counter
  latency_allow :: histogram
  latency_block :: histogram
  latency_redact :: histogram
  latency_route_local :: histogram
  latency_detector :: histogram
  risk_sum_micro :: "64 word"
  risk_count :: "64 word"
  recent :: "recent_request list"

definition PII_TYPES :: "str list" where
  "PII_TYPES = [''SSN'', ''CREDIT_CARD'', ''EMAIL'', ''PHONE'', ''IP_ADDRESS'', ''OPENAI_KEY'', ''ANTHROPIC_KEY'',
     ''AWS_KEY'', ''GITHUB_TOKEN'', ''SENDGRID_KEY'', ''HUGGINGFACE_KEY'', ''GITLAB_TOKEN'', ''JWT'', ''HIGH_ENTROPY'', ''JAILBREAK'']"

definition UPSTREAM_LABELS :: "str list" where "UPSTREAM_LABELS = [''openai'', ''anthropic'', ''ollama'', ''local'']"

definition PROVIDERS :: "str list" where "PROVIDERS = [''openai'', ''anthropic'', ''ollama'', ''local'', ''unknown'']"

definition ACTIONS :: "str list" where "ACTIONS = [''allow'', ''block'', ''redact'', ''route_local'']"

definition new_store :: metrics_store where
  "new_store = \<lparr>
     requests_by_action = new_counter_vec ''tsm_requests_total'' ''Total requests by action'' ''action'' ACTIONS,
     fastpath_hits = new_counter_vec ''tsm_fastpath_hits_total'' ''Fast-path hits by PII type'' ''pii_type'' PII_TYPES,
     circuit_open = new_counter_vec ''tsm_circuit_open_total'' ''Requests rejected by open circuit breaker'' ''upstream'' UPSTREAM_LABELS,
     ms_pii_types = new_counter_vec ''tsm_pii_types_detected_total'' ''PII types detected'' ''pii_type'' PII_TYPES,
     tokens_prompt = new_counter_vec ''tsm_tokens_prompt_total'' ''Prompt (input) tokens by provider'' ''provider'' PROVIDERS,
     tokens_completion = new_counter_vec ''tsm_tokens_completion_total'' ''Completion (output) tokens by provider'' ''provider'' PROVIDERS,
     detector_calls = new_counter ''tsm_detector_calls_total'' ''Calls to the Python detector'',
     rate_limited = new_counter ''tsm_rate_limited_total'' ''Requests rejected by rate limiter'',
     ms_pool_connections = new_counter ''tsm_pool_connections_total'' ''TLS connections established to upstreams'',
     latency_allow = new_histogram ''tsm_request_duration_ms_allow'' ''allow latency ms'' LATENCY_BOUNDS_MS,
     latency_block = new_histogram ''tsm_request_duration_ms_block'' ''block latency ms'' LATENCY_BOUNDS_MS,
     latency_redact = new_histogram ''tsm_request_duration_ms_redact'' ''redact latency ms'' LATENCY_BOUNDS_MS,
     latency_route_local = new_histogram ''tsm_request_duration_ms_route_local'' ''route_local latency ms'' LATENCY_BOUNDS_MS,
     latency_detector = new_histogram ''tsm_detector_duration_ms'' ''detector latency ms'' DETECTOR_BOUNDS_MS,
     risk_sum_micro = 0, risk_count = 0, recent = []\<rparr>"

definition observe_action :: "str \<Rightarrow> f64 \<Rightarrow> metrics_store \<Rightarrow> metrics_store" where
  "observe_action act v s =
     (if act = ''allow'' then s\<lparr>latency_allow := observe (latency_allow s) v\<rparr>
      else if act = ''block'' then s\<lparr>latency_block := observe (latency_block s) v\<rparr>
      else if act = ''redact'' then s\<lparr>latency_redact := observe (latency_redact s) v\<rparr>
      else if act = ''route_local'' then s\<lparr>latency_route_local := observe (latency_route_local s) v\<rparr>
      else s)"

text \<open>\<open>VecDeque\<close>: push at the back and drop the front beyond the capacity.\<close>

definition ring_push :: "recent_request list \<Rightarrow> recent_request \<Rightarrow> recent_request list" where
  "ring_push ring r = (let ring' = ring @ [r] in if length ring' > RING_CAPACITY then tl ring' else ring')"

definition record_request :: "str \<Rightarrow> f64 \<Rightarrow> f64 \<Rightarrow> str list \<Rightarrow> recent_request \<Rightarrow> metrics_store \<Rightarrow> metrics_store" where
  "record_request act latency risk types req s =
     (let s1 = s\<lparr>requests_by_action := cv_inc (requests_by_action s) act\<rparr>;
          s2 = observe_action act latency s1;
          s3 = s2\<lparr>risk_sum_micro := risk_sum_micro s2 + f64_as_u64 (fmul risk (Fin 1000000)), risk_count := risk_count s2 + 1\<rparr>;
          s4 = s3\<lparr>ms_pii_types := foldl cv_inc (ms_pii_types s3) types\<rparr>
      in s4\<lparr>recent := ring_push (recent s4) req\<rparr>)"

definition record_fastpath_hit :: "str \<Rightarrow> metrics_store \<Rightarrow> metrics_store" where
  "record_fastpath_hit t s = s\<lparr>fastpath_hits := cv_inc (fastpath_hits s) t\<rparr>"

definition record_detector_call :: "f64 \<Rightarrow> metrics_store \<Rightarrow> metrics_store" where
  "record_detector_call v s = s\<lparr>detector_calls := counter_inc (detector_calls s), latency_detector := observe (latency_detector s) v\<rparr>"

definition record_rate_limited :: "metrics_store \<Rightarrow> metrics_store" where
  "record_rate_limited s = s\<lparr>rate_limited := counter_inc (rate_limited s)\<rparr>"

definition record_circuit_open :: "str \<Rightarrow> metrics_store \<Rightarrow> metrics_store" where
  "record_circuit_open up s = s\<lparr>circuit_open := cv_inc (circuit_open s) up\<rparr>"

definition record_pool_connection :: "metrics_store \<Rightarrow> metrics_store" where
  "record_pool_connection s = s\<lparr>ms_pool_connections := counter_inc (ms_pool_connections s)\<rparr>"

definition usage_label :: "str \<Rightarrow> str" where
  "usage_label provider = (if provider \<in> set [''openai'', ''anthropic'', ''ollama'', ''local''] then provider else ''unknown'')"

definition record_usage :: "str \<Rightarrow> 64 word \<Rightarrow> 64 word \<Rightarrow> metrics_store \<Rightarrow> metrics_store" where
  "record_usage provider prompt completion s =
     s\<lparr>tokens_prompt := cv_inc_by (tokens_prompt s) (usage_label provider) prompt,
        tokens_completion := cv_inc_by (tokens_completion s) (usage_label provider) completion\<rparr>"

definition avg_risk_score :: "metrics_store \<Rightarrow> f64" where
  "avg_risk_score s = (if risk_count s = 0 then Fin 0
     else fdiv (fdiv (u64_as_f64 (risk_sum_micro s)) (Fin 1000000)) (u64_as_f64 (risk_count s)))"

definition recent_json :: "recent_request \<Rightarrow> json" where
  "recent_json r = JObj [(''request_id'', JStr (rr_request_id r)), (''org_id'', JStr (rr_org_id r)), (''model'', JStr (rr_model r)),
     (''action'', JStr (rr_action r)), (''risk_score'', json_f64 (rr_risk_score r)), (''pii_types'', JArr (map JStr (rr_pii_types r))),
     (''latency_ms'', json_f64 (rr_latency_ms r)), (''timestamp'', JInt (int (rr_timestamp r)))]"

definition recent_requests :: "metrics_store \<Rightarrow> json" where
  "recent_requests s = JArr (map recent_json (recent s))"

subsection \<open>Rendering\<close>

text \<open>\<open>disp\<close> and \<open>fixed3\<close> print a float with \<open>{}\<close> and \<open>{:.3}\<close>.\<close>

definition line_of :: "str \<Rightarrow> str" where
  "line_of s = s @ [CHR 0x0A]"

definition prom_head :: "str \<Rightarrow> str \<Rightarrow> str \<Rightarrow> str" where
  "prom_head name help typ = line_of (''# HELP '' @ name @ '' '' @ help) @ line_of (''# TYPE '' @ name @ '' '' @ typ)"

definition prom_cell :: "str \<Rightarrow> str \<Rightarrow> str \<times> 64 word \<Rightarrow> str" where
  "prom_cell name label = (\<lambda>(v, c). line_of (name @ ''{'' @ label @ ''='' @ quoted v @ ''} '' @ dec_digits (unat c)))"

definition prom_nonzero :: "str \<Rightarrow> str \<Rightarrow> counter_vec \<Rightarrow> str" where
  "prom_nonzero name label cv = concat (map (prom_cell name label) (filter (\<lambda>(_, c). c > 0) (cells cv)))"

definition le_label :: "(f64 \<Rightarrow> str) \<Rightarrow> f64 \<Rightarrow> str" where
  "le_label disp b = (if b = PInf \<or> b = NInf then ''+Inf'' else disp b)"

definition prom_action_hist :: "(f64 \<Rightarrow> str) \<Rightarrow> (f64 \<Rightarrow> str) \<Rightarrow> str \<Rightarrow> histogram \<Rightarrow> str" where
  "prom_action_hist disp fixed3 act h =
     concat (map (\<lambda>(b, c). line_of (''tsm_request_duration_ms_bucket{action='' @ quoted act @ '',le='' @ quoted (le_label disp b) @ ''} '' @ dec_digits (unat c))) (h_buckets h))
     @ line_of (''tsm_request_duration_ms_sum{action='' @ quoted act @ ''} '' @ fixed3 (h_sum_ms h))
     @ line_of (''tsm_request_duration_ms_count{action='' @ quoted act @ ''} '' @ dec_digits (unat (h_total h)))"

definition render :: "(f64 \<Rightarrow> str) \<Rightarrow> (f64 \<Rightarrow> str) \<Rightarrow> metrics_store \<Rightarrow> str" where
  "render disp fixed3 m =
     prom_head ''tsm_requests_total'' ''Total requests processed by the data plane'' ''counter''
     @ concat (map (prom_cell ''tsm_requests_total'' ''action'') (cells (requests_by_action m)))
     @ prom_head ''tsm_fastpath_hits_total'' ''Requests resolved by the local fast-path scanner'' ''counter''
     @ prom_nonzero ''tsm_fastpath_hits_total'' ''pii_type'' (fastpath_hits m)
     @ prom_head ''tsm_detector_calls_total'' ''Requests sent to the Python detector'' ''counter''
     @ line_of (''tsm_detector_calls_total '' @ dec_digits (unat (c_value (detector_calls m))))
     @ prom_head ''tsm_rate_limited_total'' ''Requests rejected by the rate limiter'' ''counter''
     @ line_of (''tsm_rate_limited_total '' @ dec_digits (unat (c_value (rate_limited m))))
     @ prom_head ''tsm_circuit_open_total'' ''Requests rejected because the circuit breaker is open'' ''counter''
     @ prom_nonzero ''tsm_circuit_open_total'' ''upstream'' (circuit_open m)
     @ prom_head ''tsm_pii_types_detected_total'' ''PII types detected across all requests'' ''counter''
     @ prom_nonzero ''tsm_pii_types_detected_total'' ''pii_type'' (ms_pii_types m)
     @ prom_head ''tsm_tokens_prompt_total'' ''Prompt (input) tokens by provider'' ''counter''
     @ prom_nonzero ''tsm_tokens_prompt_total'' ''provider'' (tokens_prompt m)
     @ prom_head ''tsm_tokens_completion_total'' ''Completion (output) tokens by provider'' ''counter''
     @ prom_nonzero ''tsm_tokens_completion_total'' ''provider'' (tokens_completion m)
     @ prom_head ''tsm_request_duration_ms'' ''Request end-to-end latency in milliseconds'' ''histogram''
     @ concat (map (\<lambda>(act, h). prom_action_hist disp fixed3 act h)
         [(''allow'', latency_allow m), (''block'', latency_block m), (''redact'', latency_redact m), (''route_local'', latency_route_local m)])
     @ prom_head ''tsm_detector_duration_ms'' ''Detector call latency in milliseconds'' ''histogram''
     @ concat (map (\<lambda>(b, c). line_of (''tsm_detector_duration_ms_bucket{le='' @ quoted (le_label disp b) @ ''} '' @ dec_digits (unat c))) (h_buckets (latency_detector m)))
     @ line_of (''tsm_detector_duration_ms_sum '' @ fixed3 (h_sum_ms (latency_detector m)))
     @ line_of (''tsm_detector_duration_ms_count '' @ dec_digits (unat (h_total (latency_detector m))))
     @ prom_head ''tsm_pool_connections_total'' ''TLS connections established to upstreams'' ''counter''
     @ line_of (''tsm_pool_connections_total '' @ dec_digits (unat (c_value (ms_pool_connections m))))"

definition requests_total :: "metrics_store \<Rightarrow> 64 word" where
  "requests_total m = sum_list (map snd (cells (requests_by_action m)))"

definition top_pii :: "metrics_store \<Rightarrow> (str \<times> 64 word) list" where
  "top_pii m = take 10 (sort_key (\<lambda>(_, c). - int (unat c)) (filter (\<lambda>(_, c). c > 0) (cells (ms_pii_types m))))"

definition json_u64 :: "64 word \<Rightarrow> json" where
  "json_u64 w = JInt (int (unat w))"

definition render_json :: "(json \<Rightarrow> str option) \<Rightarrow> metrics_store \<Rightarrow> str" where
  "render_json print m =
     print_or_empty print (JObj [
       (''total'', json_u64 (requests_total m)),
       (''blocked'', json_u64 (cv_get (requests_by_action m) ''block'')),
       (''redacted'', json_u64 (cv_get (requests_by_action m) ''redact'')),
       (''routed_local'', json_u64 (cv_get (requests_by_action m) ''route_local'')),
       (''clean'', json_u64 (cv_get (requests_by_action m) ''allow'')),
       (''avg_risk'', json_f64 (avg_risk_score m)),
       (''top_pii'', JArr (map (\<lambda>(t, c). JObj [(''type'', JStr t), (''count'', json_u64 c)]) (top_pii m))),
       (''recent'', recent_requests m),
       (''window_size'', JInt (int RING_CAPACITY))])"

subsection \<open>Cumulative buckets\<close>

lemma flt_mono: "a \<le> b \<Longrightarrow> flt (Fin b) v \<Longrightarrow> flt (Fin a) v"
  by (cases v) (auto simp: flt_def feq_def)

lemma bucket_of_le:
  assumes "sorted xs" and "i < length xs"
  shows "bucket_of (map Fin xs) v \<le> i \<longleftrightarrow> \<not> flt (Fin (xs ! i)) v"
proof -
  let ?n = "bucket_of (map Fin xs) v"
  have below: "flt (Fin (xs ! j)) v" if "j < ?n" for j
  proof -
    have "takeWhile (\<lambda>b. flt b v) (map Fin xs) ! j = map Fin xs ! j"
      using that unfolding bucket_of_def by (rule takeWhile_nth)
    moreover have "takeWhile (\<lambda>b. flt b v) (map Fin xs) ! j \<in> set (takeWhile (\<lambda>b. flt b v) (map Fin xs))"
      using that unfolding bucket_of_def by (rule nth_mem)
    moreover have "j < length xs" using that length_takeWhile_le [of "\<lambda>b. flt b v" "map Fin xs"] unfolding bucket_of_def by simp
    ultimately show ?thesis by (auto dest: set_takeWhileD)
  qed
  show ?thesis
  proof
    assume le: "?n \<le> i"
    then have "?n < length (map Fin xs)" using assms(2) by simp
    then have "\<not> flt (map Fin xs ! ?n) v" unfolding bucket_of_def by (rule nth_length_takeWhile)
    moreover have "xs ! ?n \<le> xs ! i" using le assms by (simp add: sorted_nth_mono)
    ultimately show "\<not> flt (Fin (xs ! i)) v" using flt_mono le assms(2) by auto
  qed (use below in \<open>meson not_le\<close>)
qed

lemma observe_simps [simp]:
  "h_bounds (observe h v) = h_bounds h" "h_total (observe h v) = h_total h + 1" "length (h_counts (observe h v)) = length (h_counts h)"
  by (simp_all add: observe_def)

lemma observe_counts:
  "i < length (h_counts h) \<Longrightarrow> h_counts (observe h v) ! i = h_counts h ! i + (if bucket_of (h_bounds h) v \<le> i then 1 else 0)"
  by (simp add: observe_def nth_enumerate_eq)

lemma observe_all:
  "h_bounds (foldl observe h vs) = h_bounds h"
  "length (h_counts (foldl observe h vs)) = length (h_counts h)"
  "h_total (foldl observe h vs) = h_total h + of_nat (length vs)"
  by (induction vs arbitrary: h) (simp_all add: algebra_simps)

lemma observe_all_counts:
  "i < length (h_counts h) \<Longrightarrow> h_counts (foldl observe h vs) ! i
     = h_counts h ! i + of_nat (length (filter (\<lambda>v. bucket_of (h_bounds h) v \<le> i) vs))"
  by (induction vs arbitrary: h) (simp_all add: observe_counts algebra_simps)

text \<open>
  C32: after any observations a histogram reports for each of its ascending bounds the
  number of observations that do not exceed it, and for infinity the number of all of
  them, modulo \<open>2\<^sup>6\<^sup>4\<close>. A value that is not a number is counted under every bound.
\<close>

theorem histogram_cumulative:
  assumes "sorted xs"
  shows "h_buckets (foldl observe (new_histogram name help (map Fin xs)) vs)
     = map (\<lambda>x. (Fin x, of_nat (length (filter (\<lambda>v. \<not> flt (Fin x) v) vs)))) xs @ [(PInf, of_nat (length vs))]"
proof -
  let ?h = "new_histogram name help (map Fin xs)"
  have "h_counts (foldl observe ?h vs) ! i = of_nat (length (filter (\<lambda>v. \<not> flt (Fin (xs ! i)) v) vs))" if "i < length xs" for i
  proof -
    have "i < length (h_counts ?h)" using that by (simp add: new_histogram_def)
    from observe_all_counts [OF this, of vs] show ?thesis using that bucket_of_le [OF assms that]
      by (simp add: new_histogram_def nth_Cons split: nat.splits)
  qed
  then have "map (\<lambda>(i, b). (b, h_counts (foldl observe ?h vs) ! i)) (enumerate 0 (map Fin xs))
     = map (\<lambda>x. (Fin x, of_nat (length (filter (\<lambda>v. \<not> flt (Fin x) v) vs)))) xs"
    by (intro nth_equalityI) (simp_all add: nth_enumerate_eq)
  then show ?thesis by (simp add: h_buckets_def observe_all) (simp add: new_histogram_def)
qed

theorem histogram_cumulative_witness:
  "h_buckets (foldl observe (new_histogram ''t'' [] (map Fin [1, 5])) [Fin 3, Fin 9, NaN])
   = [(Fin 1, 1), (Fin 5, 2), (PInf, 3)]"
  using histogram_cumulative [of "[1, 5]" "''t''" "[]" "[Fin 3, Fin 9, NaN]"]
  by (simp add: flt_def feq_def)

subsection \<open>What is counted\<close>

record completed =
  cp_action :: action
  cp_latency :: f64
  cp_risk :: f64
  cp_types :: "str list"
  cp_recent :: recent_request

text \<open>The call of \<open>record_request\<close> at the end of a request.\<close>

definition record_completed :: "metrics_store \<Rightarrow> completed \<Rightarrow> metrics_store" where
  "record_completed s c =
     record_request (final_action (cp_action c)) (cp_latency c) (cp_risk c) (cp_types c) (cp_recent c) s"

definition quarantined :: "completed \<Rightarrow> bool" where
  "quarantined c = (case cp_action c of Quarantine _ \<Rightarrow> True | _ \<Rightarrow> False)"

lemma observe_action_keeps [simp]:
  "requests_by_action (observe_action a v s) = requests_by_action s" "recent (observe_action a v s) = recent s"
  by (simp_all add: observe_action_def)

lemma record_completed_fields:
  "requests_by_action (record_completed s c) = cv_inc (requests_by_action s) (final_action (cp_action c))"
  "recent (record_completed s c) = ring_push (recent s) (cp_recent c)"
  by (simp_all add: record_completed_def record_request_def Let_def)

lemma bump_fst [simp]: "map fst (bump l n cs) = map fst cs"
  by (induction cs) auto

lemma bump_sum: "sum_list (map snd (bump l n cs)) = sum_list (map snd cs) + (if l \<in> set (map fst cs) then n else 0)"
  by (induction cs) (auto simp: algebra_simps simp del: set_map)

lemma find_bump:
  "find (\<lambda>(v, _). v = k) (bump l n cs)
     = (if k = l then map_option (\<lambda>(v, c). (v, c + n)) (find (\<lambda>(v, _). v = k) cs) else find (\<lambda>(v, _). v = k) cs)"
  by (induction cs) auto

lemma cv_get_inc:
  assumes "k \<in> set (map fst (cells cv))"
  shows "cv_get (cv_inc cv l) k = cv_get cv k + (if k = l then 1 else 0)"
proof -
  obtain c where "find (\<lambda>(v, _). v = k) (cells cv) = Some (k, c)"
    using assms by (cases "find (\<lambda>(v, _). v = k) (cells cv)") (auto simp: find_None_iff find_Some_iff)
  then show ?thesis by (cases "k = l") (simp_all add: cv_get_def cv_inc_def find_bump)
qed

lemma counted_iff: "final_action a \<in> set ACTIONS \<longleftrightarrow> \<not> (case a of Quarantine _ \<Rightarrow> True | _ \<Rightarrow> False)"
  by (cases a) (simp_all add: ACTIONS_def)

lemma record_keeps_labels:
  "map fst (cells (requests_by_action (record_completed s c))) = map fst (cells (requests_by_action s))"
  by (simp add: record_completed_fields cv_inc_def)

lemma record_all_total:
  "map fst (cells (requests_by_action s)) = ACTIONS \<Longrightarrow>
     requests_total (foldl record_completed s cs) = requests_total s + of_nat (length (filter (\<lambda>c. \<not> quarantined c) cs))"
proof (induction cs arbitrary: s)
  case (Cons c cs)
  have "requests_total (record_completed s c) = requests_total s + (if quarantined c then 0 else 1)"
    using Cons.prems counted_iff [of "cp_action c"]
    by (simp add: requests_total_def record_completed_fields cv_inc_def bump_sum quarantined_def del: set_map)
  then show ?case using Cons.IH [of "record_completed s c"] Cons.prems by (simp add: record_keeps_labels algebra_simps)
qed simp

lemma record_all_get:
  "map fst (cells (requests_by_action s)) = ACTIONS \<Longrightarrow> k \<in> set ACTIONS \<Longrightarrow>
     cv_get (requests_by_action (foldl record_completed s cs)) k
       = cv_get (requests_by_action s) k + of_nat (length (filter (\<lambda>c. final_action (cp_action c) = k) cs))"
proof (induction cs arbitrary: s)
  case (Cons c cs)
  have "cv_get (requests_by_action (record_completed s c)) k = cv_get (requests_by_action s) k + (if k = final_action (cp_action c) then 1 else 0)"
    using Cons.prems by (simp add: record_completed_fields cv_get_inc del: set_map)
  then show ?case using Cons.IH [of "record_completed s c"] Cons.prems by (auto simp: record_keeps_labels algebra_simps)
qed simp

lemma ring_push_last:
  "ring_push (drop (length xs - RING_CAPACITY) xs) r = drop (length (xs @ [r]) - RING_CAPACITY) (xs @ [r])"
proof (cases "length xs < 20")
  case False
  then have "drop (length xs - 20) xs \<noteq> []" "Suc (length xs - 20) = length xs - 19" by auto
  moreover from this have "tl (drop (length xs - 20) xs) = drop (length xs - 19) xs" by (metis drop_Suc tl_drop)
  ultimately show ?thesis using False by (simp add: ring_push_def RING_CAPACITY_def)
qed (simp add: ring_push_def RING_CAPACITY_def)

lemma record_all_recent:
  "recent s = drop (length xs - RING_CAPACITY) xs \<Longrightarrow>
     recent (foldl record_completed s cs) = drop (length (xs @ map cp_recent cs) - RING_CAPACITY) (xs @ map cp_recent cs)"
proof (induction cs arbitrary: s xs)
  case (Cons c cs)
  have "recent (record_completed s c) = drop (length (xs @ [cp_recent c]) - RING_CAPACITY) (xs @ [cp_recent c])"
    using Cons.prems by (simp only: record_completed_fields ring_push_last)
  from Cons.IH [OF this] show ?case by simp
qed simp

text \<open>
  What the registry reports after any number of completed requests: per action the
  number of requests with it, in the ring the last twenty requests, but as the total
  only the number of requests that were not quarantined, since that action has no cell;
  a held request appears in no counter and no latency histogram.
\<close>

lemma registry_omits_quarantined:
  assumes "k \<in> set ACTIONS"
  shows "requests_total (foldl record_completed new_store cs) = of_nat (length (filter (\<lambda>c. \<not> quarantined c) cs))
    \<and> cv_get (requests_by_action (foldl record_completed new_store cs)) k
        = of_nat (length (filter (\<lambda>c. final_action (cp_action c) = k) cs))
    \<and> cv_get (requests_by_action (foldl record_completed new_store cs)) ''quarantine'' = 0
    \<and> recent (foldl record_completed new_store cs) = drop (length cs - RING_CAPACITY) (map cp_recent cs)"
proof -
  let ?s = "foldl record_completed new_store cs"
  have labels: "map fst (cells (requests_by_action new_store)) = ACTIONS"
    by (simp add: new_store_def new_counter_vec_def ACTIONS_def)
  have zero: "requests_total new_store = 0" "cv_get (requests_by_action new_store) k = 0"
    using assms by (auto simp: requests_total_def new_store_def new_counter_vec_def ACTIONS_def cv_get_def)
  have "map fst (cells (requests_by_action (foldl record_completed s cs))) = map fst (cells (requests_by_action s))" for s
    by (induction cs arbitrary: s) (simp_all add: record_keeps_labels)
  then have "''quarantine'' \<notin> set (map fst (cells (requests_by_action ?s)))" by (simp add: labels ACTIONS_def del: set_map)
  then have "find (\<lambda>(v, _). v = ''quarantine'') (cells (requests_by_action ?s)) = None" by (force simp: find_None_iff)
  moreover have "recent new_store = drop (length [] - RING_CAPACITY) []" by (simp add: new_store_def)
  ultimately show ?thesis
    using record_all_total [OF labels, of cs] record_all_get [OF labels assms, of cs] zero record_all_recent [of new_store "[]" cs]
    by (simp add: cv_get_def [of "requests_by_action ?s" "''quarantine''"])
qed

definition demo_completed :: "action \<Rightarrow> completed" where
  "demo_completed a = \<lparr>cp_action = a, cp_latency = Fin 1, cp_risk = Fin 0, cp_types = [],
     cp_recent = \<lparr>rr_request_id = ''r'', rr_org_id = [], rr_model = [], rr_action = final_action a, rr_risk_score = Fin 0,
       rr_pii_types = [], rr_latency_ms = Fin 1, rr_timestamp = 0\<rparr>\<rparr>"

subsection \<open>Usage is never dropped\<close>

lemma usage_label_known: "usage_label p \<in> set PROVIDERS"
  by (simp add: usage_label_def PROVIDERS_def)

end
