(* ===== verification/Handle.thy ===== *)
theory Handle
  imports Govern Onnx Overlay Metrics Merkle AuditLog Limiter Detector
begin

text \<open>
  One call of \<open>handle_connection\<close> (\<open>pipeline.rs\<close>) from the bytes of the client to the
  answer: reading, parsing, rate limiting, the built-in endpoints and the overlay
  gateway, the detection, the decision, both audit records, the metrics and the last stage.
  The event sinks for PostgreSQL and ClickHouse, the TLS fingerprint that only they
  receive, and the log lines are left out. Everything the call reads from outside, clocks
  included, is one record.
\<close>

subsection \<open>State and environment\<close>

record 'd node =
  n_limiter :: rate_limiter
  n_gov :: "'d gov"
  n_chain :: merkle_chain
  n_audit :: audit_log
  n_metrics :: metrics_store
  n_world :: world

record 'd henv =
  v_io :: io
  v_detect :: detect_env
  v_onnx :: "onnx_engine option"
  v_run :: "(str \<Rightarrow> int list \<Rightarrow> int list \<Rightarrow> onnx_verdict option) option"
  v_exchange :: "str \<Rightarrow> str \<Rightarrow> str option"
  v_to_string :: "json \<Rightarrow> str"
  v_detector_url :: str
  v_dpin :: "'d \<Rightarrow> str \<Rightarrow> bool \<Rightarrow> 'd \<times> route_pin"
  v_registry :: resolver
  v_sig :: sig_check
  v_net :: "str \<Rightarrow> str \<Rightarrow> str + str"
  v_mac :: "str \<Rightarrow> str \<Rightarrow> bytes"
  v_entry_json :: "audit_entry \<Rightarrow> str"
  v_audit_io :: io_outcome
  v_dbg :: "str \<Rightarrow> str"
  v_disp :: "f64 \<Rightarrow> str"
  v_fixed3 :: "f64 \<Rightarrow> str"
  v_org_header :: str
  v_peer :: "str option"
  v_parse_ip :: "str \<Rightarrow> ip_addr option"
  v_serde_err :: str
  v_nanos :: nat
  v_tid :: nat
  v_random_id :: str
  v_now :: instant
  v_later :: instant
  v_merkle_ts :: "64 word"
  v_unix :: nat
  v_latency :: f64
  v_det_latency :: f64
  v_writes :: nat
  v_fuel :: nat

text \<open>
  What a call leaves behind: the state, the bytes written to the client, the returned
  flag, and whether the client's descriptor was closed, which happens when the stream
  goes out of scope without being forgotten.
\<close>

record 'd outcome =
  o_node :: "'d node"
  o_out :: str
  o_keep :: bool
  o_closed :: bool

datatype 'd handled = Done "'d outcome" | Panics | Loops

subsection \<open>Identifiers\<close>

fun hex_nat :: "nat \<Rightarrow> str" where
  "hex_nat n = (if n < 16 then [hex_digit n] else hex_nat (n div 16) @ [hex_digit (n mod 16)])"

declare hex_nat.simps [simp del]

definition generate_request_id :: "nat \<Rightarrow> nat \<Rightarrow> str" where
  "generate_request_id nanos tid = ''tsm-'' @ hex_nat (nanos mod 2 ^ 48) @ ''-'' @ dec_digits tid"

text \<open>The slice \<open>request_id[..16]\<close> panics when the identifier is shorter.\<close>

definition traceparent_of :: "(str \<times> str) list \<Rightarrow> str \<Rightarrow> str option" where
  "traceparent_of trace_hdrs request_id =
     (case map_of trace_hdrs ''traceparent'' of
        Some t \<Rightarrow> Some t
      | None \<Rightarrow> if length request_id < 16 then None
                else Some (''00-'' @ request_id @ ''-'' @ take 16 request_id @ ''-01''))"

definition client_ip :: "'d henv \<Rightarrow> str" where
  "client_ip v = (case v_peer v of Some a \<Rightarrow> a | None \<Rightarrow> ''unknown'')"

definition org_of :: "'d henv \<Rightarrow> h1_request \<Rightarrow> str" where
  "org_of v req = (case find_header (req_headers req) (v_org_header v) of Some h \<Rightarrow> value_str h | None \<Rightarrow> [])"

subsection \<open>Endpoints of the node\<close>

definition health_body :: "conn_pool \<Rightarrow> str" where
  "health_body p =
     ''{'' @ quoted ''status'' @ '':'' @ quoted ''ok'' @ '','' @ quoted ''circuits'' @ '':{'' @ quoted ''openai'' @ '':''
     @ quoted (circuit_state p ''openai'') @ '','' @ quoted ''anthropic'' @ '':'' @ quoted (circuit_state p ''anthropic'') @ ''}}''"

definition show_bool :: "bool \<Rightarrow> str" where
  "show_bool b = (if b then ''true'' else ''false'')"

definition debug_list :: "(str \<Rightarrow> str) \<Rightarrow> str list \<Rightarrow> str" where
  "debug_list dbg xs = ''['' @ join_with '', '' (map (debug_str dbg) xs) @ '']''"

definition resolve_response :: "'d henv \<Rightarrow> str \<Rightarrow> str" where
  "resolve_response v name =
     (case resolve_name (v_registry v) name of
        Some r \<Rightarrow> build_response 200 ''OK'' ''application/json''
          (''{'' @ quoted ''resolved'' @ '':true,'' @ quoted ''name'' @ '':'' @ debug_str (v_dbg v) (nr_name r) @ '','' @ quoted ''pubkey'' @ '':''
           @ debug_str (v_dbg v) (pubkey_hex r) @ '','' @ quoted ''endpoint'' @ '':'' @ debug_str (v_dbg v) (nr_endpoint r) @ '',''
           @ quoted ''sequence'' @ '':'' @ dec_digits (unat (nr_sequence r)) @ '','' @ quoted ''self_certifying'' @ '':''
           @ show_bool (is_self_certifying r) @ '','' @ quoted ''verified'' @ '':'' @ show_bool (verify_record (v_sig v) r) @ ''}'')
      | None \<Rightarrow> build_response 404 ''Not Found'' ''application/json''
          (''{'' @ quoted ''resolved'' @ '':false,'' @ quoted ''name'' @ '':'' @ debug_str (v_dbg v) name @ '','' @ quoted ''error'' @ '':''
           @ quoted ''name not registered in the TSM overlay'' @ ''}''))"

text \<open>The error answers of the gateway: a message, the name, and possibly one more member.\<close>

definition gateway_error :: "'d henv \<Rightarrow> nat \<Rightarrow> str \<Rightarrow> str \<Rightarrow> str \<Rightarrow> str \<Rightarrow> str" where
  "gateway_error v status reason msg name tail =
     build_response status reason ''application/json''
       (''{'' @ quoted ''error'' @ '':'' @ quoted msg @ '','' @ quoted ''name'' @ '':'' @ debug_str (v_dbg v) name @ tail @ ''}'')"

text \<open>The content behind a name is scanned before it is served; \<open>None\<close> is a panic of the scan.\<close>

definition govern_content :: "'d henv \<Rightarrow> str \<Rightarrow> nat \<Rightarrow> str \<Rightarrow> str option" where
  "govern_content v name status body =
     map_option (\<lambda>verdict. case verdict of
         VBlock types _ _ _ \<Rightarrow> gateway_error v 403 ''Forbidden'' ''overlay content blocked by TSM firewall'' name
           ('','' @ quoted ''detected'' @ '':'' @ debug_list (v_dbg v) types)
       | VRedact _ _ redacted \<Rightarrow> build_response 200 ''OK'' ''text/html; charset=utf-8'' redacted
       | _ \<Rightarrow> build_response (if status = 0 then 200 else status) ''OK'' ''text/html; charset=utf-8'' body)
       (scan (v_detect v) (from_utf8_lossy body))"

definition gateway_response :: "'d henv \<Rightarrow> str \<Rightarrow> str option" where
  "gateway_response v name =
     (case resolve_name (v_registry v) name of
        None \<Rightarrow> Some (gateway_error v 404 ''Not Found'' ''name not registered in the TSM overlay'' name [])
      | Some r \<Rightarrow>
          if \<not> verify_record (v_sig v) r
          then Some (gateway_error v 403 ''Forbidden'' ''overlay record failed signature verification'' name [])
          else case fetch (v_net v) (nr_endpoint r) of
                 Inl e \<Rightarrow> Some (gateway_error v 502 ''Bad Gateway'' ''overlay endpoint unreachable'' name
                   ('','' @ quoted ''detail'' @ '':'' @ debug_str (v_dbg v) e))
               | Inr (status, body) \<Rightarrow> govern_content v name status body)"

text \<open>The answer of an endpoint, \<open>None\<close> for every other path; inside, \<open>None\<close> is a panic.\<close>

definition endpoint_response :: "'d henv \<Rightarrow> 'd node \<Rightarrow> h1_request \<Rightarrow> str option option" where
  "endpoint_response v n req =
     (let path = (case from_utf8 (req_path req) of Some p \<Rightarrow> p | None \<Rightarrow> [])
      in if path = ''/metrics''
         then Some (Some (build_response 200 ''OK'' ''text/plain; version=0.0.4'' (render (v_disp v) (v_fixed3 v) (n_metrics n))))
         else if path = ''/health'' \<or> path = ''/healthz''
         then Some (Some (build_response 200 ''OK'' ''application/json'' (health_body (w_pool (n_world n)))))
         else if starts_with path ''/api/metrics''
         then Some (Some (build_response 200 ''OK'' ''application/json'' (render_json (io_print (v_io v)) (n_metrics n))))
         else case strip_prefix ''/_tsm/resolve/'' path of
             Some name \<Rightarrow> Some (Some (resolve_response v name))
           | None \<Rightarrow>
             (case strip_prefix ''/_tsm/'' path of
                Some name \<Rightarrow> Some (gateway_response v name)
              | None \<Rightarrow> None))"

subsection \<open>Detection\<close>

definition classify_request ::
  "'d henv \<Rightarrow> (str \<times> str) list \<Rightarrow> str \<Rightarrow> str \<Rightarrow> str \<Rightarrow> (detect_verdict \<times> bool) option" where
  "classify_request v trace_hdrs txt m org =
     Option.bind (scan (v_detect v) txt) (\<lambda>fast.
       case fast of
         Ambiguous _ _ \<Rightarrow>
           map_option (\<lambda>ov.
             (triage (\<lambda>_. ov) (\<lambda>t. call_detector_http (v_exchange v) (io_parse (v_io v)) (v_to_string v) (v_detector_url v) t m org trace_hdrs) txt fast,
              \<not> is_actionable ov \<and> needs_escalation ov))
             (classify_global (io_unicode (v_io v)) (v_run v) (v_onnx v) txt)
       | _ \<Rightarrow> Some (fast, False))"

subsection \<open>A request for a model\<close>

definition session_of :: "'d henv \<Rightarrow> h1_request \<Rightarrow> str" where
  "session_of v req =
     extract_session_id (io_unicode (v_io v)) (v_random_id v) (req_headers req) (req_body req)
       (case find_header (req_headers req) ''authorization'' of Some h \<Rightarrow> value_str h | None \<Rightarrow> []) (req_path req)"

definition audit_args :: "'d henv \<Rightarrow> str \<Rightarrow> str \<Rightarrow> str \<Rightarrow> decision \<Rightarrow> append_args" where
  "audit_args v request_id org m d =
     \<lparr>a_now = v_unix v, a_request_id = request_id, a_org_id = org, a_model = m,
      a_action = final_action (result_action (d_result d)), a_pii_types = d_types d, a_risk_score = d_risk d,
      a_latency_ms = v_latency v, a_client_ip = client_ip v\<rparr>"

definition completed_of :: "'d henv \<Rightarrow> str \<Rightarrow> str \<Rightarrow> str \<Rightarrow> decision \<Rightarrow> completed" where
  "completed_of v request_id org m d =
     \<lparr>cp_action = result_action (d_result d), cp_latency = v_latency v, cp_risk = d_risk d, cp_types = d_types d,
      cp_recent = \<lparr>rr_request_id = request_id, rr_org_id = org, rr_model = m,
        rr_action = final_action (result_action (d_result d)), rr_risk_score = d_risk d, rr_pii_types = d_types d,
        rr_latency_ms = v_latency v, rr_timestamp = v_unix v\<rparr>\<rparr>"

definition record_relay_usage :: "relay \<Rightarrow> metrics_store \<Rightarrow> metrics_store" where
  "record_relay_usage r s = (case r_usage r of Some (p, i, c) \<Rightarrow> record_usage p (word_of_nat i) (word_of_nat c) s | None \<Rightarrow> s)"

text \<open>Block and quarantine forget the stream, the forwarding functions own and drop it.\<close>

definition forgets :: "str \<Rightarrow> decision \<Rightarrow> bool" where
  "forgets txt d = (case disposition_of txt d of Refuse _ \<Rightarrow> True | Hold _ \<Rightarrow> True | _ \<Rightarrow> False)"

definition handle_ai :: "'d henv \<Rightarrow> 'd node \<Rightarrow> h1_request \<Rightarrow> ai_request \<Rightarrow> 'd handled" where
  "handle_ai v n req ai =
     (let request_id = generate_request_id (v_nanos v) (v_tid v);
          trace_hdrs = extract_trace (req_headers req);
          org = org_of v req; m = req_model ai; txt = user_text ai; sid = session_of v req
      in case traceparent_of trace_hdrs request_id of None \<Rightarrow> Panics | Some _ \<Rightarrow>
         case classify_request v trace_hdrs txt m org of None \<Rightarrow> Panics | Some (verdict, asked) \<Rightarrow>
         case decide_request (io_unicode (v_io v)) (v_dpin v) (v_now v) (n_gov n) verdict txt m org sid of None \<Rightarrow> Panics | Some (gov', d) \<Rightarrow>
         case chain_push (n_chain n) (v_merkle_ts v) sid (final_action (result_action (d_result d))) of None \<Rightarrow> Panics | Some (chain', _) \<Rightarrow>
         (let m0 = (if asked then record_detector_call (v_det_latency v) (n_metrics n) else n_metrics n);
              m1 = foldl (\<lambda>s t. record_fastpath_hit t s) m0 (d_types d);
              (_, audit') = append_log (v_mac v) (v_entry_json v) (v_audit_io v) (audit_args v request_id org m d) (n_audit n);
              m2 = record_completed m1 (completed_of v request_id org m d)
          in case perform (v_io v) (v_dbg v) (v_now v) (v_later v) (n_world n) (v_writes v) ai (req_body req)
                    (keep_alive (io_unicode (v_io v)) req) trace_hdrs request_id d of
               None \<Rightarrow> Panics
             | Some (world', relay) \<Rightarrow>
                 Done \<lparr>o_node = n\<lparr>n_gov := gov', n_chain := chain', n_audit := audit', n_metrics := record_relay_usage relay m2, n_world := world'\<rparr>,
                       o_out = r_out relay, o_keep = r_keep relay, o_closed = \<not> forgets txt d\<rparr>))"

subsection \<open>The whole call\<close>

definition early :: "'d henv \<Rightarrow> 'd node \<Rightarrow> str list \<Rightarrow> bool \<Rightarrow> bool \<Rightarrow> 'd handled" where
  "early v n resps keep shut = Done \<lparr>o_node = n, o_out = fst (snd (client_write (v_writes v) resps)), o_keep = keep, o_closed = shut\<rparr>"

definition handle_request :: "'d henv \<Rightarrow> 'd node \<Rightarrow> h1_request \<Rightarrow> 'd handled" where
  "handle_request v n req =
     (let ip = (case v_parse_ip v (client_ip v) of Some a \<Rightarrow> a | None \<Rightarrow> [0, 0, 0, 0]);
          (lim', allowed) = limiter_check (n_limiter n) (v_now v) ip;
          n' = n\<lparr>n_limiter := lim'\<rparr>;
          keep = keep_alive (io_unicode (v_io v)) req
      in if \<not> allowed
         then early v (n'\<lparr>n_metrics := record_rate_limited (n_metrics n')\<rparr>)
                [build_response 429 ''Too Many Requests'' ''application/json''
                   (''{'' @ quoted ''error'' @ '':'' @ quoted ''rate limit exceeded'' @ '','' @ quoted ''retry_after'' @ '':60}'')] False False
         else case endpoint_response v n' req of
             Some None \<Rightarrow> Panics
           | Some (Some resp) \<Rightarrow> early v n' [resp] keep True
           | None \<Rightarrow>
             (case from_path_and_body (io_parse (v_io v)) (req_path req) (req_body req) of
                None \<Rightarrow> early v n' [build_response 400 ''Bad Request'' ''application/json''
                  (error_json (map (\<lambda>c. if c = CHR 0x22 then CHR 0x27 else c) (v_serde_err v)))] keep True
              | Some ai \<Rightarrow> handle_ai v n' req ai))"

definition handle_connection :: "'d henv \<Rightarrow> 'd node \<Rightarrow> str list \<Rightarrow> 'd handled" where
  "handle_connection v n ss =
     (case fst (read_full_request (io_unicode (v_io v)) ss) of
        ReadClosed \<Rightarrow> early v n [] False True
      | HeadersTooLarge \<Rightarrow> early v n [build_response 431 ''Request Header Fields Too Large'' ''text/plain'' ''headers exceed 16 KB limit''] False True
      | BodyTooLarge \<Rightarrow> early v n [build_response 413 ''Content Too Large'' ''application/json''
          (error_json ''request body exceeds 4 MB limit'')] False True
      | ReadOk buf \<Rightarrow>
          (case parse_request (v_fuel v) (io_unicode (v_io v)) buf of
             Complete req _ \<Rightarrow> handle_request v n req
           | NeedMore \<Rightarrow> early v n [build_response 400 ''Bad Request'' ''text/plain'' ''incomplete request''] False True
           | ParseError e \<Rightarrow> early v n [build_response 400 ''Bad Request'' ''text/plain'' (''parse error: '' @ e)] False True
           | Diverges \<Rightarrow> Loops
           | Aborts \<Rightarrow> Panics))"

subsection \<open>The two kinds of calls\<close>

text \<open>A call that answers by itself: nothing is decided, recorded or sent upstream.\<close>

definition quiet :: "'d node \<Rightarrow> 'd outcome \<Rightarrow> bool" where
  "quiet n r = (n_world (o_node r) = n_world n \<and> n_gov (o_node r) = n_gov n \<and> n_chain (o_node r) = n_chain n
     \<and> n_audit (o_node r) = n_audit n \<and> (o_keep r \<longrightarrow> o_closed r))"

lemma early_Done: "early v n resps keep shut = Done r \<Longrightarrow> r = \<lparr>o_node = n, o_out = fst (snd (client_write (v_writes v) resps)), o_keep = keep, o_closed = shut\<rparr>"
  by (simp add: early_def)

lemma handle_request_Done:
  assumes "handle_request v n req = Done r"
  shows "quiet n r \<or> (\<exists>lim ai. from_path_and_body (io_parse (v_io v)) (req_path req) (req_body req) = Some ai
     \<and> handle_ai v (n\<lparr>n_limiter := lim\<rparr>) req ai = Done r)"
proof -
  obtain lim allowed where l: "limiter_check (n_limiter n) (v_now v) (case v_parse_ip v (client_ip v) of Some a \<Rightarrow> a | None \<Rightarrow> [0, 0, 0, 0]) = (lim, allowed)"
    by (cases "limiter_check (n_limiter n) (v_now v) (case v_parse_ip v (client_ip v) of Some a \<Rightarrow> a | None \<Rightarrow> [0, 0, 0, 0])")
  show ?thesis
  proof (cases allowed)
    case False
    then show ?thesis using assms l by (auto simp: handle_request_def quiet_def dest!: early_Done)
  next
    case True
    show ?thesis
    proof (cases "endpoint_response v (n\<lparr>n_limiter := lim\<rparr>) req")
      case None
      then show ?thesis using assms l True
        by (cases "from_path_and_body (io_parse (v_io v)) (req_path req) (req_body req)")
           (auto simp: handle_request_def quiet_def dest!: early_Done)
    next
      case (Some x)
      then show ?thesis using assms l True
        by (cases x) (auto simp: handle_request_def quiet_def dest!: early_Done)
    qed
  qed
qed

lemma handle_connection_Done:
  assumes "handle_connection v n ss = Done r"
  shows "quiet n r \<or> (\<exists>buf req k lim ai. fst (read_full_request (io_unicode (v_io v)) ss) = ReadOk buf
     \<and> parse_request (v_fuel v) (io_unicode (v_io v)) buf = Complete req k
     \<and> from_path_and_body (io_parse (v_io v)) (req_path req) (req_body req) = Some ai
     \<and> handle_ai v (n\<lparr>n_limiter := lim\<rparr>) req ai = Done r)"
proof (cases "fst (read_full_request (io_unicode (v_io v)) ss)")
  case (ReadOk buf)
  show ?thesis
  proof (cases "parse_request (v_fuel v) (io_unicode (v_io v)) buf")
    case (Complete req k)
    then have "handle_request v n req = Done r" using assms ReadOk by (simp add: handle_connection_def)
    from handle_request_Done [OF this] show ?thesis using ReadOk Complete by blast
  qed (use assms ReadOk in \<open>auto simp: handle_connection_def quiet_def dest!: early_Done\<close>)
qed (use assms in \<open>auto simp: handle_connection_def quiet_def dest!: early_Done\<close>)

text \<open>The stages of a call that decides on a request.\<close>

lemma handle_ai_Done:
  assumes "handle_ai v n req ai = Done r"
  obtains verdict asked d i relay trace_hdrs rid where
    "trace_hdrs = extract_trace (req_headers req)" and "rid = generate_request_id (v_nanos v) (v_tid v)"
    and "classify_request v trace_hdrs (user_text ai) (req_model ai) (org_of v req) = Some (verdict, asked)"
    and "decide_request (io_unicode (v_io v)) (v_dpin v) (v_now v) (n_gov n) verdict (user_text ai) (req_model ai) (org_of v req) (session_of v req)
       = Some (n_gov (o_node r), d)"
    and "chain_push (n_chain n) (v_merkle_ts v) (session_of v req) (final_action (result_action (d_result d))) = Some (n_chain (o_node r), i)"
    and "n_audit (o_node r) = snd (append_log (v_mac v) (v_entry_json v) (v_audit_io v) (audit_args v rid (org_of v req) (req_model ai) d) (n_audit n))"
    and "perform (v_io v) (v_dbg v) (v_now v) (v_later v) (n_world n) (v_writes v) ai (req_body req)
       (keep_alive (io_unicode (v_io v)) req) trace_hdrs rid d = Some (n_world (o_node r), relay)"
    and "o_out r = r_out relay" and "o_keep r = r_keep relay" and "o_closed r \<longleftrightarrow> \<not> forgets (user_text ai) d"
proof -
  note a = assms [unfolded handle_ai_def Let_def]
  obtain verdict asked where c: "classify_request v (extract_trace (req_headers req)) (user_text ai) (req_model ai) (org_of v req) = Some (verdict, asked)"
    using a by (cases "classify_request v (extract_trace (req_headers req)) (user_text ai) (req_model ai) (org_of v req)") (auto split: option.splits)
  obtain g d where d: "decide_request (io_unicode (v_io v)) (v_dpin v) (v_now v) (n_gov n) verdict (user_text ai) (req_model ai) (org_of v req) (session_of v req) = Some (g, d)"
    using a c by (cases "decide_request (io_unicode (v_io v)) (v_dpin v) (v_now v) (n_gov n) verdict (user_text ai) (req_model ai) (org_of v req) (session_of v req)") (auto split: option.splits)
  obtain ch i where p: "chain_push (n_chain n) (v_merkle_ts v) (session_of v req) (final_action (result_action (d_result d))) = Some (ch, i)"
    using a c d by (cases "chain_push (n_chain n) (v_merkle_ts v) (session_of v req) (final_action (result_action (d_result d)))") (auto split: option.splits)
  obtain e l where l: "append_log (v_mac v) (v_entry_json v) (v_audit_io v) (audit_args v (generate_request_id (v_nanos v) (v_tid v)) (org_of v req) (req_model ai) d) (n_audit n) = (e, l)"
    by (cases "append_log (v_mac v) (v_entry_json v) (v_audit_io v) (audit_args v (generate_request_id (v_nanos v) (v_tid v)) (org_of v req) (req_model ai) d) (n_audit n)")
  obtain w relay where w: "perform (v_io v) (v_dbg v) (v_now v) (v_later v) (n_world n) (v_writes v) ai (req_body req)
       (keep_alive (io_unicode (v_io v)) req) (extract_trace (req_headers req)) (generate_request_id (v_nanos v) (v_tid v)) d = Some (w, relay)"
    using a c d p l by (cases "perform (v_io v) (v_dbg v) (v_now v) (v_later v) (n_world n) (v_writes v) ai (req_body req)
       (keep_alive (io_unicode (v_io v)) req) (extract_trace (req_headers req)) (generate_request_id (v_nanos v) (v_tid v)) d") (auto split: option.splits)
  show thesis
    by (rule that [OF refl refl c, of d i relay]) (use a c d p l w in \<open>auto split: option.splits\<close>)
qed

subsection \<open>Every contact with an upstream is recorded\<close>

lemma forgets_iff: "forgets txt d \<longleftrightarrow> final_action (result_action (d_result d)) \<in> {''block'', ''quarantine''}"
  by (cases "result_action (d_result d)") (auto simp: forgets_def disposition_of_def split: option.splits)

lemma final_action_range: "final_action a \<in> {''allow'', ''block'', ''redact'', ''route_local'', ''quarantine''}"
  by (cases a) simp_all

lemma perform_forgets:
  assumes "perform e dbg now now' w k ai body keep trace_hdrs rid d = Some (w', relay)" and "forgets (user_text ai) d"
  shows "w' = w \<and> r_keep relay = keep"
  using assms by (auto simp: perform_def forgets_def Let_def split: disposition.splits)

lemma handle_ai_recorded:
  assumes "handle_ai v n req ai = Done r"
  shows "\<exists>d i rid. chain_push (n_chain n) (v_merkle_ts v) (session_of v req) (final_action (result_action (d_result d))) = Some (n_chain (o_node r), i)
    \<and> n_audit (o_node r) = snd (append_log (v_mac v) (v_entry_json v) (v_audit_io v) (audit_args v rid (org_of v req) (req_model ai) d) (n_audit n))
    \<and> (forgets (user_text ai) d \<longrightarrow> n_world (o_node r) = n_world n) \<and> (o_closed r \<longleftrightarrow> \<not> forgets (user_text ai) d)"
  using assms by (rule handle_ai_Done) (use perform_forgets in blast)


subsection \<open>The audit log is not waited for\<close>

definition set_audit :: "audit_log \<Rightarrow> 'd handled \<Rightarrow> 'd handled" where
  "set_audit l h = (case h of Done r \<Rightarrow> Done (r\<lparr>o_node := (o_node r)\<lparr>n_audit := l\<rparr>\<rparr>) | _ \<Rightarrow> h)"

lemma env_audit_io [simp]:
  "client_ip (v\<lparr>v_audit_io := f\<rparr>) = client_ip v" "org_of (v\<lparr>v_audit_io := f\<rparr>) = org_of v"
  "resolve_response (v\<lparr>v_audit_io := f\<rparr>) = resolve_response v" "gateway_error (v\<lparr>v_audit_io := f\<rparr>) = gateway_error v"
  "session_of (v\<lparr>v_audit_io := f\<rparr>) = session_of v" "completed_of (v\<lparr>v_audit_io := f\<rparr>) = completed_of v"
  "early (v\<lparr>v_audit_io := f\<rparr>) = early v" "classify_request (v\<lparr>v_audit_io := f\<rparr>) = classify_request v"
  by (simp_all add: fun_eq_iff client_ip_def org_of_def resolve_response_def gateway_error_def session_of_def completed_of_def
      early_def classify_request_def split: option.split cong: detect_verdict.case_cong)

lemma endpoint_audit_io [simp]:
  "audit_args (v\<lparr>v_audit_io := f\<rparr>) = audit_args v" "govern_content (v\<lparr>v_audit_io := f\<rparr>) = govern_content v"
  "gateway_response (v\<lparr>v_audit_io := f\<rparr>) = gateway_response v" "endpoint_response (v\<lparr>v_audit_io := f\<rparr>) = endpoint_response v"
proof -
  show g: "govern_content (v\<lparr>v_audit_io := f\<rparr>) = govern_content v" by (auto simp: fun_eq_iff govern_content_def intro!: map_option_cong split: detect_verdict.split)
  show h: "gateway_response (v\<lparr>v_audit_io := f\<rparr>) = gateway_response v" by (auto simp: fun_eq_iff gateway_response_def g split: option.split sum.split)
  show "endpoint_response (v\<lparr>v_audit_io := f\<rparr>) = endpoint_response v" by (auto simp: fun_eq_iff endpoint_response_def h Let_def split: option.split)
  show "audit_args (v\<lparr>v_audit_io := f\<rparr>) = audit_args v" by (simp add: fun_eq_iff audit_args_def)
qed

lemma set_audit_Done: "set_audit l (Done r) = Done (r\<lparr>o_node := (o_node r)\<lparr>n_audit := l\<rparr>\<rparr>)"
  and set_audit_simps [simp]: "set_audit l Panics = Panics" "set_audit l Loops = Loops"
  by (simp_all add: set_audit_def)

lemma set_audit_case:
  "set_audit l (case x of None \<Rightarrow> Panics | Some y \<Rightarrow> F y) = (case x of None \<Rightarrow> Panics | Some y \<Rightarrow> set_audit l (F y))"
  "set_audit l (case z of (a, b) \<Rightarrow> G a b) = (case z of (a, b) \<Rightarrow> set_audit l (G a b))"
  by (simp_all split: option.split prod.split)

lemma handle_ai_audit_io: "set_audit l (handle_ai (v\<lparr>v_audit_io := f\<rparr>) n req ai) = set_audit l (handle_ai v n req ai)"
  by (simp add: handle_ai_def Let_def set_audit_case set_audit_Done prod.case_eq_if cong: option.case_cong if_cong)

text \<open>
  The fate of the write to the audit log has no influence on anything else: whether
  the append succeeds or fails, the same bytes go to the client and to the upstreams and the
  same state is kept, so requests are forwarded also while no audit entry can be written.
\<close>

lemma audit_failure_ignored:
  "set_audit l (handle_connection (v\<lparr>v_audit_io := f\<rparr>) n ss) = set_audit l (handle_connection v n ss)"
proof -
  have "set_audit l (handle_request (v\<lparr>v_audit_io := f\<rparr>) n req) = set_audit l (handle_request v n req)" for req
    by (simp add: handle_request_def handle_ai_audit_io Let_def split: option.split prod.split)
  then show ?thesis
    by (simp add: handle_connection_def split: read_result.split parse_result.split)
qed

subsection \<open>A small request\<close>

definition small_request :: "str \<Rightarrow> str" where
  "small_request pt = message_head (''POST '' @ pt @ '' HTTP/1.1'') [(''Content-Length'', ''2'')] @ ''hi''"

lemma small_length: "header_usize [(''Content-Length'', ''2'')] = Some (length ''hi'')"
proof -
  have "dec_digits 2 = ''2''" by (simp add: dec_digits.simps [of 2] char_of_def bit_iff_odd)
  then have d: "dec_digits (Suc (Suc 0)) = ''2''" by (simp only: numeral_2_eq_2)
  show ?thesis using built_headers_length [of "''hi''" "''x''"]
    by (simp add: built_headers_def header_usize_def find_header_def name_eq_simps d)
qed

lemma small_request_read:
  assumes "CHR '' '' \<notin> set pt" and "CR \<notin> set pt" and "is_ascii pt" and "length pt < 1000"
  shows "fst (read_full_request u [small_request pt]) = ReadOk (small_request pt)"
    and "\<exists>k. parse_request fuel u (small_request pt) =
      Complete \<lparr>req_method = ''POST'', req_path = pt, version_minor = 1, req_headers = [(''Content-Length'', ''2'')], req_body = ''hi''\<rparr> k"
proof -
  let ?line = "''POST '' @ pt @ '' HTTP/1.1''" and ?hs = "[(''Content-Length'', ''2'')] :: h1_header list"
  let ?H = "message_head ?line ?hs"
  have line: "line_ok ?line" "is_ascii ?line" using assms(2,3) by (simp_all add: line_ok_def)
  have nocl: "\<not> cl_line u ?line" using method_line_not_cl [of "''POST''" "pt @ '' HTTP/1.1''" u] line(2) by simp
  have hs: "list_all header_ok ?hs" "list_all (\<lambda>h. is_ascii (header_line h)) ?hs" "?hs \<noteq> []" "\<not> chunked_header u ?hs"
    by (simp_all add: header_line_def header_ok_def ascii_space_def chunked_header_def name_eq_simps)
  have len: "4 \<le> length ?H" "length ?H < 2000" using assms(4) by (simp_all add: message_head_def header_line_def header_lines_def crlf_def)
  show "fst (read_full_request u [small_request pt]) = ReadOk (small_request pt)"
    using read_full_request_segments [of "[small_request pt]" ?H "''hi''" u] head_layout(1) [OF line(1) hs(1,3), of "''hi''"]
      content_length_head [OF hs(1,2) line nocl] len small_length
    by (simp add: small_request_def MAX_HEADER_BYTES_def MAX_BODY_BYTES_def)
  show "\<exists>k. parse_request fuel u (small_request pt) =
      Complete \<lparr>req_method = ''POST'', req_path = pt, version_minor = 1, req_headers = ?hs, req_body = ''hi''\<rparr> k"
    using parse_request_sized [of "''POST''" pt ?hs u "''hi''" "[]" fuel] assms hs small_length len
    by (simp add: small_request_def)
qed

definition demo_env :: "json \<Rightarrow> memory_store henv" where
  "demo_env j = \<lparr>v_io = (local_io (\<lambda>_. []))\<lparr>io_parse := (\<lambda>_. Some j)\<rparr>,
     v_detect = \<lparr>de_unicode = plain_unicode, de_digest = (\<lambda>_. []), de_numeric = (\<lambda>_. False), de_matches = (\<lambda>_. []), de_find = (\<lambda>_ _. [])\<rparr>,
     v_onnx = None, v_run = None, v_exchange = (\<lambda>_ _. None), v_to_string = (\<lambda>_. []), v_detector_url = [], v_dpin = memory_pin 0,
     v_registry = Map.empty, v_sig = (\<lambda>_ _ _. False), v_net = (\<lambda>_ _. Inl []), v_mac = (\<lambda>_ _. []), v_entry_json = (\<lambda>_. []),
     v_audit_io = IoOk, v_dbg = quoted, v_disp = (\<lambda>_. []), v_fixed3 = (\<lambda>_. []), v_org_header = ''x-org'', v_peer = None,
     v_parse_ip = (\<lambda>_. None), v_serde_err = [], v_nanos = 2 ^ 47, v_tid = 1, v_random_id = ''1'', v_now = 0, v_later = 0,
     v_merkle_ts = 0, v_unix = 0, v_latency = Fin 1, v_det_latency = Fin 1, v_writes = 9, v_fuel = 9\<rparr>"

definition demo_node :: "memory_store node" where
  "demo_node = \<lparr>n_limiter = \<lparr>buckets = [([0, 0, 0, 0], Fin 5, 0)], rate_per_s = Fin 1, burst = Fin 5\<rparr>, n_gov = fresh_gov, n_chain = new_chain,
     n_audit = open_log [] [], n_metrics = new_store, n_world = \<lparr>w_pool = new_pool 1, w_wire = []\<rparr>\<rparr>"

lemma demo_allowed: "snd (limiter_check (n_limiter demo_node) 0 [0, 0, 0, 0])"
  by (simp add: limiter_check_def demo_node_def evict_limiter_def no_time_no_refill [where r = 1] fmin_def Let_def)

lemma demo_request:
  assumes "CHR '' '' \<notin> set pt" and "CR \<notin> set pt" and "is_ascii pt" and "length pt < 1000"
  shows "handle_connection (demo_env j) demo_node [small_request pt] = handle_request (demo_env j) demo_node
    \<lparr>req_method = ''POST'', req_path = pt, version_minor = 1, req_headers = [(''Content-Length'', ''2'')], req_body = ''hi''\<rparr>"
proof -
  obtain k where "parse_request 9 plain_unicode (small_request pt) =
      Complete \<lparr>req_method = ''POST'', req_path = pt, version_minor = 1, req_headers = [(''Content-Length'', ''2'')], req_body = ''hi''\<rparr> k"
    using small_request_read(2) [OF assms] by blast
  then show ?thesis using small_request_read(1) [OF assms, of plain_unicode]
    by (simp add: handle_connection_def demo_env_def local_io_def)
qed

subsection \<open>A high score ends in front of the upstream\<close>

definition high_risk :: "detect_verdict \<Rightarrow> bool" where
  "high_risk fast = (case extract_verdict_metadata fast of (types, risk, _) \<Rightarrow> ''JAILBREAK'' \<in> set types \<or> fge risk (Fin 80))"

lemma high_risk_action:
  assumes "high_risk fast"
  shows "(\<exists>s. result_action (evaluate u (load_builtin_rules new_engine) (eval_ctx fast m org)) = Block s)
    \<or> (\<exists>s. result_action (evaluate u (load_builtin_rules new_engine) (eval_ctx fast m org)) = Quarantine s)"
proof -
  obtain types risk spans where md: "extract_verdict_metadata fast = (types, risk, spans)" by (cases "extract_verdict_metadata fast")
  have "''JAILBREAK'' \<in> set types \<or> (fge risk (Fin 80) \<and> \<not> flt risk (Fin 80) \<and> \<not> flt risk (Fin 35))"
    using assms md by (cases risk) (auto simp: high_risk_def flt_def feq_def)
  then show ?thesis
    using md unfolding builtin_eval Let_def by (auto simp: eval_ctx_def)
qed

lemma classify_request_fast:
  assumes "scan (v_detect v) txt = Some fast" and "\<And>r why. fast \<noteq> Ambiguous r why"
  shows "classify_request v trace_hdrs txt m org = Some (fast, False)"
proof -
  have "\<exists>x y. fast = Ambiguous x y \<Longrightarrow> False" using assms(2) by blast
  then show ?thesis using assms(1) by (cases fast) (auto simp: classify_request_def)
qed

text \<open>
  C34: with the built-in policy a request whose text the detector marks as a jailbreak or
  scores at 80 or more, without calling it ambiguous, changes nothing on the upstream side,
  whatever the rest of the request, the session and the state of the node are.
\<close>

theorem high_risk_never_leaves:
  assumes "fst (read_full_request (io_unicode (v_io v)) ss) = ReadOk buf"
    and "parse_request (v_fuel v) (io_unicode (v_io v)) buf = Complete req k"
    and "from_path_and_body (io_parse (v_io v)) (req_path req) (req_body req) = Some ai"
    and "scan (v_detect v) (user_text ai) = Some fast" and "\<And>risk why. fast \<noteq> Ambiguous risk why" and "high_risk fast"
    and "g_engine (n_gov n) = load_builtin_rules new_engine"
    and "handle_connection v n ss = Done r"
  shows "n_world (o_node r) = n_world n"
proof -
  consider "quiet n r" | lim where "handle_ai v (n\<lparr>n_limiter := lim\<rparr>) req ai = Done r"
    using handle_connection_Done [OF assms(8)] assms(1-3) by auto
  then show ?thesis
  proof cases
    case 1
    then show ?thesis by (simp add: quiet_def)
  next
    case 2
    let ?n = "n\<lparr>n_limiter := lim\<rparr>"
    obtain verdict asked d i relay trace_hdrs rid where "trace_hdrs = extract_trace (req_headers req)"
      and "rid = generate_request_id (v_nanos v) (v_tid v)"
      and c: "classify_request v trace_hdrs (user_text ai) (req_model ai) (org_of v req) = Some (verdict, asked)"
      and d: "decide_request (io_unicode (v_io v)) (v_dpin v) (v_now v) (n_gov ?n) verdict (user_text ai) (req_model ai) (org_of v req) (session_of v req)
         = Some (n_gov (o_node r), d)"
      and "chain_push (n_chain ?n) (v_merkle_ts v) (session_of v req) (final_action (result_action (d_result d))) = Some (n_chain (o_node r), i)"
      and "n_audit (o_node r) = snd (append_log (v_mac v) (v_entry_json v) (v_audit_io v) (audit_args v rid (org_of v req) (req_model ai) d) (n_audit ?n))"
      and w: "perform (v_io v) (v_dbg v) (v_now v) (v_later v) (n_world ?n) (v_writes v) ai (req_body req)
         (keep_alive (io_unicode (v_io v)) req) trace_hdrs rid d = Some (n_world (o_node r), relay)"
      and "o_out r = r_out relay" and "o_keep r = r_keep relay" and "o_closed r \<longleftrightarrow> \<not> forgets (user_text ai) d"
      using 2 by (rule handle_ai_Done)
    have v: "verdict = fast" using c classify_request_fast [OF assms(4,5)] by simp
    let ?r0 = "evaluate (io_unicode (v_io v)) (load_builtin_rules new_engine) (eval_ctx fast (req_model ai) (org_of v req))"
    have "resolve_redaction fast (user_text ai) (d_spans d) (pin_override (d_pin d) ?r0) = Some (d_result d, d_text d)"
      using d unfolding v by (rule decide_request_cases) (simp add: assms(7))
    then have "result_action (d_result d) = result_action ?r0"
      using high_risk_action [OF assms(6), of "io_unicode (v_io v)" "req_model ai" "org_of v req"]
      by (auto simp: pin_override_def resolve_redaction_def split: if_splits)
    then have "forgets (user_text ai) d"
      using high_risk_action [OF assms(6), of "io_unicode (v_io v)" "req_model ai" "org_of v req"] by (auto simp: forgets_iff)
    then show ?thesis using perform_forgets [OF w] by simp
  qed
qed

lemma handle_ai_refused:
  assumes "traceparent_of (extract_trace (req_headers req)) (generate_request_id (v_nanos v) (v_tid v)) \<noteq> None"
    and "scan (v_detect v) (user_text ai) = Some fast" and "\<And>risk why. fast \<noteq> Ambiguous risk why" and "high_risk fast"
    and "g_engine (n_gov n) = load_builtin_rules new_engine" and "n_chain n = new_chain"
  shows "\<exists>r. handle_ai v n req ai = Done r"
proof -
  let ?u = "io_unicode (v_io v)"
  have act: "result_action (evaluate ?u (g_engine (n_gov n)) (eval_ctx fast (req_model ai) (org_of v req))) \<noteq> Redact"
    using high_risk_action [OF assms(4), of ?u "req_model ai" "org_of v req"] assms(5) by auto
  obtain g' d where d: "decide_request ?u (v_dpin v) (v_now v) (n_gov n) fast (user_text ai) (req_model ai) (org_of v req) (session_of v req) = Some (g', d)"
    using decide_unredacted [OF act] by blast
  let ?r0 = "evaluate ?u (load_builtin_rules new_engine) (eval_ctx fast (req_model ai) (org_of v req))"
  have "resolve_redaction fast (user_text ai) (d_spans d) (pin_override (d_pin d) ?r0) = Some (d_result d, d_text d)"
    using d by (rule decide_request_cases) (simp add: assms(5))
  then have "result_action (d_result d) = result_action ?r0"
    using high_risk_action [OF assms(4), of ?u "req_model ai" "org_of v req"]
    by (auto simp: pin_override_def resolve_redaction_def split: if_splits)
  then have f: "(\<exists>t. disposition_of (user_text ai) d = Refuse t) \<or> (\<exists>t. disposition_of (user_text ai) d = Hold t)"
    using high_risk_action [OF assms(4), of ?u "req_model ai" "org_of v req"] by (auto simp: disposition_of_def)
  obtain tp where tp: "traceparent_of (extract_trace (req_headers req)) (generate_request_id (v_nanos v) (v_tid v)) = Some tp" using assms(1) by blast
  obtain e l where l: "append_log (v_mac v) (v_entry_json v) (v_audit_io v)
      (audit_args v (generate_request_id (v_nanos v) (v_tid v)) (org_of v req) (req_model ai) d) (n_audit n) = (e, l)" by fastforce
  have "\<exists>c i. chain_push (n_chain n) (v_merkle_ts v) (session_of v req) (final_action (result_action (d_result d))) = Some (c, i)"
    by (simp add: assms(6) chain_push_def new_chain_def Let_def EPOCH_SIZE_def)
  then show ?thesis
    unfolding handle_ai_def Let_def tp classify_request_fast [OF assms(2,3)] option.case prod.case d l
    using f by (auto simp: perform_def Let_def)
qed

definition bell_json :: json where
  "bell_json = JObj [(''model'', JStr ''gpt-4''), (''messages'', JArr [JObj [(''role'', JStr ''user''), (''content'', JStr [CHR 0x07])]])]"

lemma bell_request: "\<exists>c. chat_from_json bell_json = Some c \<and> chat_user_text c = [CHR 0x07]"
  by (simp add: bell_json_def unique_fields_def chat_fields_def req_field_def opt_field_def as_vec_def message_from_json_def message_fields_def content_from_json_def
      chat_user_text_def scanned_role_def)

lemma bell_scan: "scan (v_detect (demo_env j)) [CHR 0x07] =
    Some (VBlock [''BPE:control_byte_injection''] (Fin 95) ''critical'' [\<lparr>sp_start = 0, sp_end = 1, sp_type = ''control_byte_injection''\<rparr>])"
  by (simp add: scan_def demo_env_def bpe_scan_def check_control_injection_def char_indices_def is_control_def scan_eval utf8_enc_def)

lemma demo_id: "traceparent_of [] (generate_request_id (v_nanos (demo_env j)) (v_tid (demo_env j))) \<noteq> None"
  by (simp add: traceparent_of_def generate_request_id_def demo_env_def hex_nat.simps dec_digits.simps)

theorem high_risk_never_leaves_witness:
  "\<exists>r. handle_connection (demo_env bell_json) demo_node [small_request ''/v1/chat''] = Done r \<and> n_world (o_node r) = n_world demo_node"
proof -
  let ?v = "demo_env bell_json" and ?pt = "''/v1/chat''"
  let ?req = "\<lparr>req_method = ''POST'', req_path = ?pt, version_minor = 1, req_headers = [(''Content-Length'', ''2'')], req_body = ''hi''\<rparr>"
  have u: "io_unicode (v_io ?v) = plain_unicode" "v_fuel ?v = 9" by (simp_all add: demo_env_def local_io_def)
  have pt: "CHR '' '' \<notin> set ?pt" "CR \<notin> set ?pt" "is_ascii ?pt" "length ?pt < 1000" by simp_all
  obtain k where k: "parse_request 9 plain_unicode (small_request ?pt) = Complete ?req k" using small_request_read(2) [OF pt] by blast
  obtain c where c: "chat_from_json bell_json = Some c" "chat_user_text c = [CHR 0x07]" using bell_request by blast
  have ai: "from_path_and_body (io_parse (v_io ?v)) (req_path ?req) (req_body ?req) = Some (OpenAIReq c)"
    using c by (simp add: from_path_and_body_def from_utf8_ascii chat_from_bytes_def demo_env_def starts_with_def)
  let ?fast = "VBlock [''BPE:control_byte_injection''] (Fin 95) ''critical'' [\<lparr>sp_start = 0, sp_end = 1, sp_type = ''control_byte_injection''\<rparr>]"
  have sc: "scan (v_detect ?v) (user_text (OpenAIReq c)) = Some ?fast" using bell_scan c(2) by simp
  have hr: "high_risk ?fast" by (simp add: high_risk_def)
  have trace: "extract_trace (req_headers ?req) = []"
    by (simp add: extract_trace_def TRACE_HEADERS_def find_header_def name_eq_def to_lowercase_def char_lower_def ascii_upperp_def
        char_of_def bit_iff_odd List.map_filter_def)
  obtain lim where l: "limiter_check (n_limiter demo_node) 0 [0, 0, 0, 0] = (lim, True)"
    using demo_allowed by (cases "limiter_check (n_limiter demo_node) 0 [0, 0, 0, 0]") auto
  have eng: "g_engine (n_gov demo_node) = load_builtin_rules new_engine" by (simp add: demo_node_def fresh_gov_def)
  obtain r where r: "handle_ai ?v (demo_node\<lparr>n_limiter := lim\<rparr>) ?req (OpenAIReq c) = Done r"
    using handle_ai_refused [of ?req ?v "OpenAIReq c" ?fast "demo_node\<lparr>n_limiter := lim\<rparr>"] sc hr eng trace demo_id [of bell_json]
    by (auto simp: demo_node_def)
  have "endpoint_response ?v (demo_node\<lparr>n_limiter := lim\<rparr>) ?req = None"
    by (simp add: endpoint_response_def from_utf8_ascii strip_prefix_def starts_with_def)
  moreover have "v_now ?v = 0" "client_ip ?v = ''unknown''" "v_parse_ip ?v = (\<lambda>_. None)" by (simp_all add: demo_env_def client_ip_def)
  ultimately have "handle_request ?v demo_node ?req = Done r"
    using l ai r by (simp add: handle_request_def)
  then have d: "handle_connection ?v demo_node [small_request ?pt] = Done r" using demo_request [OF pt] by simp
  have "n_world (o_node r) = n_world demo_node"
    by (rule high_risk_never_leaves [OF _ _ ai sc _ hr eng d]) (use small_request_read(1) [OF pt] k u in simp_all)
  with d show ?thesis by blast
qed

subsection \<open>The descriptor of the client\<close>

lemma chain_push_total: "chain_push c ts sid act = Some (c', i) \<Longrightarrow> total_events c' = total_events c + 1"
  by (auto simp: chain_push_def seal_epoch_def Let_def split: if_splits)

text \<open>
  C35: when a call asks for the connection to be kept although it recorded nothing (an
  answer of the node itself) or used an upstream, it has already closed the client's
  descriptor: the thread then calls it again on a number that is free or belongs to
  another connection.
\<close>

theorem kept_connection_closed:
  assumes "handle_connection v n ss = Done r" and "o_keep r"
    and "n_chain (o_node r) = n_chain n \<or> n_world (o_node r) \<noteq> n_world n"
  shows "o_closed r"
proof -
  consider "quiet n r" | req lim ai where "handle_ai v (n\<lparr>n_limiter := lim\<rparr>) req ai = Done r"
    using handle_connection_Done [OF assms(1)] by blast
  then show ?thesis
  proof cases
    case 1
    then show ?thesis using assms(2) by (simp add: quiet_def)
  next
    case 2
    let ?n = "n\<lparr>n_limiter := lim\<rparr>"
    obtain d i where
      p: "chain_push (n_chain ?n) (v_merkle_ts v) (session_of v req) (final_action (result_action (d_result d))) = Some (n_chain (o_node r), i)"
      and w: "forgets (user_text ai) d \<longrightarrow> n_world (o_node r) = n_world ?n" and cl: "o_closed r \<longleftrightarrow> \<not> forgets (user_text ai) d"
      using handle_ai_recorded [OF 2] by blast
    have "n_chain (o_node r) \<noteq> n_chain n" using chain_push_total [OF p] by auto
    with assms(3) have "n_world (o_node r) \<noteq> n_world n" by simp
    then show ?thesis using w cl by auto
  qed
qed

theorem kept_connection_closed_witness:
  "\<exists>r. handle_connection (demo_env JNull) demo_node [small_request ''/health''] = Done r \<and> o_keep r \<and> o_closed r"
proof -
  let ?req = "\<lparr>req_method = ''POST'', req_path = ''/health'', version_minor = 1, req_headers = [(''Content-Length'', ''2'')], req_body = ''hi''\<rparr>"
  let ?h = "handle_connection (demo_env JNull) demo_node [small_request ''/health'']"
  have h: "?h = handle_request (demo_env JNull) demo_node ?req" by (rule demo_request) simp_all
  obtain lim where l: "limiter_check (n_limiter demo_node) 0 [0, 0, 0, 0] = (lim, True)"
    using demo_allowed by (cases "limiter_check (n_limiter demo_node) 0 [0, 0, 0, 0]") auto
  have "keep_alive plain_unicode ?req" by (simp add: keep_alive_def find_header_def name_eq_def to_lowercase_def char_lower_def ascii_upperp_def char_of_def bit_iff_odd)
  then obtain r where r: "?h = Done r" "o_keep r" "n_chain (o_node r) = n_chain demo_node"
    unfolding h handle_request_def
    using l by (simp add: demo_env_def local_io_def client_ip_def endpoint_response_def early_def from_utf8_ascii)
  then show ?thesis using kept_connection_closed [OF r(1,2)] by blast
qed

end
