(* ===== verification/Ja3.thy ===== *)
theory Ja3
  imports Sha256 Sessions F64
begin

text \<open>
  TLS client fingerprints (\<open>tls/ja3.rs\<close>): the reading of a ClientHello record, the JA3
  string with its MD5, the JA4 string, and the table of known fingerprints. Reading a
  byte or a slice out of range panics. The descriptions in the table are left out.
\<close>

datatype 'a parsed = POk 'a | PErr str | PPanic

subsection \<open>Values and records\<close>

definition GREASE :: "nat list" where
  "GREASE = [0x0a0a, 0x1a1a, 0x2a2a, 0x3a3a, 0x4a4a, 0x5a5a, 0x6a6a, 0x7a7a,
     0x8a8a, 0x9a9a, 0xaaaa, 0xbaba, 0xcaca, 0xdada, 0xeaea, 0xfafa]"

definition is_grease :: "nat \<Rightarrow> bool" where
  "is_grease v = (v \<in> set GREASE)"

record client_hello_info =
  tls_version :: nat
  ch_ciphers :: "nat list"
  ch_extensions :: "nat list"
  elliptic_curves :: "nat list"
  point_formats :: "nat list"
  sni :: "str option"
  ch_raw :: bytes

record fingerprint =
  ja3_str :: str
  ja3_hash :: str
  ja4 :: str
  fp_info :: client_hello_info

text \<open>\<open>u16::from_be_bytes\<close> of the two bytes at a position inside the list.\<close>

definition u16_at :: "bytes \<Rightarrow> nat \<Rightarrow> nat" where
  "u16_at hs p = 256 * unat (hs ! p) + unat (hs ! (p + 1))"

definition byte_or_zero :: "bytes \<Rightarrow> nat \<Rightarrow> nat" where
  "byte_or_zero hs p = (if p < length hs then unat (hs ! p) else 0)"

subsection \<open>MD5\<close>

definition md5_shifts :: "nat list" where
  "md5_shifts = concat (map (\<lambda>r. concat (replicate 4 r)) [[7, 12, 17, 22], [5, 9, 14, 20], [4, 11, 16, 23], [6, 10, 15, 21]])"

definition md5_constants :: "32 word list" where
  "md5_constants = [
     3614090360, 3905402710, 606105819, 3250441966, 4118548399, 1200080426, 2821735955, 4249261313,
     1770035416, 2336552879, 4294925233, 2304563134, 1804603682, 4254626195, 2792965006, 1236535329,
     4129170786, 3225465664, 643717713, 3921069994, 3593408605, 38016083, 3634488961, 3889429448,
     568446438, 3275163606, 4107603335, 1163531501, 2850285829, 4243563512, 1735328473, 2368359562,
     4294588738, 2272392833, 1839030562, 4259657740, 2763975236, 1272893353, 4139469664, 3200236656,
     681279174, 3936430074, 3572445317, 76029189, 3654602809, 3873151461, 530742520, 3299628645,
     4096336452, 1126891415, 2878612391, 4237533241, 1700485571, 2399980690, 4293915773, 2240044497,
     1873313359, 4264355552, 2734768916, 1309151649, 4149444226, 3174756917, 718787259, 3951481745]"

definition le_bytes64 :: "64 word \<Rightarrow> bytes" where
  "le_bytes64 w = map (\<lambda>i. ucast (drop_bit (8 * i) w)) [0..<8]"

definition le_bytes32 :: "32 word \<Rightarrow> bytes" where
  "le_bytes32 w = map (\<lambda>i. ucast (drop_bit (8 * i) w)) [0..<4]"

definition le_word32 :: "bytes \<Rightarrow> 32 word" where
  "le_word32 bs = foldr (\<lambda>b w. push_bit 8 w OR ucast b) bs 0"

record md5_state =
  ma :: "32 word"  mb :: "32 word"  mc :: "32 word"  md :: "32 word"

definition md5_round :: "32 word list \<Rightarrow> md5_state \<Rightarrow> nat \<Rightarrow> md5_state" where
  "md5_round m s i =
     (let (f, g) =
        (if i \<le> 15 then ((mb s AND mc s) OR (NOT (mb s) AND md s), i)
         else if i \<le> 31 then ((md s AND mb s) OR (NOT (md s) AND mc s), (5 * i + 1) mod 16)
         else if i \<le> 47 then (mb s XOR mc s XOR md s, (3 * i + 5) mod 16)
         else (mc s XOR (mb s OR NOT (md s)), (7 * i) mod 16))
      in \<lparr>ma = md s, mb = mb s + word_rotl (md5_shifts ! i) (ma s + f + md5_constants ! i + m ! g), mc = mb s, md = mc s\<rparr>)"

definition md5_chunk :: "md5_state \<Rightarrow> bytes \<Rightarrow> md5_state" where
  "md5_chunk h chunk =
     (let m = map (\<lambda>i. le_word32 (sub_slice (i * 4) (i * 4 + 4) chunk)) [0..<16];
          s = foldl (md5_round m) h [0..<64]
      in \<lparr>ma = ma h + ma s, mb = mb h + mb s, mc = mc h + mc s, md = md h + md s\<rparr>)"

definition md5_hex :: "bytes \<Rightarrow> str" where
  "md5_hex data =
     (let msg = pad_loop (data @ [0x80]) @ le_bytes64 (word_of_nat (length data) * 8);
          h = foldl md5_chunk \<lparr>ma = 1732584193, mb = 4023233417, mc = 2562383102, md = 271733878\<rparr> (chunks64 msg)
      in hex_of (le_bytes32 (ma h) @ le_bytes32 (mb h) @ le_bytes32 (mc h) @ le_bytes32 (md h)))"

text \<open>The digest of the empty message, a test vector of RFC 1321.\<close>

lemma md5_empty: "md5_hex [] = ''d41d8cd98f00b204e9800998ecf8427e''"
  by code_simp

subsection \<open>The two strings\<close>

definition dashed :: "nat list \<Rightarrow> str" where
  "dashed xs = join_with ''-'' (map dec_digits xs)"

definition build_ja3_str :: "client_hello_info \<Rightarrow> str" where
  "build_ja3_str i =
     dec_digits (tls_version i) @ '','' @ dashed (ch_ciphers i) @ '','' @ dashed (ch_extensions i) @ '',''
     @ dashed (elliptic_curves i) @ '','' @ dashed (point_formats i)"

text \<open>An FNV hash and its complement stand in for the truncated SHA-256.\<close>

definition sha256_truncated_hex :: "str \<Rightarrow> nat \<Rightarrow> str" where
  "sha256_truncated_hex data n =
     (let hash = fnv1a data; hex = hex16 hash @ hex16 (NOT hash) in take (min n (length hex)) hex)"

definition hex4 :: "nat \<Rightarrow> str" where
  "hex4 v = map (\<lambda>i. hex_digit (v div 16 ^ (3 - i) mod 16)) [0..<4]"

definition two_digits :: "nat \<Rightarrow> str" where
  "two_digits n = (if n < 10 then ''0'' @ dec_digits n else dec_digits n)"

definition EXT_SERVER_NAME :: nat where "EXT_SERVER_NAME = 0x0000"
definition EXT_SUPPORTED_GROUPS :: nat where "EXT_SUPPORTED_GROUPS = 0x000a"
definition EXT_EC_POINT_FORMATS :: nat where "EXT_EC_POINT_FORMATS = 0x000b"
definition EXT_SESSION_TICKET :: nat where "EXT_SESSION_TICKET = 0x0023"

definition build_ja4 :: "client_hello_info \<Rightarrow> str" where
  "build_ja4 i =
     (let version = (if tls_version i = 0x0304 then ''13'' else if tls_version i = 0x0303 then ''12''
                     else if tls_version i = 0x0302 then ''11'' else ''10'');
          cipher_str = join_with '','' (map hex4 (sort (ch_ciphers i)));
          ext_str = join_with '','' (map hex4 (sort (filter (\<lambda>e. e \<noteq> EXT_SESSION_TICKET \<and> e \<noteq> EXT_SERVER_NAME) (ch_extensions i))))
      in ''t'' @ version @ (if sni i \<noteq> None then ''d'' else ''i'') @ two_digits (min (length (ch_ciphers i)) 99)
         @ two_digits (min (length (ch_extensions i)) 99)
         @ ''_'' @ sha256_truncated_hex cipher_str 12 @ ''_'' @ sha256_truncated_hex ext_str 12)"

definition compute_fp :: "client_hello_info \<Rightarrow> fingerprint" where
  "compute_fp i = (let s = build_ja3_str i in \<lparr>ja3_str = s, ja3_hash = md5_hex (as_bytes s), ja4 = build_ja4 i, fp_info = i\<rparr>)"

subsection \<open>Reading a ClientHello\<close>

definition parse_sni :: "bytes \<Rightarrow> str option" where
  "parse_sni data =
     (if length data < 5 then None
      else let name_len = u16_at data 3
           in if length data < 5 + name_len then None
              else from_utf8 (map (\<lambda>b. char_of (unat b)) (sub_slice 5 (5 + name_len) data)))"

text \<open>A list of odd length is read past its end, which panics (\<open>None\<close>).\<close>

definition parse_u16_list :: "bytes \<Rightarrow> nat list option" where
  "parse_u16_list data =
     (if length data < 2 then Some []
      else let n = min (u16_at data 0) (length data - 2);
               is = filter (\<lambda>i. i mod 2 = 0) [0..<n]
           in if list_all (\<lambda>i. 2 + i + 1 < length data) is then Some (map (\<lambda>i. u16_at data (2 + i)) is) else None)"

record ext_state =
  x_extensions :: "nat list"
  x_curves :: "nat list"
  x_points :: "nat list"
  x_sni :: "str option"

text \<open>One extension whose data starts at \<open>p\<close>; the slices handed to the two list parsers end at \<open>min p (p + len)\<close>.\<close>

definition ext_step :: "bytes \<Rightarrow> nat \<Rightarrow> nat \<Rightarrow> nat \<Rightarrow> ext_state \<Rightarrow> ext_state option" where
  "ext_step hs ty p len x =
     (let x1 = (if is_grease ty then x else x\<lparr>x_extensions := x_extensions x @ [ty]\<rparr>);
          slice = sub_slice p (min p (p + len)) hs
      in if ty = EXT_SERVER_NAME then Some (x1\<lparr>x_sni := parse_sni slice\<rparr>)
         else if ty = EXT_SUPPORTED_GROUPS
         then map_option (\<lambda>cs. x1\<lparr>x_curves := filter (\<lambda>c. \<not> is_grease c) cs\<rparr>) (parse_u16_list slice)
         else if ty = EXT_EC_POINT_FORMATS
         then (let m = min (byte_or_zero hs p) len
               in if p + 1 + m \<le> length hs
                  then Some (x1\<lparr>x_points := map unat (sub_slice (p + 1) (p + 1 + m) hs)\<rparr>) else None)
         else Some x1)"

function ext_loop :: "bytes \<Rightarrow> nat \<Rightarrow> nat \<Rightarrow> ext_state \<Rightarrow> ext_state option" where
  "ext_loop hs ext_end p x =
     (if p + 4 \<le> min ext_end (length hs)
      then Option.bind (ext_step hs (u16_at hs p) (p + 4) (u16_at hs (p + 2)) x)
             (\<lambda>x'. ext_loop hs ext_end (p + 4 + u16_at hs (p + 2)) x')
      else Some x)"
  by auto
termination
  by (relation "measure (\<lambda>(hs, ext_end, p, x). length hs - p)") auto

declare ext_loop.simps [simp del]

definition read_ciphers :: "bytes \<Rightarrow> nat \<Rightarrow> nat \<Rightarrow> nat list" where
  "read_ciphers hs p cs_len =
     filter (\<lambda>c. \<not> is_grease c)
       (map (\<lambda>i. u16_at hs (p + i)) (takeWhile (\<lambda>i. p + i + 1 < length hs) (filter (\<lambda>i. i mod 2 = 0) [0..<cs_len])))"

definition from_handshake :: "bytes \<Rightarrow> bytes \<Rightarrow> fingerprint parsed" where
  "from_handshake hs raw =
     (if length hs < 4 then PErr ''handshake too short''
      else if hs ! 0 \<noteq> 1 then PErr ''not ClientHello''
      else if length hs < 4 + 2 then PErr ''truncated at version''
      else if 38 \<ge> length hs then PErr ''truncated at random''
      else
        let version = u16_at hs 4;
            p1 = 38 + 1 + byte_or_zero hs 38
        in if length hs < p1 + 2 then PErr ''truncated at ciphers''
           else let cs_len = u16_at hs p1;
                    ciphers = read_ciphers hs (p1 + 2) cs_len;
                    p2 = p1 + 2 + cs_len;
                    p3 = p2 + 1 + byte_or_zero hs p2;
                    info = \<lparr>tls_version = version, ch_ciphers = ciphers, ch_extensions = [], elliptic_curves = [], point_formats = [], sni = None, ch_raw = raw\<rparr>
                in if p3 + 2 > length hs then POk (compute_fp info)
                   else case ext_loop hs (p3 + 2 + u16_at hs p3) (p3 + 2) \<lparr>x_extensions = [], x_curves = [], x_points = [], x_sni = None\<rparr> of
                          None \<Rightarrow> PPanic
                        | Some x \<Rightarrow> POk (compute_fp (info\<lparr>ch_extensions := x_extensions x, elliptic_curves := x_curves x,
                                                            point_formats := x_points x, sni := x_sni x\<rparr>)))"

definition from_record :: "bytes \<Rightarrow> fingerprint parsed" where
  "from_record data =
     (if length data < 5 then PErr ''record too short''
      else if data ! 0 \<noteq> 0x16 then PErr ''not a Handshake record''
      else let rec_len = u16_at data 3
           in if length data < 5 + rec_len then PErr ''truncated record''
              else from_handshake (sub_slice 5 (5 + rec_len) data) data)"

subsection \<open>Known fingerprints\<close>

record threat_match =
  tm_tool :: str
  tm_category :: str
  tm_confidence :: f64

definition known_bad :: "(str \<times> threat_match) list" where
  "known_bad =
     (let c = (\<lambda>t k n. \<lparr>tm_tool = t, tm_category = k, tm_confidence = of_exact (n / 100)\<rparr>) in [
       (''72a589da586844d7f0818ce684948eea'', c ''Cobalt Strike'' ''c2'' 95),
       (''a0e9f5d64349fb13191bc781f81f42e1'', c ''Cobalt Strike'' ''c2'' 92),
       (''b386946a5a44d1ddcc843bc75336dfce'', c ''Metasploit'' ''exploit_framework'' 90),
       (''1aa7bf6b1ec6a0a1b622e4d09a585b7c'', c ''Sliver'' ''c2'' 88),
       (''ja3_go_default_1.21'', c ''Go/1.21 default'' ''scripted'' 40),
       (''6734f37431670b3ab4292b8f60f29984'', c ''Python/requests'' ''scripted'' 20),
       (''6fa3244afc6bb5ac885eed6afe501ef4'', c ''Trickbot'' ''malware'' 97),
       (''a35bab1f0ca65f9e6c5b9b3ab3680e8e'', c ''Emotet'' ''malware'' 96),
       (''c35b4e9974dbb578d5a9e6f10eefc3d7'', c ''Redline Stealer'' ''infostealer'' 94),
       (''d0ec61de8fa8e5f945fa68dd083c4d65'', c ''LummaStealer'' ''infostealer'' 95),
       (''743c250a16d8e2b9f614a35be8383aef'', c ''curl/7.x'' ''tool'' 10)])"

definition lookup_threat :: "fingerprint \<Rightarrow> threat_match option" where
  "lookup_threat fp = map_of known_bad (ja3_hash fp)"

definition is_malicious :: "fingerprint \<Rightarrow> bool" where
  "is_malicious fp = (lookup_threat fp \<noteq> None)"

definition fp_risk_score :: "fingerprint \<Rightarrow> f64" where
  "fp_risk_score fp = (case lookup_threat fp of Some m \<Rightarrow> tm_confidence m | None \<Rightarrow> Fin 0)"

subsection \<open>Groups and server names are never read\<close>

lemma ext_step_empty:
  assumes "ext_step hs ty p len x = Some x'" and "x_curves x = []" and "x_sni x = None"
  shows "x_curves x' = [] \<and> x_sni x' = None"
  using assms
  by (auto simp: ext_step_def Let_def parse_sni_def parse_u16_list_def sub_slice_def split: if_splits)

lemma ext_loop_empty:
  "ext_loop hs ext_end p x = Some x' \<Longrightarrow> x_curves x = [] \<Longrightarrow> x_sni x = None \<Longrightarrow> x_curves x' = [] \<and> x_sni x' = None"
proof (induction hs ext_end p x rule: ext_loop.induct)
  case (1 hs ext_end p x)
  show ?case
  proof (cases "p + 4 \<le> min ext_end (length hs)")
    case True
    then obtain y where y: "ext_step hs (u16_at hs p) (p + 4) (u16_at hs (p + 2)) x = Some y"
      "ext_loop hs ext_end (p + 4 + u16_at hs (p + 2)) y = Some x'"
      using 1(2) by (subst (asm) ext_loop.simps) (auto simp: bind_eq_Some_conv)
    have "x_curves y = [] \<and> x_sni y = None" using ext_step_empty [OF y(1)] 1(3,4) by simp
    then show ?thesis using 1(1) [OF True y(1)] y(2) by simp
  next
    case False
    then show ?thesis using 1(2-4) by (subst (asm) ext_loop.simps) auto
  qed
qed

text \<open>
  C36: a fingerprint never contains what the client says about elliptic curves or about the
  server name: the slices that should hold them are always empty. The fourth field of
  every JA3 string is empty and every JA4 string says that there is no server name.
\<close>

theorem fingerprint_ignores_groups_and_sni:
  assumes "from_record data = POk fp"
  shows "elliptic_curves (fp_info fp) = [] \<and> sni (fp_info fp) = None
    \<and> (\<exists>version ciphers exts points. ja3_str fp = version @ '','' @ ciphers @ '','' @ exts @ '',,'' @ points)"
proof -
  have "\<exists>i. fp = compute_fp i \<and> elliptic_curves i = [] \<and> sni i = None"
    using assms ext_loop_empty
    by (fastforce simp: from_record_def from_handshake_def Let_def split: if_splits option.splits)
  then obtain i where i: "fp = compute_fp i" "elliptic_curves i = []" "sni i = None" by blast
  then have "ja3_str fp = dec_digits (tls_version i) @ '','' @ dashed (ch_ciphers i) @ '','' @ dashed (ch_extensions i) @ '',,'' @ dashed (point_formats i)"
    by (simp add: compute_fp_def build_ja3_str_def dashed_def Let_def)
  with i show ?thesis by (auto simp: compute_fp_def Let_def)
qed

text \<open>A ClientHello that offers the group 29 and nothing else.\<close>

definition group_hello :: bytes where
  "group_hello = [0x16, 3, 1, 0, 52, 1, 0, 0, 48, 3, 3] @ replicate 32 7 @ [0, 0, 0, 0] @ [0, 8, 0, 10, 0, 4, 0, 2, 0, 29]"

theorem fingerprint_ignores_groups_and_sni_witness:
  "\<exists>fp. from_record group_hello = POk fp \<and> ch_extensions (fp_info fp) = [10] \<and> elliptic_curves (fp_info fp) = []"
proof -
  define hs where "hs = sub_slice 5 57 group_hello"
  have r: "length group_hello = 57" "group_hello ! 0 = 0x16" "u16_at group_hello 3 = 52" by code_simp+
  have h: "length hs = 52" "hs ! 0 = 1" "byte_or_zero hs 38 = 0" "u16_at hs 39 = 0" "byte_or_zero hs 41 = 0" "u16_at hs 42 = 8"
    "u16_at hs 44 = 10" "u16_at hs 46 = 4"
    unfolding hs_def by code_simp+
  have l: "ext_loop hs 52 44 \<lparr>x_extensions = [], x_curves = [], x_points = [], x_sni = None\<rparr>
      = Some \<lparr>x_extensions = [10], x_curves = [], x_points = [], x_sni = None\<rparr>"
    using h by (simp add: ext_loop.simps [of hs 52 44] ext_loop.simps [of hs 52 52] ext_step_def is_grease_def GREASE_def EXT_SERVER_NAME_def
        EXT_SUPPORTED_GROUPS_def parse_u16_list_def sub_slice_def)
  have "\<exists>fp. from_record group_hello = POk fp \<and> ch_extensions (fp_info fp) = [10]"
    using r h l by (simp add: from_record_def from_handshake_def Let_def compute_fp_def hs_def)
  then show ?thesis using fingerprint_ignores_groups_and_sni by blast
qed

end
