(* ===== verification/Tls.thy ===== *)
theory Tls
  imports Pool Ja3
begin

text \<open>
  The TLS 1.3 implementation of \<open>tls/\<close>: HKDF (\<open>hkdf.rs\<close>), the key schedule (\<open>keys.rs\<close>),
  the record layer (\<open>record.rs\<close>) and both handshakes (\<open>handshake.rs\<close>). The primitives of
  the \<open>ring\<close> crate are parameters: HMAC-SHA256, SHA-256, X25519, the signature and the
  AEAD; a transcript is the list of bytes hashed so far.
\<close>

subsection \<open>HKDF\<close>

type_synonym hmac_fn = "bytes \<Rightarrow> bytes \<Rightarrow> bytes"

definition ZEROS_32 :: bytes where "ZEROS_32 = replicate 32 0"

definition hkdf_extract :: "hmac_fn \<Rightarrow> bytes \<Rightarrow> bytes \<Rightarrow> bytes" where
  "hkdf_extract hmac salt ikm = hmac (if salt = [] then replicate 32 0 else salt) ikm"

text \<open>
  Every round appends a tag of 32 bytes, so the loop runs \<open>(n + 31) div 32\<close> times. The
  assertion on the length holds for all callers, whose lengths are 12, 16 and 32.
\<close>

fun expand_loop :: "hmac_fn \<Rightarrow> bytes \<Rightarrow> bytes \<Rightarrow> bytes \<Rightarrow> 8 word \<Rightarrow> nat \<Rightarrow> bytes" where
  "expand_loop hmac prk info prev counter 0 = []"
| "expand_loop hmac prk info prev counter (Suc k) =
     (let tag = hmac prk (prev @ info @ [counter]) in tag @ expand_loop hmac prk info tag (counter + 1) k)"

definition hkdf_expand :: "hmac_fn \<Rightarrow> bytes \<Rightarrow> bytes \<Rightarrow> nat \<Rightarrow> bytes" where
  "hkdf_expand hmac prk info n = take n (expand_loop hmac prk info [] 1 ((n + 31) div 32))"

definition hkdf_label :: "str \<Rightarrow> bytes \<Rightarrow> nat \<Rightarrow> bytes" where
  "hkdf_label label context n =
     (let label_bytes = as_bytes (''tls13 '' @ label)
      in [word_of_nat (n div 256), word_of_nat n, word_of_nat (length label_bytes)] @ label_bytes
         @ [word_of_nat (length context)] @ context)"

definition hkdf_expand_label :: "hmac_fn \<Rightarrow> bytes \<Rightarrow> str \<Rightarrow> bytes \<Rightarrow> nat \<Rightarrow> bytes" where
  "hkdf_expand_label hmac secret label context n = hkdf_expand hmac secret (hkdf_label label context n) n"

definition derive_secret :: "hmac_fn \<Rightarrow> bytes \<Rightarrow> str \<Rightarrow> bytes \<Rightarrow> bytes" where
  "derive_secret hmac secret label transcript_hash = hkdf_expand_label hmac secret label transcript_hash 32"

subsection \<open>Key schedule\<close>

record handshake_keys =
  hk_client :: traffic_keys
  hk_server :: traffic_keys
  client_finished_key :: bytes
  server_finished_key :: bytes
  handshake_secret :: bytes

datatype cipher_suite = Aes128Gcm | Aes256Gcm | ChaCha20Poly1305

fun key_len :: "cipher_suite \<Rightarrow> nat" where
  "key_len Aes128Gcm = 16"
| "key_len Aes256Gcm = 32"
| "key_len ChaCha20Poly1305 = 32"

fun wire_id :: "cipher_suite \<Rightarrow> nat" where
  "wire_id Aes128Gcm = 0x1301"
| "wire_id Aes256Gcm = 0x1302"
| "wire_id ChaCha20Poly1305 = 0x1303"

record key_schedule =
  ks_suite :: cipher_suite
  early_secret :: bytes

definition new_schedule :: "hmac_fn \<Rightarrow> cipher_suite \<Rightarrow> bytes \<Rightarrow> key_schedule" where
  "new_schedule hmac suite psk = \<lparr>ks_suite = suite, early_secret = hkdf_extract hmac ZEROS_32 psk\<rparr>"

definition derive_traffic_keys :: "hmac_fn \<Rightarrow> key_schedule \<Rightarrow> bytes \<Rightarrow> traffic_keys" where
  "derive_traffic_keys hmac ks traffic_secret =
     \<lparr>tk_key = hkdf_expand_label hmac traffic_secret ''key'' [] (key_len (ks_suite ks)),
      tk_iv = hkdf_expand_label hmac traffic_secret ''iv'' [] 12\<rparr>"

definition finished_key :: "hmac_fn \<Rightarrow> bytes \<Rightarrow> bytes" where
  "finished_key hmac traffic_secret = hkdf_expand_label hmac traffic_secret ''finished'' [] 32"

definition derive_handshake_keys :: "hmac_fn \<Rightarrow> key_schedule \<Rightarrow> bytes \<Rightarrow> bytes \<Rightarrow> handshake_keys" where
  "derive_handshake_keys hmac ks ecdh_secret transcript_hash =
     (let derived_secret = derive_secret hmac (early_secret ks) ''derived'' (replicate 32 0);
          hs_secret = hkdf_extract hmac derived_secret ecdh_secret;
          client_hs_secret = derive_secret hmac hs_secret ''c hs traffic'' transcript_hash;
          server_hs_secret = derive_secret hmac hs_secret ''s hs traffic'' transcript_hash
      in \<lparr>hk_client = derive_traffic_keys hmac ks client_hs_secret, hk_server = derive_traffic_keys hmac ks server_hs_secret,
          client_finished_key = finished_key hmac client_hs_secret, server_finished_key = finished_key hmac server_hs_secret,
          handshake_secret = hs_secret\<rparr>)"

definition derive_app_keys :: "hmac_fn \<Rightarrow> key_schedule \<Rightarrow> bytes \<Rightarrow> bytes \<Rightarrow> app_keys" where
  "derive_app_keys hmac ks hs_secret transcript_hash =
     (let derived = derive_secret hmac hs_secret ''derived'' (replicate 32 0);
          master_secret = hkdf_extract hmac derived ZEROS_32
      in \<lparr>ak_client = derive_traffic_keys hmac ks (derive_secret hmac master_secret ''c ap traffic'' transcript_hash),
          ak_server = derive_traffic_keys hmac ks (derive_secret hmac master_secret ''s ap traffic'' transcript_hash),
          ak_master = master_secret\<rparr>)"

subsection \<open>Record layer\<close>

datatype content_type = ChangeCipherSpec | Alert | Handshake | ApplicationData | UnknownType "8 word"

definition ct_from_byte :: "8 word \<Rightarrow> content_type" where
  "ct_from_byte b = (if b = 20 then ChangeCipherSpec else if b = 21 then Alert else if b = 22 then Handshake
     else if b = 23 then ApplicationData else UnknownType b)"

fun ct_as_byte :: "content_type \<Rightarrow> 8 word" where
  "ct_as_byte ChangeCipherSpec = 20"
| "ct_as_byte Alert = 21"
| "ct_as_byte Handshake = 22"
| "ct_as_byte ApplicationData = 23"
| "ct_as_byte (UnknownType b) = b"

datatype record_error = RecTruncated | AeadDecryptFailed | AeadEncryptFailed | RecordTooBig | UnexpectedContentType "8 word"

fun record_error_str :: "record_error \<Rightarrow> str" where
  "record_error_str RecTruncated = ''TLS record truncated''"
| "record_error_str AeadDecryptFailed = ''AEAD decrypt failed''"
| "record_error_str AeadEncryptFailed = ''AEAD encrypt failed''"
| "record_error_str RecordTooBig = ''TLS record too large''"
| "record_error_str (UnexpectedContentType t) = ''unexpected content type: '' @ dec_digits (unat t)"

text \<open>An AEAD: key, nonce, associated data and text; sealing appends a tag of 16 bytes.\<close>

record aead =
  ae_seal :: "bytes \<Rightarrow> bytes \<Rightarrow> bytes \<Rightarrow> bytes \<Rightarrow> bytes option"
  ae_open :: "bytes \<Rightarrow> bytes \<Rightarrow> bytes \<Rightarrow> bytes \<Rightarrow> bytes option"

record record_layer =
  write_key :: bytes
  read_key :: bytes
  write_iv :: bytes
  read_iv :: bytes
  write_seq :: "64 word"
  read_seq :: "64 word"

text \<open>\<open>UnboundKey::new\<close> rejects a key of the wrong length; an initialisation vector of another length than 12 panics.\<close>

definition new_layer :: "cipher_suite \<Rightarrow> traffic_keys \<Rightarrow> traffic_keys \<Rightarrow> (record_error + record_layer) option" where
  "new_layer suite wk rk =
     (if length (tk_key wk) \<noteq> key_len suite then Some (Inl AeadEncryptFailed)
      else if length (tk_key rk) \<noteq> key_len suite then Some (Inl AeadDecryptFailed)
      else if length (tk_iv wk) \<noteq> 12 \<or> length (tk_iv rk) \<noteq> 12 then None
      else Some (Inr \<lparr>write_key = tk_key wk, read_key = tk_key rk, write_iv = tk_iv wk, read_iv = tk_iv rk, write_seq = 0, read_seq = 0\<rparr>))"

definition build_nonce :: "64 word \<Rightarrow> bytes \<Rightarrow> bytes" where
  "build_nonce sq iv = take 4 iv @ map2 (XOR) (drop 4 iv) (be_bytes64 sq)"

definition record_header :: "nat \<Rightarrow> bytes" where
  "record_header n = [0x17, 0x03, 0x03, word_of_nat (n div 256), word_of_nat n]"

definition seal_record :: "aead \<Rightarrow> record_layer \<Rightarrow> content_type \<Rightarrow> bytes \<Rightarrow> (record_error + bytes) \<times> record_layer" where
  "seal_record a l ct plain =
     (if length plain > 2 ^ 14 then (Inl RecordTooBig, l)
      else let plaintext = plain @ [ct_as_byte ct];
               encrypted_len = length plaintext + 16
           in case ae_seal a (write_key l) (build_nonce (write_seq l) (write_iv l)) (record_header encrypted_len) plaintext of
                None \<Rightarrow> (Inl AeadEncryptFailed, l)
              | Some c \<Rightarrow> (Inr (record_header (length c) @ c), l\<lparr>write_seq := write_seq l + 1\<rparr>))"

definition open_record :: "aead \<Rightarrow> record_layer \<Rightarrow> bytes \<Rightarrow> (record_error + content_type \<times> bytes) \<times> record_layer" where
  "open_record a l rec =
     (if length rec < 5 then (Inl RecTruncated, l)
      else let payload_len = 256 * unat (rec ! 3) + unat (rec ! 4)
           in if length rec < 5 + payload_len then (Inl RecTruncated, l)
              else case ae_open a (read_key l) (build_nonce (read_seq l) (read_iv l)) (take 5 rec) (take payload_len (drop 5 rec)) of
                     None \<Rightarrow> (Inl AeadDecryptFailed, l)
                   | Some plaintext \<Rightarrow>
                       (let l' = l\<lparr>read_seq := read_seq l + 1\<rparr>
                        in if plaintext = [] then (Inl RecTruncated, l')
                           else (Inr (ct_from_byte (last plaintext), butlast plaintext), l')))"

subsection \<open>Handshake messages\<close>

datatype tls_error = TNeedMore | TProtocol str | TCrypto

datatype 'a tls_result = TOk 'a | TErr tls_error | TPanic

definition MSG_CLIENT_HELLO :: "8 word" where "MSG_CLIENT_HELLO = 1"
definition MSG_SERVER_HELLO :: "8 word" where "MSG_SERVER_HELLO = 2"
definition MSG_ENCRYPTED_EXTS :: "8 word" where "MSG_ENCRYPTED_EXTS = 8"
definition MSG_CERTIFICATE :: "8 word" where "MSG_CERTIFICATE = 11"
definition MSG_CERTIFICATE_VERIFY :: "8 word" where "MSG_CERTIFICATE_VERIFY = 15"
definition MSG_FINISHED :: "8 word" where "MSG_FINISHED = 20"

definition EXT_SUPPORTED_VERSIONS :: nat where "EXT_SUPPORTED_VERSIONS = 43"
definition EXT_KEY_SHARE :: nat where "EXT_KEY_SHARE = 51"
definition EXT_SIGNATURE_ALGORITHMS :: nat where "EXT_SIGNATURE_ALGORITHMS = 13"
definition GROUP_X25519 :: nat where "GROUP_X25519 = 0x001d"
definition SIG_ECDSA_P256_SHA256 :: nat where "SIG_ECDSA_P256_SHA256 = 0x0403"
definition TLS_1_3 :: nat where "TLS_1_3 = 0x0304"

text \<open>\<open>(n as u16).to_be_bytes()\<close> and the three-byte lengths.\<close>

definition be16 :: "nat \<Rightarrow> bytes" where
  "be16 n = [word_of_nat (n div 256), word_of_nat n]"

definition be24 :: "nat \<Rightarrow> bytes" where
  "be24 n = [word_of_nat (n div 65536), word_of_nat (n div 256), word_of_nat n]"

definition handshake_message :: "8 word \<Rightarrow> bytes \<Rightarrow> bytes" where
  "handshake_message ty body = ty # be24 (length body) @ body"

definition wrap_handshake_record :: "bytes \<Rightarrow> bytes" where
  "wrap_handshake_record msg = [0x16, 0x03, 0x03] @ be16 (length msg) @ msg"

definition extension :: "nat \<Rightarrow> bytes \<Rightarrow> bytes" where
  "extension ty data = be16 ty @ be16 (length data) @ data"

definition client_extensions :: "bytes \<Rightarrow> bytes" where
  "client_extensions our_pub =
     extension EXT_SUPPORTED_VERSIONS ([2] @ be16 TLS_1_3)
     @ extension EXT_SUPPORTED_GROUPS ([0, 2] @ be16 GROUP_X25519)
     @ extension EXT_KEY_SHARE ([0, word_of_nat (4 + length our_pub)] @ be16 GROUP_X25519 @ be16 (length our_pub) @ our_pub)
     @ extension EXT_SIGNATURE_ALGORITHMS ([0, 2] @ be16 SIG_ECDSA_P256_SHA256)"

definition build_client_hello :: "bytes \<Rightarrow> cipher_suite \<Rightarrow> bytes" where
  "build_client_hello our_pub suite =
     (let exts = client_extensions our_pub
      in handshake_message MSG_CLIENT_HELLO
           ([3, 3] @ replicate 32 0 @ [0] @ [0, 2] @ be16 (wire_id suite) @ [1, 0] @ be16 (length exts) @ exts))"

definition server_extensions :: "bytes \<Rightarrow> bytes" where
  "server_extensions our_pub =
     extension EXT_SUPPORTED_VERSIONS [3, 4]
     @ extension EXT_KEY_SHARE (be16 GROUP_X25519 @ be16 (length our_pub) @ our_pub)"

definition build_server_hello :: "bytes \<Rightarrow> cipher_suite \<Rightarrow> bytes" where
  "build_server_hello our_pub suite =
     (let exts = server_extensions our_pub
      in handshake_message MSG_SERVER_HELLO
           ([3, 3] @ replicate 32 0 @ [0] @ be16 (wire_id suite) @ [0] @ be16 (length exts) @ exts))"

definition build_certificate :: "bytes \<Rightarrow> bytes" where
  "build_certificate cert_der =
     handshake_message MSG_CERTIFICATE
       ([0] @ be24 (3 + length cert_der + 2) @ be24 (length cert_der) @ cert_der @ [0, 0])"

definition cert_verify_content :: "bytes \<Rightarrow> bytes" where
  "cert_verify_content transcript_hash =
     replicate 64 0x20 @ as_bytes ''TLS 1.3, server CertificateVerify'' @ [0] @ transcript_hash"

definition build_cert_verify :: "(bytes \<Rightarrow> bytes option) \<Rightarrow> bytes \<Rightarrow> bytes tls_result" where
  "build_cert_verify sign transcript_hash =
     (case sign (cert_verify_content transcript_hash) of
        None \<Rightarrow> TErr (TProtocol ''signing failed'')
      | Some sig \<Rightarrow> TOk (handshake_message MSG_CERTIFICATE_VERIFY (be16 SIG_ECDSA_P256_SHA256 @ be16 (length sig) @ sig)))"

definition build_finished :: "hmac_fn \<Rightarrow> bytes \<Rightarrow> bytes \<Rightarrow> bytes" where
  "build_finished hmac fin_key transcript_hash = handshake_message MSG_FINISHED (hmac fin_key transcript_hash)"

text \<open>The type and the body of the first message.\<close>

definition parse_handshake_message :: "bytes \<Rightarrow> (8 word \<times> bytes) tls_result" where
  "parse_handshake_message data =
     (if length data < 4 then TErr TNeedMore
      else let n = 65536 * unat (data ! 1) + 256 * unat (data ! 2) + unat (data ! 3)
           in if length data < 4 + n then TErr TNeedMore else TOk (data ! 0, sub_slice 4 (4 + n) data))"

definition u16_get :: "bytes \<Rightarrow> nat \<Rightarrow> nat option" where
  "u16_get body p = (if p + 1 < length body then Some (u16_at body p) else None)"

text \<open>The list of key shares between \<open>lp\<close> and \<open>bnd\<close>; \<open>TOk None\<close> when none fits.\<close>

function share_loop :: "bytes \<Rightarrow> nat \<Rightarrow> nat \<Rightarrow> bytes option tls_result" where
  "share_loop body bnd lp =
     (if lp + 4 \<le> bnd
      then case u16_get body lp of None \<Rightarrow> TPanic | Some grp \<Rightarrow>
           case u16_get body (lp + 2) of None \<Rightarrow> TPanic | Some klen \<Rightarrow>
             if grp = GROUP_X25519 \<and> lp + 4 + klen \<le> length body
             then TOk (Some (sub_slice (lp + 4) (lp + 4 + klen) body))
             else share_loop body bnd (lp + 4 + klen)
      else TOk None)"
  by auto
termination
  by (relation "measure (\<lambda>(body, bnd, lp). bnd - lp)") auto

declare share_loop.simps [simp del]

function client_ext_loop :: "bytes \<Rightarrow> nat \<Rightarrow> nat \<Rightarrow> bytes tls_result" where
  "client_ext_loop body ext_end p =
     (if p + 4 \<le> ext_end
      then case u16_get body p of None \<Rightarrow> TPanic | Some ext_type \<Rightarrow>
           case u16_get body (p + 2) of None \<Rightarrow> TPanic | Some ext_len \<Rightarrow>
             if ext_type = EXT_KEY_SHARE \<and> ext_len \<ge> 4
             then case u16_get body (p + 4) of None \<Rightarrow> TPanic | Some list_len \<Rightarrow>
                  case share_loop body (p + 6 + list_len) (p + 6) of
                    TOk (Some k) \<Rightarrow> TOk k
                  | TOk None \<Rightarrow> client_ext_loop body ext_end (p + 4 + ext_len)
                  | TErr e \<Rightarrow> TErr e
                  | TPanic \<Rightarrow> TPanic
             else client_ext_loop body ext_end (p + 4 + ext_len)
      else TErr (TProtocol ''no X25519 key share in ClientHello''))"
  by auto
termination
  by (relation "measure (\<lambda>(body, ext_end, p). ext_end - p)") auto

declare client_ext_loop.simps [simp del]

definition parse_client_hello_key_share :: "bytes \<Rightarrow> bytes tls_result" where
  "parse_client_hello_key_share body =
     (if length body < 39 then TErr (TProtocol ''ClientHello too short'')
      else let p1 = 35 + unat (body ! 34)
           in if p1 + 2 > length body then TErr (TProtocol ''ClientHello truncated'')
              else let p2 = p1 + 2 + u16_at body p1
                   in if p2 + 1 > length body then TErr (TProtocol ''no compression'')
                      else let p3 = p2 + 1 + unat (body ! p2)
                           in if p3 + 2 > length body then TErr (TProtocol ''no extensions'')
                              else client_ext_loop body (p3 + 2 + u16_at body p3) (p3 + 2))"

function server_ext_loop :: "bytes \<Rightarrow> nat \<Rightarrow> nat \<Rightarrow> bytes tls_result" where
  "server_ext_loop body ext_end p =
     (if p + 4 \<le> ext_end
      then case u16_get body p of None \<Rightarrow> TPanic | Some ext_type \<Rightarrow>
           case u16_get body (p + 2) of None \<Rightarrow> TPanic | Some elen \<Rightarrow>
             if ext_type = EXT_KEY_SHARE \<and> elen \<ge> 4
             then case u16_get body (p + 4) of None \<Rightarrow> TPanic | Some _ \<Rightarrow>
                  case u16_get body (p + 6) of None \<Rightarrow> TPanic | Some klen \<Rightarrow>
                    if p + 8 + klen \<le> length body then TOk (sub_slice (p + 8) (p + 8 + klen) body) else TPanic
             else server_ext_loop body ext_end (p + 4 + elen)
      else TErr (TProtocol ''no key_share in ServerHello''))"
  by auto
termination
  by (relation "measure (\<lambda>(body, ext_end, p). ext_end - p)") auto

declare server_ext_loop.simps [simp del]

definition parse_server_hello_key_share :: "bytes \<Rightarrow> bytes tls_result" where
  "parse_server_hello_key_share body =
     (if length body < 38 then TErr (TProtocol ''ServerHello too short'')
      else let p = 35 + unat (body ! 34) + 2 + 1
           in if p + 2 > length body then TErr (TProtocol ''ServerHello truncated'')
              else server_ext_loop body (p + 2 + u16_at body p) (p + 2))"

subsection \<open>The server\<close>

text \<open>
  The primitives: HMAC, the digest of a transcript, the agreement of a private key with a
  public one, and the certificate's signature. A generated key pair is an argument, \<open>None\<close>
  when the generation fails.
\<close>

record 'k crypto =
  cr_hmac :: hmac_fn
  cr_digest :: "bytes \<Rightarrow> bytes"
  cr_agree :: "'k \<Rightarrow> bytes \<Rightarrow> bytes option"
  cr_sign :: "bytes \<Rightarrow> bytes option"

datatype server_state =
    ExpectClientHello
  | SentServerHello handshake_keys
  | SentCertificate handshake_keys
  | SentFinished app_keys
  | HsComplete app_keys

record server_handshake =
  sh_state :: server_state
  sh_transcript :: bytes
  sh_cert :: bytes
  sh_suite :: cipher_suite
  sh_ja3 :: "fingerprint option"

definition new_server :: "bytes \<Rightarrow> server_handshake" where
  "new_server cert_der = \<lparr>sh_state = ExpectClientHello, sh_transcript = [], sh_cert = cert_der, sh_suite = Aes128Gcm, sh_ja3 = None\<rparr>"

text \<open>The flight after the ServerHello and the transcript after it.\<close>

definition server_flight :: "'k crypto \<Rightarrow> bytes \<Rightarrow> bytes \<Rightarrow> bytes \<Rightarrow> (bytes \<times> bytes) tls_result" where
  "server_flight c cert fin_key transcript =
     (let ee = handshake_message MSG_ENCRYPTED_EXTS [0, 0];
          cert_msg = build_certificate cert;
          t1 = transcript @ ee @ cert_msg
      in case build_cert_verify (cr_sign c) (cr_digest c t1) of
           TOk cv \<Rightarrow>
             (let fin = build_finished (cr_hmac c) fin_key (cr_digest c (t1 @ cv))
              in TOk (ee @ cert_msg @ cv @ fin, t1 @ cv @ fin))
         | TErr e \<Rightarrow> TErr e
         | TPanic \<Rightarrow> TPanic)"

text \<open>A failed call leaves the fingerprint and what it had added to the transcript.\<close>

definition handle_client_hello ::
  "'k crypto \<Rightarrow> ('k \<times> bytes) option \<Rightarrow> server_handshake \<Rightarrow> bytes \<Rightarrow> bytes tls_result \<times> server_handshake" where
  "handle_client_hello c kp s data =
     (case from_record data of PPanic \<Rightarrow> (TPanic, s) | fp \<Rightarrow>
      let s0 = s\<lparr>sh_ja3 := (case fp of POk f \<Rightarrow> Some f | _ \<Rightarrow> None)\<rparr>
      in case parse_handshake_message data of TErr e \<Rightarrow> (TErr e, s0) | TPanic \<Rightarrow> (TPanic, s0) | TOk (ty, body) \<Rightarrow>
         if ty \<noteq> MSG_CLIENT_HELLO then (TErr (TProtocol ''expected ClientHello''), s0)
         else let t0 = sh_transcript s0 @ data; s1 = s0\<lparr>sh_transcript := t0\<rparr>
              in case parse_client_hello_key_share body of TErr e \<Rightarrow> (TErr e, s1) | TPanic \<Rightarrow> (TPanic, s1) | TOk client_pub \<Rightarrow>
                 case kp of None \<Rightarrow> (TErr TCrypto, s1) | Some (our_priv, our_pub) \<Rightarrow>
                 case cr_agree c our_priv client_pub of None \<Rightarrow> (TErr TCrypto, s1) | Some shared \<Rightarrow>
                   (let server_hello = build_server_hello our_pub (sh_suite s);
                        t1 = t0 @ server_hello;
                        ks = new_schedule (cr_hmac c) (sh_suite s) [];
                        hs = derive_handshake_keys (cr_hmac c) ks shared (cr_digest c t1)
                    in case server_flight c (sh_cert s) (server_finished_key hs) t1 of
                         TErr e \<Rightarrow> (TErr e, s1\<lparr>sh_transcript := t1\<rparr>)
                       | TPanic \<Rightarrow> (TPanic, s1\<lparr>sh_transcript := t1\<rparr>)
                       | TOk (flight, t2) \<Rightarrow>
                           (TOk (wrap_handshake_record server_hello @ flight),
                            s1\<lparr>sh_transcript := t2,
                               sh_state := SentFinished (derive_app_keys (cr_hmac c) ks (handshake_secret hs) (cr_digest c t2))\<rparr>)))"

definition handle_client_finished :: "server_handshake \<Rightarrow> bytes \<Rightarrow> bytes tls_result \<times> server_handshake" where
  "handle_client_finished s data =
     (case sh_state s of
        SentFinished keys \<Rightarrow> (TOk [], s\<lparr>sh_state := HsComplete keys\<rparr>)
      | _ \<Rightarrow> (TErr (TProtocol ''unexpected state for client Finished''), s\<lparr>sh_state := ExpectClientHello\<rparr>))"

definition server_process ::
  "'k crypto \<Rightarrow> ('k \<times> bytes) option \<Rightarrow> server_handshake \<Rightarrow> bytes \<Rightarrow> bytes tls_result \<times> server_handshake" where
  "server_process c kp s input =
     (case sh_state s of
        ExpectClientHello \<Rightarrow> handle_client_hello c kp s input
      | SentFinished _ \<Rightarrow> handle_client_finished s input
      | _ \<Rightarrow> (TOk [], s))"

definition take_app_keys :: "server_handshake \<Rightarrow> app_keys option" where
  "take_app_keys s = (case sh_state s of HsComplete keys \<Rightarrow> Some keys | _ \<Rightarrow> None)"

definition ja3_threat :: "server_handshake \<Rightarrow> threat_match option" where
  "ja3_threat s = Option.bind (sh_ja3 s) lookup_threat"

subsection \<open>The client\<close>

record 'k client_handshake =
  ch_transcript :: bytes
  ch_suite :: cipher_suite
  our_priv :: "'k option"
  ch_ks :: "key_schedule option"
  ch_hs_keys :: "handshake_keys option"

definition new_client :: "'k client_handshake" where
  "new_client = \<lparr>ch_transcript = [], ch_suite = Aes128Gcm, our_priv = None, ch_ks = None, ch_hs_keys = None\<rparr>"

definition client_hello :: "('k \<times> bytes) option \<Rightarrow> 'k client_handshake \<Rightarrow> bytes tls_result \<times> 'k client_handshake" where
  "client_hello kp h =
     (case kp of
        None \<Rightarrow> (TErr TCrypto, h)
      | Some (priv, our_pub) \<Rightarrow>
          (let msg = build_client_hello our_pub (ch_suite h)
           in (TOk (wrap_handshake_record msg), h\<lparr>our_priv := Some priv, ch_transcript := ch_transcript h @ msg\<rparr>)))"

definition process_server_hello :: "'k crypto \<Rightarrow> 'k client_handshake \<Rightarrow> bytes \<Rightarrow> handshake_keys tls_result \<times> 'k client_handshake" where
  "process_server_hello c h server_hello_msg =
     (case parse_handshake_message server_hello_msg of TErr e \<Rightarrow> (TErr e, h) | TPanic \<Rightarrow> (TPanic, h) | TOk (ty, body) \<Rightarrow>
      if ty \<noteq> MSG_SERVER_HELLO then (TErr (TProtocol ''expected ServerHello''), h)
      else let h1 = h\<lparr>ch_transcript := ch_transcript h @ server_hello_msg\<rparr>
           in case parse_server_hello_key_share body of TErr e \<Rightarrow> (TErr e, h1) | TPanic \<Rightarrow> (TPanic, h1) | TOk server_pub \<Rightarrow>
              case our_priv h1 of None \<Rightarrow> (TErr (TProtocol ''process_server_hello called before build_client_hello''), h1) | Some priv \<Rightarrow>
                (let h2 = h1\<lparr>our_priv := None\<rparr>
                 in case cr_agree c priv server_pub of None \<Rightarrow> (TErr TCrypto, h2) | Some shared \<Rightarrow>
                    (let ks = new_schedule (cr_hmac c) (ch_suite h) [];
                         hs = derive_handshake_keys (cr_hmac c) ks shared (cr_digest c (ch_transcript h1))
                     in (TOk hs, h2\<lparr>ch_ks := Some ks, ch_hs_keys := Some hs\<rparr>))))"

definition build_client_finished ::
  "'k crypto \<Rightarrow> 'k client_handshake \<Rightarrow> bytes \<Rightarrow> (bytes \<times> app_keys) tls_result \<times> 'k client_handshake" where
  "build_client_finished c h decrypted_flight =
     (case ch_hs_keys h of None \<Rightarrow> (TErr (TProtocol ''build_client_finished called before process_server_hello''), h) | Some hs \<Rightarrow>
      case ch_ks h of None \<Rightarrow> (TErr (TProtocol ''key schedule missing''), h\<lparr>ch_hs_keys := None\<rparr>) | Some ks \<Rightarrow>
        (let t1 = ch_transcript h @ decrypted_flight;
             fin = build_finished (cr_hmac c) (client_finished_key hs) (cr_digest c t1);
             t2 = t1 @ fin
         in (TOk (wrap_handshake_record fin, derive_app_keys (cr_hmac c) ks (handshake_secret hs) (cr_digest c t2)),
             h\<lparr>ch_transcript := t2, ch_ks := None, ch_hs_keys := None\<rparr>)))"

definition process_server_flight ::
  "'k crypto \<Rightarrow> 'k client_handshake \<Rightarrow> bytes \<Rightarrow> bytes \<Rightarrow> (bytes \<times> app_keys) tls_result \<times> 'k client_handshake" where
  "process_server_flight c h server_hello flight =
     (let h1 = h\<lparr>ch_transcript := ch_transcript h @ server_hello\<rparr>
      in case parse_handshake_message server_hello of TErr e \<Rightarrow> (TErr e, h1) | TPanic \<Rightarrow> (TPanic, h1) | TOk (_, body) \<Rightarrow>
         case parse_server_hello_key_share body of TErr e \<Rightarrow> (TErr e, h1) | TPanic \<Rightarrow> (TPanic, h1) | TOk server_pub \<Rightarrow>
         case our_priv h1 of None \<Rightarrow> (TErr (TProtocol ''no private key''), h1) | Some priv \<Rightarrow>
           (let h2 = h1\<lparr>our_priv := None\<rparr>
            in case cr_agree c priv server_pub of None \<Rightarrow> (TErr TCrypto, h2) | Some shared \<Rightarrow>
               (let ks = new_schedule (cr_hmac c) (ch_suite h) [];
                    hs = derive_handshake_keys (cr_hmac c) ks shared (cr_digest c (ch_transcript h1));
                    t1 = ch_transcript h1 @ flight;
                    fin = build_finished (cr_hmac c) (client_finished_key hs) (cr_digest c t1);
                    t2 = t1 @ fin
                in (TOk (wrap_handshake_record fin, derive_app_keys (cr_hmac c) ks (handshake_secret hs) (cr_digest c t2)),
                    h2\<lparr>ch_transcript := t2\<rparr>))))"


subsection \<open>The handshake driver of the pool\<close>

text \<open>
  \<open>run_client_tls_handshake\<close> of \<open>pool/connection.rs\<close> on a stream: the bytes the
  server will send are a list; the sizes of the writes are not limited, and the two flags
  say whether the two writes succeed. The result has the error of the code, or the keys
  with the encrypted Finished record; a panic is \<open>TPanic\<close>.
\<close>

lemma read_tls_record_shrinks: "read_tls_record input = (Inr x, rest) \<Longrightarrow> length rest < length input"
  by (auto simp: read_tls_record_def Let_def split: if_splits)

function server_hello_loop :: "bytes \<Rightarrow> str + bytes \<times> bytes" where
  "server_hello_loop input =
     (case read_tls_record input of
        (Inl e, rest) \<Rightarrow> Inl ''read ServerHello record''
      | (Inr (rec_type, rec), rest) \<Rightarrow>
          if rec_type = 0x14 then server_hello_loop rest
          else if rec_type = 0x15 then Inl ''TLS alert before ServerHello''
          else if rec_type = 0x16 then Inr (drop 5 rec, rest)
          else Inl ''unexpected record type before ServerHello'')"
  by auto
termination
  by (relation "measure length") (auto dest: read_tls_record_shrinks [OF sym])

declare server_hello_loop.simps [simp del]

function flight_loop :: "aead \<Rightarrow> record_layer \<Rightarrow> bytes \<Rightarrow> bytes \<Rightarrow> str + bytes \<times> record_layer" where
  "flight_loop a rl flight input =
     (case read_tls_record input of
        (Inl e, rest) \<Rightarrow> Inl ''read server encrypted flight''
      | (Inr (rec_type, rec), rest) \<Rightarrow>
          if rec_type = 0x14 then flight_loop a rl flight rest
          else if rec_type = 0x15 then Inl ''TLS alert in server flight''
          else if rec_type = 0x17
          then (case open_record a rl rec of
                  (Inl e, rl') \<Rightarrow> Inl ''decrypt server flight record''
                | (Inr (inner_type, plain), rl') \<Rightarrow>
                    if inner_type = Alert then Inl ''TLS alert (encrypted) in server flight''
                    else let flight' = (if inner_type = Handshake then flight @ plain else flight)
                         in if has_finished_msg flight' then Inr (flight', rl')
                            else if length flight' > 131072 then Inl ''server handshake flight too large''
                            else flight_loop a rl' flight' rest)
          else Inl ''unexpected outer record type in server flight'')"
  by auto
termination
  by (relation "measure (\<lambda>(a, rl, flight, input). length input)") (auto dest: read_tls_record_shrinks [OF sym])

declare flight_loop.simps [simp del]

definition run_client_tls_handshake ::
  "'k crypto \<Rightarrow> aead \<Rightarrow> ('k \<times> bytes) option \<Rightarrow> bool \<Rightarrow> bool \<Rightarrow> bytes \<Rightarrow> (str + bytes \<times> app_keys) tls_result" where
  "run_client_tls_handshake c a kp write_ok1 write_ok2 input =
     (case client_hello kp new_client of
        (TOk hello, h0) \<Rightarrow>
          if \<not> write_ok1 then TOk (Inl ''send ClientHello'')
          else (case server_hello_loop input of Inl e \<Rightarrow> TOk (Inl e) | Inr (server_hello_msg, rest) \<Rightarrow>
                case process_server_hello c h0 server_hello_msg of
                  (TErr e, h) \<Rightarrow> TOk (Inl ''process_server_hello'')
                | (TPanic, h) \<Rightarrow> TPanic
                | (TOk hs_keys, h) \<Rightarrow>
                    (case new_layer Aes128Gcm (hk_client hs_keys) (hk_server hs_keys) of
                       None \<Rightarrow> TPanic
                     | Some (Inl e) \<Rightarrow> TOk (Inl ''RecordLayer::new'')
                     | Some (Inr rl) \<Rightarrow>
                         (case flight_loop a rl [] rest of Inl e \<Rightarrow> TOk (Inl e) | Inr (decrypted_flight, rl') \<Rightarrow>
                          case build_client_finished c h decrypted_flight of
                            (TErr e, h') \<Rightarrow> TOk (Inl ''build_client_finished'')
                          | (TPanic, h') \<Rightarrow> TPanic
                          | (TOk (fin_wrapped, app_keys), h') \<Rightarrow>
                              if length fin_wrapped \<le> 5 then TOk (Inl ''ClientFinished record unexpectedly short'')
                              else (case seal_record a rl' Handshake (drop 5 fin_wrapped) of
                                      (Inl e, l) \<Rightarrow> TOk (Inl ''seal ClientFinished'')
                                    | (Inr fin_encrypted, l) \<Rightarrow>
                                        if \<not> write_ok2 then TOk (Inl ''send ClientFinished'') else TOk (Inr (fin_encrypted, app_keys))))))
      | (_, h0) \<Rightarrow> TOk (Inl ''build_client_hello''))"

subsection \<open>Records\<close>

text \<open>
  What \<open>ring\<close> documents of its AEAD algorithms: sealing a plaintext of a record's size
  succeeds and appends a tag of 16 bytes, and opening under the same key, nonce and
  associated data gives the plaintext back.
\<close>

definition aead_laws :: "aead \<Rightarrow> bool" where
  "aead_laws a = (\<forall>k n d p. length p \<le> 2 ^ 14 + 1 \<longrightarrow>
     (\<exists>c. ae_seal a k n d p = Some c \<and> length c = length p + 16 \<and> ae_open a k n d c = Some p))"

definition peers :: "record_layer \<Rightarrow> record_layer \<Rightarrow> bool" where
  "peers s r = (write_key s = read_key r \<and> write_iv s = read_iv r \<and> write_seq s = read_seq r)"

text \<open>The messages of one direction of a connection, sealed and opened in order.\<close>

fun seal_all :: "aead \<Rightarrow> record_layer \<Rightarrow> (content_type \<times> bytes) list \<Rightarrow> (record_error + bytes) list" where
  "seal_all a l [] = []"
| "seal_all a l ((ct, p) # ms) = (case seal_record a l ct p of (x, l') \<Rightarrow> x # seal_all a l' ms)"

fun open_all :: "aead \<Rightarrow> record_layer \<Rightarrow> bytes list \<Rightarrow> (record_error + content_type \<times> bytes) list" where
  "open_all a l [] = []"
| "open_all a l (x # xs) = (case open_record a l x of (y, l') \<Rightarrow> y # open_all a l' xs)"

definition sendable :: "content_type \<times> bytes \<Rightarrow> bool" where
  "sendable m = (ct_from_byte (ct_as_byte (fst m)) = fst m \<and> length (snd m) \<le> 2 ^ 14)"

lemma u16_bytes: "n < 65536 \<Longrightarrow> 256 * unat (word_of_nat (n div 256) :: byte) + unat (word_of_nat n :: byte) = n"
  by (simp add: unat_of_nat)

lemma seal_open_record:
  assumes "aead_laws a" and "peers s r" and "sendable (ct, p)"
  shows "\<exists>x s' r'. seal_record a s ct p = (Inr x, s') \<and> open_record a r x = (Inr (ct, p), r') \<and> peers s' r'"
proof -
  define n where "n = length p + 17"
  let ?key = "write_key s" and ?nonce = "build_nonce (write_seq s) (write_iv s)"
  have len: "length (p @ [ct_as_byte ct]) \<le> 2 ^ 14 + 1" using assms(3) by (simp add: sendable_def)
  obtain c where c: "ae_seal a ?key ?nonce (record_header n) (p @ [ct_as_byte ct]) = Some c"
    "length c = n" "ae_open a ?key ?nonce (record_header n) c = Some (p @ [ct_as_byte ct])"
    using assms(1) len unfolding aead_laws_def n_def by fastforce
  have u: "256 * unat (word_of_nat (n div 256) :: byte) + unat (word_of_nat n :: byte) = n"
    using u16_bytes [of n] len by (simp add: n_def del: of_nat_add)
  have "seal_record a s ct p = (Inr (record_header n @ c), s\<lparr>write_seq := write_seq s + 1\<rparr>)"
    using c(1,2) len by (simp add: seal_record_def n_def Let_def add.commute)
  moreover have "open_record a r (record_header n @ c) = (Inr (ct, p), r\<lparr>read_seq := read_seq r + 1\<rparr>)"
    using assms(2,3) c(2,3) u by (simp add: open_record_def record_header_def peers_def sendable_def Let_def)
  ultimately show ?thesis using assms(2) by (auto simp: peers_def)
qed

text \<open>
  C38: what one side of a connection seals, the other side opens: for every sequence of
  messages of at most 16384 bytes, opening the sealed records in order gives the content
  types and contents back, whatever the sequence numbers start at.
\<close>

theorem records_roundtrip:
  assumes "aead_laws a" and "peers s r" and "list_all sendable ms"
  shows "\<exists>xs. seal_all a s ms = map Inr xs \<and> open_all a r xs = map Inr ms"
  using assms(2,3)
proof (induction ms arbitrary: s r)
  case (Cons m ms)
  obtain ct p where m: "m = (ct, p)" by force
  obtain x s' r' where x: "seal_record a s ct p = (Inr x, s')" "open_record a r x = (Inr (ct, p), r')" "peers s' r'"
    using seal_open_record [OF assms(1) Cons.prems(1), of ct p] Cons.prems(2) m by auto
  obtain xs where "seal_all a s' ms = map Inr xs" "open_all a r' xs = map Inr ms" using Cons.IH [OF x(3)] Cons.prems(2) by auto
  then show ?case using x m by (intro exI [of _ "x # xs"]) simp
qed simp

text \<open>A toy cipher whose tag is the nonce, and two records sent over it.\<close>

definition tag_cipher :: aead where
  "tag_cipher = \<lparr>ae_seal = \<lambda>k n d p. Some (p @ take 16 (n @ replicate 16 0)),
     ae_open = \<lambda>k n d c. (if drop (length c - 16) c = take 16 (n @ replicate 16 0) then Some (take (length c - 16) c) else None)\<rparr>"

lemma tag_cipher_laws: "aead_laws tag_cipher"
  by (auto simp: aead_laws_def tag_cipher_def)

theorem records_roundtrip_witness:
  "\<exists>s r xs. new_layer Aes128Gcm \<lparr>tk_key = replicate 16 1, tk_iv = replicate 12 2\<rparr> \<lparr>tk_key = replicate 16 3, tk_iv = replicate 12 4\<rparr> = Some (Inr s)
    \<and> new_layer Aes128Gcm \<lparr>tk_key = replicate 16 3, tk_iv = replicate 12 4\<rparr> \<lparr>tk_key = replicate 16 1, tk_iv = replicate 12 2\<rparr> = Some (Inr r)
    \<and> seal_all tag_cipher s [(ApplicationData, [1, 2]), (Alert, [])] = map Inr xs
    \<and> open_all tag_cipher r xs = [Inr (ApplicationData, [1, 2]), Inr (Alert, [])]"
  using records_roundtrip [OF tag_cipher_laws,
      of "\<lparr>write_key = replicate 16 1, read_key = replicate 16 3, write_iv = replicate 12 2, read_iv = replicate 12 4, write_seq = 0, read_seq = 0\<rparr>"
        "\<lparr>write_key = replicate 16 3, read_key = replicate 16 1, write_iv = replicate 12 4, read_iv = replicate 12 2, write_seq = 0, read_seq = 0\<rparr>"
        "[(ApplicationData, [1, 2]), (Alert, [])]"]
  by (auto simp: new_layer_def peers_def sendable_def ct_from_byte_def)

text \<open>No two records of a layer share a nonce before the sequence number wraps.\<close>

lemma map2_xor_cancel:
  "length xs = length ys \<Longrightarrow> length ys = length zs \<Longrightarrow> map2 (XOR) xs ys = map2 (XOR) xs zs \<Longrightarrow> ys = (zs :: byte list)"
proof (induction xs ys arbitrary: zs rule: list_induct2)
  case (Cons x xs y ys)
  obtain z zt where z: "zs = z # zt" using Cons.prems(1) by (cases zs) auto
  have "x XOR (x XOR y) = x XOR (x XOR z)" using Cons.prems(2) z by simp
  then have "y = z" by (simp flip: xor.assoc)
  then show ?case using Cons.IH [of zt] Cons.prems z by simp
qed simp

lemma nonce_inj: "length iv = 12 \<Longrightarrow> build_nonce v iv = build_nonce w iv \<Longrightarrow> v = w"
  using map2_xor_cancel [of "drop 4 iv" "be_bytes64 v" "be_bytes64 w"] be_bytes64_inj
  by (auto simp: build_nonce_def) (simp_all add: be_bytes64_def)

subsection \<open>Hello messages\<close>

lemma u16_at_append [simp]: "p + 1 < length xs \<Longrightarrow> u16_at (xs @ ys) p = u16_at xs p"
  by (simp add: u16_at_def nth_append)

lemma u16_get_append: "p + 1 < length xs \<Longrightarrow> u16_get (xs @ ys) p = Some (u16_at xs p)"
  by (simp add: u16_get_def)

lemma parse_handshake_message_roundtrip:
  assumes "length body < 16777216"
  shows "parse_handshake_message (handshake_message ty body @ rest) = TOk (ty, body)"
  using len24 [of "length body"] assms
  by (simp add: parse_handshake_message_def handshake_message_def be24_def Let_def sub_slice_def mult.commute)

text \<open>The bytes of a ClientHello body before and after a public key of 32 bytes.\<close>

definition client_body_pre :: "cipher_suite \<Rightarrow> bytes" where
  "client_body_pre suite = [3, 3] @ replicate 32 0 @ [0, 0, 2] @ be16 (wire_id suite) @ [1, 0, 0, 65]
     @ [0, 43, 0, 3, 2, 3, 4] @ [0, 10, 0, 4, 0, 2, 0, 29] @ [0, 51, 0, 38, 0, 36, 0, 29, 0, 32]"

definition server_body_pre :: "cipher_suite \<Rightarrow> bytes" where
  "server_body_pre suite = [3, 3] @ replicate 32 0 @ [0] @ be16 (wire_id suite) @ [0, 0, 46]
     @ [0, 43, 0, 2, 3, 4] @ [0, 51, 0, 36, 0, 29, 0, 32]"

lemmas hello_defs = handshake_message_def extension_def be16_def
  EXT_SUPPORTED_VERSIONS_def EXT_SUPPORTED_GROUPS_def EXT_KEY_SHARE_def EXT_SIGNATURE_ALGORITHMS_def GROUP_X25519_def
  SIG_ECDSA_P256_SHA256_def TLS_1_3_def

lemma build_client_hello_form:
  "length pub = 32 \<Longrightarrow> build_client_hello pub suite
     = handshake_message MSG_CLIENT_HELLO (client_body_pre suite @ pub @ [0, 13, 0, 4, 0, 2, 4, 3])"
  by (simp add: build_client_hello_def client_extensions_def client_body_pre_def hello_defs Let_def)

lemma build_server_hello_form:
  "length pub = 32 \<Longrightarrow> build_server_hello pub suite = handshake_message MSG_SERVER_HELLO (server_body_pre suite @ pub)"
  by (simp add: build_server_hello_def server_extensions_def server_body_pre_def hello_defs Let_def)

lemma client_body_pre_facts:
  "length (client_body_pre suite) = 68" "client_body_pre suite ! 34 = 0" "client_body_pre suite ! 39 = 1"
  "map (u16_at (client_body_pre suite)) [35, 41, 43, 45, 50, 52, 58, 60, 62, 64, 66] = [2, 65, 43, 3, 10, 4, 51, 38, 36, 29, 32]"
  by (cases suite; code_simp)+

lemma server_body_pre_facts:
  "length (server_body_pre suite) = 54" "server_body_pre suite ! 34 = 0"
  "map (u16_at (server_body_pre suite)) [38, 40, 42, 46, 48, 50, 52] = [46, 43, 2, 51, 36, 29, 32]"
  by (cases suite; code_simp)+

lemma client_key_share_found:
  assumes "length pub = 32"
  shows "parse_client_hello_key_share (client_body_pre suite @ pub @ rest) = TOk pub"
proof -
  define pre where "pre = client_body_pre suite"
  note f = client_body_pre_facts [of suite, folded pre_def, simplified]
  have "share_loop (pre @ pub @ rest) 100 64 = TOk (Some pub)"
    using f assms by (subst share_loop.simps) (simp add: u16_get_append GROUP_X25519_def sub_slice_def)
  then have "client_ext_loop (pre @ pub @ rest) 108 58 = TOk pub"
    using f by (subst client_ext_loop.simps) (simp add: u16_get_append EXT_KEY_SHARE_def)
  then have "client_ext_loop (pre @ pub @ rest) 108 50 = TOk pub"
    using f by (subst client_ext_loop.simps) (simp add: u16_get_append EXT_KEY_SHARE_def)
  then have "client_ext_loop (pre @ pub @ rest) 108 43 = TOk pub"
    using f by (subst client_ext_loop.simps) (simp add: u16_get_append EXT_KEY_SHARE_def)
  then show ?thesis
    using f assms by (simp add: parse_client_hello_key_share_def Let_def nth_append flip: pre_def)
qed

lemma server_key_share_found:
  assumes "length pub = 32"
  shows "parse_server_hello_key_share (server_body_pre suite @ pub) = TOk pub"
proof -
  define pre where "pre = server_body_pre suite"
  note f = server_body_pre_facts [of suite, folded pre_def, simplified]
  have "server_ext_loop (pre @ pub) 86 46 = TOk pub"
    using f assms by (subst server_ext_loop.simps) (simp add: u16_get_append EXT_KEY_SHARE_def sub_slice_def)
  then have "server_ext_loop (pre @ pub) 86 40 = TOk pub"
    using f by (subst server_ext_loop.simps) (simp add: u16_get_append EXT_KEY_SHARE_def)
  then show ?thesis
    using f assms by (simp add: parse_server_hello_key_share_def Let_def nth_append flip: pre_def)
qed

subsection \<open>A run of both handshakes\<close>

text \<open>
  The client's hello goes to the server as a bare message, which is what the server
  parses; the server's answer is its hello in a record followed by the flight.
\<close>

definition own_keys :: "'k \<Rightarrow> bytes \<Rightarrow> 'k \<Rightarrow> bytes \<Rightarrow> 'k crypto \<Rightarrow> bytes \<Rightarrow> bool" where
  "own_keys cpriv cpub spriv spub c shared =
     (length cpub = 32 \<and> length spub = 32 \<and> cr_agree c cpriv spub = Some shared \<and> cr_agree c spriv cpub = Some shared)"

lemma from_record_bare_hello: "from_record (handshake_message MSG_CLIENT_HELLO body) = PErr ''not a Handshake record''
    \<or> from_record (handshake_message MSG_CLIENT_HELLO body) = PErr ''record too short''"
  by (simp add: from_record_def handshake_message_def be24_def MSG_CLIENT_HELLO_def)

lemma server_accepts_hello:
  fixes c :: "'k crypto"
  assumes "own_keys cpriv cpub spriv spub c shared" and "cr_sign c = (\<lambda>m. Some (sign m))"
  defines "chello \<equiv> build_client_hello cpub Aes128Gcm" and "shello \<equiv> build_server_hello spub Aes128Gcm"
  defines "ks \<equiv> new_schedule (cr_hmac c) Aes128Gcm []"
  defines "hkeys \<equiv> derive_handshake_keys (cr_hmac c) ks shared (cr_digest c (chello @ shello))"
  shows "\<exists>flight s. handle_client_hello c (Some (spriv, spub)) (new_server cert) chello = (TOk (wrap_handshake_record shello @ flight), s)
    \<and> sh_transcript s = chello @ shello @ flight
    \<and> sh_state s = SentFinished (derive_app_keys (cr_hmac c) ks (handshake_secret hkeys) (cr_digest c (chello @ shello @ flight)))"
proof -
  have f: "chello = handshake_message MSG_CLIENT_HELLO (client_body_pre Aes128Gcm @ cpub @ [0, 13, 0, 4, 0, 2, 4, 3])"
    using assms(1) by (simp add: chello_def own_keys_def build_client_hello_form)
  obtain e where r: "from_record chello = PErr e" using from_record_bare_hello unfolding f by blast
  have p: "parse_handshake_message chello = TOk (MSG_CLIENT_HELLO, client_body_pre Aes128Gcm @ cpub @ [0, 13, 0, 4, 0, 2, 4, 3])"
    using parse_handshake_message_roundtrip [of _ MSG_CLIENT_HELLO "[]"] assms(1)
    by (simp add: f own_keys_def client_body_pre_facts)
  have k: "parse_client_hello_key_share (client_body_pre Aes128Gcm @ cpub @ [0, 13, 0, 4, 0, 2, 4, 3]) = TOk cpub"
    using assms(1) by (simp add: own_keys_def client_key_share_found)
  obtain flight where fl: "server_flight c cert (server_finished_key hkeys) (chello @ shello) = TOk (flight, (chello @ shello) @ flight)"
    using assms(2) by (simp add: server_flight_def build_cert_verify_def Let_def)
  show ?thesis
    using r p k fl assms(1)
    by (simp add: handle_client_hello_def new_server_def own_keys_def Let_def flip: shello_def ks_def)
       (simp add: hkeys_def shello_def)
qed

lemma client_accepts_hello:
  fixes c :: "'k crypto"
  assumes "own_keys cpriv cpub spriv spub c shared"
  defines "chello \<equiv> build_client_hello cpub Aes128Gcm" and "shello \<equiv> build_server_hello spub Aes128Gcm"
  defines "ks \<equiv> new_schedule (cr_hmac c) Aes128Gcm []"
  defines "hkeys \<equiv> derive_handshake_keys (cr_hmac c) ks shared (cr_digest c (chello @ shello))"
  shows "process_server_hello c (snd (client_hello (Some (cpriv, cpub)) new_client)) shello
    = (TOk hkeys, \<lparr>ch_transcript = chello @ shello, ch_suite = Aes128Gcm, our_priv = None, ch_ks = Some ks, ch_hs_keys = Some hkeys\<rparr>)"
proof -
  have f: "shello = handshake_message MSG_SERVER_HELLO (server_body_pre Aes128Gcm @ spub)"
    using assms(1) by (simp add: shello_def own_keys_def build_server_hello_form)
  have p: "parse_handshake_message shello = TOk (MSG_SERVER_HELLO, server_body_pre Aes128Gcm @ spub)"
    using parse_handshake_message_roundtrip [of _ MSG_SERVER_HELLO "[]"] assms(1)
    by (simp add: f own_keys_def server_body_pre_facts)
  show ?thesis
    using p assms(1)
    by (simp add: process_server_hello_def client_hello_def new_client_def own_keys_def server_key_share_found Let_def hkeys_def ks_def
        flip: chello_def)
qed

text \<open>Toy primitives: the keys of a pair are equal and agree by exclusive or.\<close>

definition toy_crypto :: "bytes crypto" where
  "toy_crypto = \<lparr>cr_hmac = \<lambda>k m. take 32 (k @ m @ replicate 32 0), cr_digest = \<lambda>t. replicate 31 0 @ [word_of_nat (length t)],
     cr_agree = \<lambda>k p. Some (map2 (XOR) k p), cr_sign = \<lambda>m. Some [1, 2]\<rparr>"

lemma toy_own_keys:
  "own_keys (replicate 32 5) (replicate 32 5) (replicate 32 6) (replicate 32 6) toy_crypto (map2 (XOR) (replicate 32 5) (replicate 32 6))"
  by (simp add: own_keys_def toy_crypto_def zip_replicate xor.commute)

lemma toy_sign: "cr_sign toy_crypto = (\<lambda>m. Some [1, 2])"
  by (simp add: toy_crypto_def)

text \<open>
  C39: when client and server complete a handshake with each other, both have hashed the
  same messages and hold the same handshake secrets, but the traffic keys they switch to
  are derived from different transcripts: the server's from the messages up to its own
  Finished, the client's from these and its Finished.
\<close>

theorem handshake_transcripts_diverge:
  fixes c :: "'k crypto"
  assumes "own_keys cpriv cpub spriv spub c shared" and "cr_sign c = (\<lambda>m. Some (sign m))"
  shows "\<exists>flight s h fin skeys ckeys h' hk.
    handle_client_hello c (Some (spriv, spub)) (new_server cert) (build_client_hello cpub Aes128Gcm)
      = (TOk (wrap_handshake_record (build_server_hello spub Aes128Gcm) @ flight), s)
    \<and> process_server_hello c (snd (client_hello (Some (cpriv, cpub)) new_client)) (build_server_hello spub Aes128Gcm) = (TOk hk, h)
    \<and> build_client_finished c h flight = (TOk (wrap_handshake_record fin, ckeys), h')
    \<and> take_app_keys (snd (server_process c kp s data)) = Some skeys
    \<and> fin = build_finished (cr_hmac c) (client_finished_key hk) (cr_digest c (sh_transcript s))
    \<and> skeys = derive_app_keys (cr_hmac c) (new_schedule (cr_hmac c) Aes128Gcm []) (handshake_secret hk) (cr_digest c (sh_transcript s))
    \<and> ckeys = derive_app_keys (cr_hmac c) (new_schedule (cr_hmac c) Aes128Gcm []) (handshake_secret hk) (cr_digest c (sh_transcript s @ fin))"
proof -
  let ?ch = "build_client_hello cpub Aes128Gcm" and ?sh = "build_server_hello spub Aes128Gcm"
  obtain flight s where s:
    "handle_client_hello c (Some (spriv, spub)) (new_server cert) ?ch = (TOk (wrap_handshake_record ?sh @ flight), s)"
    "sh_transcript s = ?ch @ ?sh @ flight"
    "sh_state s = SentFinished (derive_app_keys (cr_hmac c) (new_schedule (cr_hmac c) Aes128Gcm [])
       (handshake_secret (derive_handshake_keys (cr_hmac c) (new_schedule (cr_hmac c) Aes128Gcm []) shared (cr_digest c (?ch @ ?sh))))
       (cr_digest c (?ch @ ?sh @ flight)))"
    using server_accepts_hello [OF assms] by blast
  show ?thesis
    unfolding s(1) client_accepts_hello [OF assms(1)] build_client_finished_def server_process_def handle_client_finished_def take_app_keys_def
    using s(2,3) by (simp add: Let_def)
qed

theorem handshake_transcripts_diverge_witness:
  "\<exists>flight s h fin skeys ckeys h' hk.
    handle_client_hello toy_crypto (Some (replicate 32 6, replicate 32 6)) (new_server [9]) (build_client_hello (replicate 32 5) Aes128Gcm)
      = (TOk (wrap_handshake_record (build_server_hello (replicate 32 6) Aes128Gcm) @ flight), s)
    \<and> process_server_hello toy_crypto (snd (client_hello (Some (replicate 32 5, replicate 32 5)) new_client)) (build_server_hello (replicate 32 6) Aes128Gcm) = (TOk hk, h)
    \<and> build_client_finished toy_crypto h flight = (TOk (wrap_handshake_record fin, ckeys), h')
    \<and> take_app_keys (snd (server_process toy_crypto None s [])) = Some skeys
    \<and> fin = build_finished (cr_hmac toy_crypto) (client_finished_key hk) (cr_digest toy_crypto (sh_transcript s))
    \<and> skeys = derive_app_keys (cr_hmac toy_crypto) (new_schedule (cr_hmac toy_crypto) Aes128Gcm []) (handshake_secret hk) (cr_digest toy_crypto (sh_transcript s))
    \<and> ckeys = derive_app_keys (cr_hmac toy_crypto) (new_schedule (cr_hmac toy_crypto) Aes128Gcm []) (handshake_secret hk) (cr_digest toy_crypto (sh_transcript s @ fin))"
  by (rule handshake_transcripts_diverge [OF toy_own_keys toy_sign])

text \<open>
  Neither side authenticates the other. After any ServerHello that parses, the client
  answers every flight, whatever its bytes, with a Finished message and traffic keys: no
  certificate, signature or Finished is looked at. A server that has sent its flight
  completes the handshake on every input.
\<close>

lemma handshake_unauthenticated:
  assumes "process_server_hello c h0 server_hello = (TOk hk, h)" and "sh_state s = SentFinished keys"
  shows "(\<exists>fin ckeys h'. build_client_finished c h flight = (TOk (wrap_handshake_record fin, ckeys), h'))
    \<and> take_app_keys (snd (server_process c kp s data)) = Some keys"
proof -
  have "\<exists>hs ks. ch_hs_keys h = Some hs \<and> ch_ks h = Some ks"
    using assms(1) by (auto simp: process_server_hello_def Let_def split: tls_result.splits option.splits if_splits prod.splits)
  then show ?thesis
    using assms(2) by (auto simp: build_client_finished_def server_process_def handle_client_finished_def take_app_keys_def Let_def)
qed

text \<open>
  C40: the server never accepts a client whose fingerprint it has computed: the fingerprint
  reads its input as a record, the handshake reads the same bytes as a bare message, and
  no input is both. After a hello that is accepted there is no fingerprint and no threat.
\<close>

theorem accepted_client_has_no_fingerprint:
  assumes "handle_client_hello c kp s data = (TOk out, s')"
  shows "sh_ja3 s' = None \<and> ja3_threat s' = None"
proof -
  have "data ! 0 = MSG_CLIENT_HELLO"
    using assms by (auto simp: handle_client_hello_def parse_handshake_message_def Let_def split: parsed.splits tls_result.splits if_splits prod.splits)
  then obtain e where "from_record data = PErr e" by (cases "length data < 5") (simp_all add: from_record_def MSG_CLIENT_HELLO_def)
  then show ?thesis
    using assms
    by (auto simp: handle_client_hello_def ja3_threat_def Let_def split: tls_result.splits option.splits if_splits prod.splits)
qed

theorem accepted_client_has_no_fingerprint_witness:
  "\<exists>out s. handle_client_hello toy_crypto (Some (replicate 32 6, replicate 32 6)) (new_server [9])
      (build_client_hello (replicate 32 5) Aes128Gcm) = (TOk out, s) \<and> ja3_threat s = None"
  using accepted_client_has_no_fingerprint server_accepts_hello [OF toy_own_keys toy_sign, of "[9]"] by blast

subsection \<open>A server without a certificate\<close>

text \<open>\<open>ring\<close>'s HMAC-SHA256 gives 32 bytes.\<close>

definition hmac_laws :: "hmac_fn \<Rightarrow> bool" where
  "hmac_laws hmac = (\<forall>k m. length (hmac k m) = 32)"

lemma expand_loop_length: "hmac_laws hmac \<Longrightarrow> length (expand_loop hmac prk info prev n k) = 32 * k"
  by (induction k arbitrary: prev n) (simp_all add: hmac_laws_def Let_def)

lemma hkdf_expand_label_length: "hmac_laws hmac \<Longrightarrow> length (hkdf_expand_label hmac s label ctxt n) = n"
  by (simp add: hkdf_expand_label_def hkdf_expand_def expand_loop_length)

lemma aead_seal_length: "aead_laws a \<Longrightarrow> ae_seal a k n d p = Some c \<Longrightarrow> length p \<le> 2 ^ 14 + 1 \<Longrightarrow> length c = length p + 16"
  unfolding aead_laws_def by (metis option.inject)

lemma new_layer_derived:
  assumes "hmac_laws hmac" and "hk = derive_handshake_keys hmac (new_schedule hmac suite psk) shared th"
  shows "new_layer suite (hk_client hk) (hk_server hk) = Some (Inr \<lparr>write_key = tk_key (hk_client hk), read_key = tk_key (hk_server hk),
    write_iv = tk_iv (hk_client hk), read_iv = tk_iv (hk_server hk), write_seq = 0, read_seq = 0\<rparr>)"
  using hkdf_expand_label_length [OF assms(1)] unfolding assms(2)
  by (simp add: new_layer_def derive_handshake_keys_def derive_traffic_keys_def new_schedule_def Let_def)

lemma take_drop_5:
  "take (5 + k) (a # b # c # d # e # xs) = a # b # c # d # e # take k xs" "drop (5 + k) (a # b # c # d # e # xs) = drop k xs"
  by (simp_all add: eval_nat_numeral)

lemma read_tls_record_framed:
  assumes "length payload \<le> 16640"
  shows "read_tls_record ([ty, 3, 3] @ be16 (length payload) @ payload @ rest) = (Inr (ty, [ty, 3, 3] @ be16 (length payload) @ payload), rest)"
  using u16_bytes [of "length payload"] assms
  by (simp add: read_tls_record_def be16_def MAX_TLS_RECORD_def Let_def mult.commute take_drop_5)

text \<open>A flight that is one record with the header of an empty Finished message.\<close>

lemma flight_of_bare_finished:
  assumes "aead_laws a" and "peers s rl"
  shows "\<exists>x s' rl'. seal_record a s Handshake [20, 0, 0, 0] = (Inr x, s') \<and> flight_loop a rl [] (x @ rest) = Inr ([20, 0, 0, 0], rl')"
proof -
  obtain x s' rl' where x: "seal_record a s Handshake [20, 0, 0, 0] = (Inr x, s')" "open_record a rl x = (Inr (Handshake, [20, 0, 0, 0]), rl')"
    using seal_open_record [OF assms, of Handshake "[20, 0, 0, 0]"] by (auto simp: sendable_def ct_from_byte_def)
  have "\<exists>payload. x = [0x17, 3, 3] @ be16 (length payload) @ payload \<and> length payload \<le> 16640"
    using x(1) aead_seal_length [OF assms(1)]
    by (fastforce simp: seal_record_def record_header_def be16_def Let_def split: option.splits)
  then obtain payload where "x = [0x17, 3, 3] @ be16 (length payload) @ payload" "length payload \<le> 16640" by blast
  then have "read_tls_record (x @ rest) = (Inr (0x17, x), rest)" using read_tls_record_framed [of payload "0x17" rest] by simp
  then have "flight_loop a rl [] (x @ rest) = Inr ([20, 0, 0, 0], rl')"
    using x(2) by (subst flight_loop.simps) (simp add: has_finished_msg.simps)
  then show ?thesis using x(1) by blast
qed

text \<open>
  C37: an upstream without certificate or private key passes for any server. With an
  ephemeral key of its own it sends a ServerHello and one encrypted record that holds the
  header of an empty Finished message and nothing else, and the pool takes the
  connection: the driver ends with traffic keys.
\<close>

theorem impostor_completes_handshake:
  fixes c :: "'k crypto"
  assumes "aead_laws a" and "hmac_laws (cr_hmac c)" and "own_keys cpriv cpub spriv spub c shared"
  defines "server_hello \<equiv> build_server_hello spub Aes128Gcm"
  defines "hk \<equiv> derive_handshake_keys (cr_hmac c) (new_schedule (cr_hmac c) Aes128Gcm []) shared
     (cr_digest c (build_client_hello cpub Aes128Gcm @ server_hello))"
  shows "\<exists>s x s' fin keys. new_layer Aes128Gcm (hk_server hk) (hk_client hk) = Some (Inr s)
    \<and> seal_record a s Handshake [20, 0, 0, 0] = (Inr x, s')
    \<and> run_client_tls_handshake c a (Some (cpriv, cpub)) True True (wrap_handshake_record server_hello @ x) = TOk (Inr (fin, keys))"
proof -
  let ?rl = "\<lparr>write_key = tk_key (hk_client hk), read_key = tk_key (hk_server hk), write_iv = tk_iv (hk_client hk), read_iv = tk_iv (hk_server hk), write_seq = 0, read_seq = 0\<rparr>"
  let ?s = "\<lparr>write_key = tk_key (hk_server hk), read_key = tk_key (hk_client hk), write_iv = tk_iv (hk_server hk), read_iv = tk_iv (hk_client hk), write_seq = 0, read_seq = 0\<rparr>"
  have l: "new_layer Aes128Gcm (hk_client hk) (hk_server hk) = Some (Inr ?rl)" using new_layer_derived [OF assms(2)] by (simp add: hk_def)
  then have s: "new_layer Aes128Gcm (hk_server hk) (hk_client hk) = Some (Inr ?s)" by (auto simp: new_layer_def split: if_splits)
  obtain x s' rl' where x: "seal_record a ?s Handshake [20, 0, 0, 0] = (Inr x, s')" "flight_loop a ?rl [] x = Inr ([20, 0, 0, 0], rl')"
    using flight_of_bare_finished [OF assms(1), of ?s ?rl "[]"] by (auto simp: peers_def)
  have "length server_hello \<le> 16640" using assms(3)
    by (simp add: server_hello_def build_server_hello_form own_keys_def handshake_message_def be24_def server_body_pre_facts)
  then have h: "server_hello_loop (wrap_handshake_record server_hello @ x) = Inr (server_hello, x)"
    using read_tls_record_framed [of server_hello "0x16" x]
    by (subst server_hello_loop.simps) (simp add: wrap_handshake_record_def be16_def)
  obtain fin keys h' where f: "build_client_finished c (snd (process_server_hello c (snd (client_hello (Some (cpriv, cpub)) new_client)) server_hello)) [20, 0, 0, 0]
      = (TOk (wrap_handshake_record fin, keys), h')" and "length fin = 36"
    using assms(2) client_accepts_hello [OF assms(3)]
    by (fastforce simp: server_hello_def build_client_finished_def build_finished_def handshake_message_def be24_def hmac_laws_def Let_def)
  obtain y l' where "seal_record a rl' Handshake fin = (Inr y, l')"
    using seal_open_record [OF assms(1), of rl' "\<lparr>write_key = [], read_key = write_key rl', write_iv = [], read_iv = write_iv rl', write_seq = 0, read_seq = write_seq rl'\<rparr>" Handshake fin]
      \<open>length fin = 36\<close> by (auto simp: sendable_def ct_from_byte_def peers_def)
  then have "run_client_tls_handshake c a (Some (cpriv, cpub)) True True (wrap_handshake_record server_hello @ x) = TOk (Inr (y, keys))"
    using h l x(2) f \<open>length fin = 36\<close> client_accepts_hello [OF assms(3)]
    by (simp add: run_client_tls_handshake_def client_hello_def Let_def hk_def server_hello_def wrap_handshake_record_def be16_def)
  then show ?thesis using s x(1) by blast
qed

theorem impostor_completes_handshake_witness:
  "\<exists>x fin keys. run_client_tls_handshake toy_crypto tag_cipher (Some (replicate 32 5, replicate 32 5)) True True
      (wrap_handshake_record (build_server_hello (replicate 32 6) Aes128Gcm) @ x) = TOk (Inr (fin, keys))"
proof -
  have "hmac_laws (cr_hmac toy_crypto)" by (auto simp: hmac_laws_def toy_crypto_def min_def)
  from impostor_completes_handshake [OF tag_cipher_laws this toy_own_keys] show ?thesis by blast
qed

text \<open>
  A ClientHello that announces four bytes of extensions and ends there takes the server
  down: the loop reads the type of an extension beyond the end of the message.
\<close>

lemma truncated_hello_panics:
  "parse_client_hello_key_share ([3, 3] @ replicate 32 0 @ [0, 0, 0, 0, 0, 4]) = TPanic"
proof -
  define body where "body = [3, 3] @ replicate 32 0 @ [0, 0, 0, 0, 0, 4 :: byte]"
  have f: "length body = 40" "body ! 34 = 0" "u16_at body 35 = 0" "body ! 37 = 0" "u16_at body 38 = 4" unfolding body_def by code_simp+
  then have "client_ext_loop body 44 40 = TPanic" by (subst client_ext_loop.simps) (simp add: u16_get_def)
  then show ?thesis using f unfolding body_def [symmetric] by (simp add: parse_client_hello_key_share_def Let_def)
qed

end
