(* ===== verification/Spec2Isabelle.thy ===== *)
theory Spec2Isabelle
  imports Policy Detector Store Pool AiReq H1 Sse Limiter Wire Forward Govern Merkle AuditLog Hpack H2 Onnx Overlay Metrics Handle Tls
begin

text \<open>
  A verification library for the data plane of the TSM gateway
  (\<open>src/dataplane/src\<close>): a proxy that reads an AI request from a client, scans its
  text, decides by policy whether it is answered, held, redacted or forwarded, and
  relays the answer of the upstream model.

  \<^bold>\<open>How a request runs and which theory models what.\<close>
  \<open>Wire\<close> reads the request from the socket and \<open>H1\<close> parses it; \<open>Limiter\<close> is the
  per-client token bucket. \<open>AiReq\<close> reads the OpenAI or Anthropic body. \<open>Detector\<close>
  scans the text; it composes \<open>Structural\<close>, \<open>Entropy\<close>, \<open>Bpe\<close>, \<open>Reputation\<close>,
  \<open>Scoring\<close> and \<open>Redaction\<close>. \<open>Policy\<close> is the rule engine with its built-in rules and
  hot reload, \<open>Sessions\<close> and \<open>Store\<close> keep the session pins and rate windows in memory or
  in Redis. \<open>Govern\<close> composes verdict, policy, pin and redaction into the fate of the
  request. \<open>Forward\<close> sends it over a connection of \<open>Pool\<close>, guarded by the breakers of
  \<open>Circuit\<close> to a target of \<open>Registry\<close>, and relays the response, streamed ones
  through the redaction buffer of \<open>Sse\<close>. \<open>Handle\<close> is the whole call
  \<open>handle_connection\<close> over all of these: from the bytes of the client through rate limit,
  node endpoints, triage by the local classifier (\<open>Onnx\<close>), decision, the Merkle chain
  (\<open>Merkle\<close> over the implementation of SHA-256 in \<open>Sha256\<close>), the HMAC-chained log
  (\<open>AuditLog\<close>) and the metrics registry (\<open>Metrics\<close>) to the answer, with the overlay of
  signed names (\<open>Overlay\<close>) behind its own endpoints. \<open>H2\<close> is the HTTP/2 framing layer
  with the header decoder \<open>Hpack\<close>. \<open>Prelude\<close>, \<open>F64\<close>, \<open>Json\<close> and \<open>Utf8\<close> are the
  shared base: strings as UTF-8 bytes, IEEE doubles with rounding, JSON values, the
  parts of the Rust standard library that the sources call, and the interface
  \<open>invariant_machine\<close> of a step function with an invariant.

  \<^bold>\<open>Correspondence.\<close> Every Rust struct is a record, every enum a datatype, every function
  a definition of the same name where the name is free; a loop is a recursive
  definition. A lock that is held over a call makes the call one step. Clock readings,
  random values, sockets, environment variables and code that is not part of the
  repository (\<open>serde_json\<close>, the regex engine, the digest and MAC crates, Ed25519, the ONNX
  model, the printing of floats, the Unicode tables beyond ASCII) are parameters; what a theorem needs of them is a
  hypothesis. A Rust panic is a value of its own, and the release profile's wrap-around
  arithmetic is kept at its width.

  \<^bold>\<open>What is shown.\<close> Policy: evaluation is the least-priority match and the exact set of
  requests the built-in rules let pass. Redaction: equality with a one-pass reference and
  confidentiality of what a span covers, carried through \<open>Govern\<close> to the bytes that
  leave. Scoring and entropy bounds with rounding, detection guarantees and their gaps.
  Sessions: both stores and the router implement the sticky-pin contract \<open>pin_store\<close>,
  from which \<open>Govern\<close> derives that a flagged conversation never leaves unmodified.
  Pool and breaker: conservation of descriptors, exact trip conditions. Codecs: round
  trips of HTTP requests, responses, chunked bodies, event streams and JSON requests;
  agreement of the two readings of the body length for every segmentation.
  Audit: inclusion proofs of the Merkle chain verify and its root commits to every event
  up to a collision of the hash; a written log verifies and its last hash commits to it.
  HPACK and HTTP/2: decoding of plain blocks, the size bound of the dynamic table,
  independence of the frame handling from segmentation. Overlay: the registry serves the
  highest record of the first key. Metrics: histograms and counters are exact. Whole call:
  every contact with an upstream is recorded with its action, a high score never reaches
  one, and what the code does with a failing audit log and with the client's descriptor.
  Some theorems state what the code does although it should not (a parser loop without
  end, a response relayed to the wrong client, text that is never scanned); they are
  marked as such in their text and are the findings of the manifest.

  \<^bold>\<open>Fuel.\<close> Only the chunked decoder of \<open>H1\<close> takes fuel, since it may loop; one unit per
  chunk and one for the last chunk suffice, which is proved for every well-formed body,
  and the theorem on its divergence holds for every amount.

  \<^bold>\<open>Not modelled.\<close> The TLS handshake and key schedule (\<open>tls/\<close>), the accept loop,
  \<open>epoll\<close> and \<open>splice\<close> wrappers, transparent proxying, telemetry and log lines,
  the PostgreSQL, Kafka and ClickHouse sinks with the rows built for them, configuration loading, the edge modules
  and the control-plane tools outside the data plane.
\<close>

end
